(* ===== verification/Prelude.thy ===== *)
theory Prelude
  imports Main "HOL-Library.AList" "HOL-Library.Multiset" "HOL-Library.Sublist"
begin

text \<open>
  Shared vocabulary of the development.  Rust collections are modelled as follows: a
  \<^verbatim>\<open>HashMap\<close> is an association list with distinct keys (the hash order, which the source
  never relies on, is the order of the list), a \<^verbatim>\<open>Vec\<close> or \<^verbatim>\<open>VecDeque\<close> is a list, an
  \<^verbatim>\<open>Option\<close> is an \<^typ>\<open>'a option\<close>, a \<^verbatim>\<open>Result\<close> is a sum with the error on the left.
  The lemmas below are the facts about these that the components share.
\<close>

named_theorems rust_simps \<open>definitions of small library functions, unfolded by evaluation\<close>

named_theorems frame \<open>what an operation leaves unchanged\<close>

type_synonym ('k, 'v) hashmap = "('k \<times> 'v) list"

subsection \<open>Option and list functions of the Rust library\<close>

definition unwrap_or :: "'a option \<Rightarrow> 'a \<Rightarrow> 'a" where
  [rust_simps]: "unwrap_or x d = (case x of None \<Rightarrow> d | Some y \<Rightarrow> y)"

definition filter_option :: "('a \<Rightarrow> bool) \<Rightarrow> 'a option \<Rightarrow> 'a option" where
  [rust_simps]: "filter_option P x = (case x of None \<Rightarrow> None | Some y \<Rightarrow> if P y then Some y else None)"

definition or_option :: "'a option \<Rightarrow> 'a option \<Rightarrow> 'a option" where
  [rust_simps]: "or_option x y = (case x of None \<Rightarrow> y | Some z \<Rightarrow> Some z)"

lemma unwrap_or_simps [simp]: "unwrap_or None d = d" "unwrap_or (Some y) d = y"
  by (simp_all add: unwrap_or_def)

lemma or_option_simps [simp]: "or_option None y = y" "or_option (Some z) y = Some z"
  by (simp_all add: or_option_def)

lemma filter_option_Some [simp]:
  "filter_option P x = Some y \<longleftrightarrow> x = Some y \<and> P y"
  by (auto simp: filter_option_def split: option.splits)

lemma filter_option_simps [simp]:
  "filter_option P None = None" "filter_option P (Some y) = (if P y then Some y else None)"
  by (simp_all add: filter_option_def)

text \<open>\<^verbatim>\<open>iter().position(P)\<close>.\<close>

fun position :: "('a \<Rightarrow> bool) \<Rightarrow> 'a list \<Rightarrow> nat option" where
  "position P [] = None"
| "position P (x # xs) = (if P x then Some 0 else map_option Suc (position P xs))"

lemma position_Some:
  "position P xs = Some i \<Longrightarrow> i < length xs \<and> P (xs ! i) \<and> (\<forall>j < i. \<not> P (xs ! j))"
proof (induction xs arbitrary: i)
  case Nil
  then show ?case by simp
next
  case (Cons x xs)
  show ?case
  proof (cases "P x")
    case True
    with Cons.prems show ?thesis by simp
  next
    case False
    with Cons.prems obtain k where k: "position P xs = Some k" and i: "i = Suc k" by auto
    from Cons.IH [OF k] have IH: "k < length xs" "P (xs ! k)" "\<forall>j<k. \<not> P (xs ! j)" by auto
    have "\<forall>j<i. \<not> P ((x # xs) ! j)"
    proof (intro allI impI)
      fix j assume "j < i"
      with i IH False show "\<not> P ((x # xs) ! j)" by (cases j) auto
    qed
    with i IH show ?thesis by simp
  qed
qed

lemma position_None: "position P xs = None \<longleftrightarrow> (\<forall>x \<in> set xs. \<not> P x)"
  by (induction xs) auto

lemma position_ex: "x \<in> set xs \<Longrightarrow> P x \<Longrightarrow> \<exists>i. position P xs = Some i"
  using position_None [of P xs] by (cases "position P xs") auto

text \<open>\<^verbatim>\<open>Vec::remove(i)\<close> for an index in range, and \<^verbatim>\<open>skip(a).take(b - a)\<close>.\<close>

definition remove_at :: "nat \<Rightarrow> 'a list \<Rightarrow> 'a list" where
  [rust_simps]: "remove_at i xs = take i xs @ drop (Suc i) xs"

lemma length_remove_at: "i < length xs \<Longrightarrow> length (remove_at i xs) = length xs - 1"
  by (simp add: remove_at_def)

lemma set_remove_at_subset: "set (remove_at i xs) \<subseteq> set xs"
  by (auto simp: remove_at_def dest: in_set_takeD in_set_dropD)

lemma remove_at_perm: "i < length xs \<Longrightarrow> mset xs = add_mset (xs ! i) (mset (remove_at i xs))"
  by (metis id_take_nth_drop mset.simps(2) mset_append remove_at_def union_mset_add_mset_right)

text \<open>\<^verbatim>\<open>Iterator::find\<close> is HOL's \<^const>\<open>List.find\<close>.\<close>

lemma find_Some_iff_ex: "List.find P xs \<noteq> None \<longleftrightarrow> (\<exists>x \<in> set xs. P x)"
  by (induction xs) auto

lemma find_upt:
  assumes "List.find P [a..<b] = Some n"
  shows "a \<le> n \<and> n < b \<and> P n \<and> list_all (\<lambda>m. \<not> P m) [a..<n]"
proof -
  obtain i where i: "i < b - a" "P (a + i)" "n = a + i" "\<forall>j<i. \<not> P (a + j)"
    using assms unfolding find_Some_iff by auto
  have "\<not> P m" if "a \<le> m" "m < n" for m
    using i(3,4) that by (auto dest: spec [of _ "m - a"])
  then show ?thesis using i by (simp add: list_all_iff)
qed

subsection \<open>Hash maps as association lists\<close>

definition keys :: "('k, 'v) hashmap \<Rightarrow> 'k list" where
  "keys m = map fst m"

definition vals :: "('k, 'v) hashmap \<Rightarrow> 'v list" where
  "vals m = map snd m"

text \<open>\<^verbatim>\<open>if let Some(v) = map.get_mut(k) { *v = f(*v) }\<close>.\<close>

fun modify :: "'k \<Rightarrow> ('v \<Rightarrow> 'v) \<Rightarrow> ('k, 'v) hashmap \<Rightarrow> ('k, 'v) hashmap" where
  "modify k f [] = []"
| "modify k f ((k', v) # m) = (if k' = k then (k', f v) # m else (k', v) # modify k f m)"

lemma map_of_modify: "map_of (modify k f m) = (map_of m)(k := map_option f (map_of m k))"
  by (induction m) (auto simp: fun_eq_iff)

lemma map_of_modify_same [simp]: "map_of (modify k f m) k = map_option f (map_of m k)"
  by (simp add: map_of_modify)

lemma map_of_modify_other [simp]: "k' \<noteq> k \<Longrightarrow> map_of (modify k f m) k' = map_of m k'"
  by (simp add: map_of_modify)

lemma modify_same: "map_of m k = Some v \<Longrightarrow> modify k f m = modify k (\<lambda>_. f v) m"
  by (induction m) auto

lemma keys_modify [simp]: "map fst (modify k f m) = map fst m"
  by (induction m) auto

lemma length_modify [simp]: "length (modify k f m) = length m"
  by (induction m) auto

lemma map_of_update [simp]: "map_of (AList.update k v m) = (map_of m)(k \<mapsto> v)"
  by (rule update_conv')

lemma map_of_delete [simp]: "map_of (AList.delete k m) = (map_of m)(k := None)"
  by (rule delete_conv')

lemma distinct_keys_update [intro]:
  "distinct (map fst m) \<Longrightarrow> distinct (map fst (AList.update k v m))"
  by (rule distinct_update)

lemma distinct_keys_delete [intro]:
  "distinct (map fst m) \<Longrightarrow> distinct (map fst (AList.delete k m))"
  by (rule distinct_delete)

lemma update_fresh: "map_of m k = None \<Longrightarrow> AList.update k v m = m @ [(k, v)]"
  by (induction m) (auto split: if_splits)

lemma length_update_new: "map_of m k = None \<Longrightarrow> length (AList.update k v m) = Suc (length m)"
  by (induction m) (auto split: if_splits)

lemma length_delete_le: "length (AList.delete k m) \<le> length m"
  by (rule length_delete_le)

lemma distinct_keys_filter [intro]:
  "distinct (map fst m) \<Longrightarrow> distinct (map fst (filter P m))"
  by (rule distinct_map_filter)

lemma map_of_filter_key:
  "distinct (map fst m) \<Longrightarrow>
   map_of (filter (\<lambda>(k, v). P k v) m) k = filter_option (P k) (map_of m k)"
proof (induction m)
  case Nil
  then show ?case by simp
next
  case (Cons a m)
  obtain k' v where a: "a = (k', v)" by force
  have "map_of m k' = None" using Cons.prems a by (simp add: map_of_eq_None_iff)
  then show ?case using Cons a by (auto simp: filter_option_def)
qed

end
