(* ===== verification/Rust_Text.thy ===== *)
theory Rust_Text
  imports Prelude
begin

text \<open>
  Rust text.  A \<^verbatim>\<open>String\<close> is its UTF-8 bytes, so it is a HOL \<^typ>\<open>string\<close>: \<^verbatim>\<open>len()\<close> is
  \<^const>\<open>length\<close>, equality is byte equality and a literal is written as it is in the source.
  \<^verbatim>\<open>chars()\<close> decodes to code points (\<^typ>\<open>nat\<close>), \<open>of_chars\<close> is collecting them
  back into a \<^verbatim>\<open>String\<close>.  The character classes used by the source are those of the Rust
  standard library.
\<close>

subsection \<open>UTF-8\<close>

type_synonym cp = nat

definition len_utf8 :: "cp \<Rightarrow> nat" where
  [rust_simps]: "len_utf8 c = (if c < 128 then 1 else if c < 2048 then 2 else if c < 65536 then 3 else 4)"

definition utf8_bytes :: "cp \<Rightarrow> nat list" where
  [rust_simps]: "utf8_bytes c =
     (if c < 128 then [c]
      else if c < 2048 then [192 + c div 64, 128 + c mod 64]
      else if c < 65536 then [224 + c div 4096, 128 + c div 64 mod 64, 128 + c mod 64]
      else [240 + c div 262144, 128 + c div 4096 mod 64, 128 + c div 64 mod 64, 128 + c mod 64])"

definition of_chars :: "cp list \<Rightarrow> string" where
  "of_chars cs = map char_of (concat (map utf8_bytes cs))"

definition cont :: "nat list \<Rightarrow> nat \<Rightarrow> nat" where
  [rust_simps]: "cont bs i = (if i < length bs then bs ! i - 128 else 0)"

fun decode :: "nat list \<Rightarrow> cp list" where
  "decode [] = []"
| "decode (b # bs) =
     (if b < 128 then b # decode bs
      else if b < 224 then ((b - 192) * 64 + cont bs 0) # decode (drop 1 bs)
      else if b < 240 then ((b - 224) * 4096 + cont bs 0 * 64 + cont bs 1) # decode (drop 2 bs)
      else ((b - 240) * 262144 + cont bs 0 * 4096 + cont bs 1 * 64 + cont bs 2) # decode (drop 3 bs))"

definition chars :: "string \<Rightarrow> cp list" where
  "chars s = decode (map of_char s)"

definition scalar :: "cp \<Rightarrow> bool" where
  "scalar c \<longleftrightarrow> c < 1114112"

lemma length_utf8_bytes: "length (utf8_bytes c) = len_utf8 c"
  by (simp add: utf8_bytes_def len_utf8_def)

lemma len_utf8_bounds: "1 \<le> len_utf8 c" "len_utf8 c \<le> 4"
  by (simp_all add: len_utf8_def)

lemma utf8_bytes_byte: "scalar c \<Longrightarrow> b \<in> set (utf8_bytes c) \<Longrightarrow> b < 256"
  by (auto simp: utf8_bytes_def scalar_def split: if_splits)

lemma three_digits: "(c::nat) div 4096 * 4096 + c div 64 mod 64 * 64 + c mod 64 = c"
proof -
  have "c div 4096 = c div 64 div 64" by (simp add: div_mult2_eq [symmetric])
  moreover have "c div 64 div 64 * 64 + c div 64 mod 64 = c div 64" by simp
  moreover have "c div 64 * 64 + c mod 64 = c" by simp
  ultimately show ?thesis by linarith
qed

lemma four_digits:
  "(c::nat) div 262144 * 262144 + c div 4096 mod 64 * 4096 + c div 64 mod 64 * 64 + c mod 64 = c"
proof -
  have "c div 262144 = c div 4096 div 64" by (simp add: div_mult2_eq [symmetric])
  moreover have "c div 4096 div 64 * 64 + c div 4096 mod 64 = c div 4096" by simp
  ultimately have "c div 262144 * 64 + c div 4096 mod 64 = c div 4096" by simp
  then show ?thesis using three_digits [of c] by linarith
qed

lemma decode_utf8_bytes:
  assumes "scalar c"
  shows "decode (utf8_bytes c @ bs) = c # decode bs"
proof -
  consider "c < 128" | "128 \<le> c" "c < 2048" | "2048 \<le> c" "c < 65536" | "65536 \<le> c"
    by linarith
  then show ?thesis
  proof cases
    case 1
    then show ?thesis by (simp add: utf8_bytes_def)
  next
    case 2
    then have "c div 64 < 32" by (simp add: less_mult_imp_div_less)
    then show ?thesis using 2 by (simp add: utf8_bytes_def cont_def)
  next
    case 3
    then have "c div 4096 < 16" by (simp add: less_mult_imp_div_less)
    then show ?thesis using 3 three_digits [of c] by (simp add: utf8_bytes_def cont_def)
  next
    case 4
    with assms have "c div 262144 < 8" by (simp add: scalar_def less_mult_imp_div_less)
    then show ?thesis using 4 four_digits [of c]
      by (simp add: utf8_bytes_def cont_def numeral_2_eq_2 numeral_3_eq_3)
  qed
qed

lemma of_char_of_byte: "b < 256 \<Longrightarrow> of_char (char_of b :: char) = (b :: nat)"
  by simp

lemma chars_of_chars: "\<forall>c \<in> set cs. scalar c \<Longrightarrow> chars (of_chars cs) = cs"
proof -
  assume *: "\<forall>c \<in> set cs. scalar c"
  have "map of_char (of_chars cs) = concat (map utf8_bytes cs)"
    using * by (auto simp: of_chars_def intro!: map_idI mod_less) (blast intro: utf8_bytes_byte)
  moreover have "decode (concat (map utf8_bytes cs)) = cs"
    using * by (induction cs) (simp_all add: decode_utf8_bytes)
  ultimately show ?thesis by (simp add: chars_def)
qed

lemma length_of_chars: "length (of_chars cs) = sum_list (map len_utf8 cs)"
  by (simp add: of_chars_def length_concat length_utf8_bytes o_def)

lemma of_chars_Nil [simp]: "of_chars [] = []"
  by (simp add: of_chars_def)

lemma of_chars_append: "of_chars (xs @ ys) = of_chars xs @ of_chars ys"
  by (simp add: of_chars_def)

lemma of_chars_eq_Nil [simp]: "of_chars cs = [] \<longleftrightarrow> cs = []"
  by (cases cs) (auto simp: of_chars_def utf8_bytes_def)

text \<open>A string Rust can hold: the encoding of some scalar values.\<close>

definition valid_utf8 :: "string \<Rightarrow> bool" where
  "valid_utf8 s \<longleftrightarrow> (\<exists>cs. (\<forall>c \<in> set cs. scalar c) \<and> s = of_chars cs)"

lemma of_chars_chars: "valid_utf8 s \<Longrightarrow> of_chars (chars s) = s"
  by (auto simp: valid_utf8_def chars_of_chars)

lemma scalar_chars: "valid_utf8 s \<Longrightarrow> c \<in> set (chars s) \<Longrightarrow> scalar c"
  by (auto simp: valid_utf8_def chars_of_chars)

lemma valid_utf8_of_chars: "\<forall>c \<in> set cs. scalar c \<Longrightarrow> valid_utf8 (of_chars cs)"
  by (auto simp: valid_utf8_def)

subsection \<open>Character classes and trimming\<close>

definition is_control :: "cp \<Rightarrow> bool" where
  [rust_simps]: "is_control c \<longleftrightarrow> c < 32 \<or> 127 \<le> c \<and> c < 160"

definition is_whitespace :: "cp \<Rightarrow> bool" where
  [rust_simps]: "is_whitespace c \<longleftrightarrow>
     9 \<le> c \<and> c \<le> 13 \<or> c = 32 \<or> c = 133 \<or> c = 160 \<or> c = 5760 \<or> 8192 \<le> c \<and> c \<le> 8202 \<or>
     c = 8232 \<or> c = 8233 \<or> c = 8239 \<or> c = 8287 \<or> c = 12288"

definition trim_chars :: "cp list \<Rightarrow> cp list" where
  "trim_chars cs = rev (dropWhile is_whitespace (rev (dropWhile is_whitespace cs)))"

definition trim :: "string \<Rightarrow> string" where
  "trim s = of_chars (trim_chars (chars s))"

lemma set_trim_chars: "set (trim_chars cs) \<subseteq> set cs"
proof
  fix x assume "x \<in> set (trim_chars cs)"
  then have "x \<in> set (dropWhile is_whitespace (rev (dropWhile is_whitespace cs)))"
    by (simp add: trim_chars_def)
  from set_dropWhileD [OF this] have "x \<in> set (dropWhile is_whitespace cs)" by simp
  from set_dropWhileD [OF this] show "x \<in> set cs" by simp
qed

lemma length_dropWhile_le': "sum_list (map f (dropWhile P xs)) \<le> sum_list (map f xs)"
  for f :: "'a \<Rightarrow> nat"
  by (induction xs) auto

lemma sum_list_map_rev: "sum_list (map f (rev xs)) = sum_list (map f xs)"
  for f :: "'a \<Rightarrow> nat"
  by (simp add: rev_map [symmetric])

lemma sum_trim_chars: "sum_list (map f (trim_chars cs)) \<le> sum_list (map f cs)"
  for f :: "cp \<Rightarrow> nat"
proof -
  have "sum_list (map f (trim_chars cs))
      = sum_list (map f (dropWhile is_whitespace (rev (dropWhile is_whitespace cs))))"
    by (simp only: trim_chars_def sum_list_map_rev)
  also have "\<dots> \<le> sum_list (map f (rev (dropWhile is_whitespace cs)))"
    by (rule length_dropWhile_le')
  also have "\<dots> = sum_list (map f (dropWhile is_whitespace cs))"
    by (rule sum_list_map_rev)
  also have "\<dots> \<le> sum_list (map f cs)" by (rule length_dropWhile_le')
  finally show ?thesis .
qed

lemma length_trim_chars: "length (trim_chars cs) \<le> length cs"
  using sum_trim_chars [of "\<lambda>_. 1" cs] by (simp add: sum_list_triv)

lemma trim_of_chars:
  "\<forall>c \<in> set cs. scalar c \<Longrightarrow> trim (of_chars cs) = of_chars (trim_chars cs)"
  by (simp add: trim_def chars_of_chars)

lemma trim_chars_idem: "trim_chars (trim_chars cs) = trim_chars cs"
proof -
  have *: "dropWhile P (rev (dropWhile P (rev (dropWhile P xs)))) = rev (dropWhile P (rev (dropWhile P xs)))"
    for P and xs :: "cp list"
  proof (cases "rev (dropWhile P (rev (dropWhile P xs)))")
    case Nil
    then show ?thesis by (simp only: Nil dropWhile.simps rev.simps)
  next
    case (Cons a as)
    let ?d = "dropWhile P xs"
    have "?d \<noteq> []" using Cons by (metis dropWhile.simps(1) list.distinct(1) rev.simps(1))
    have "suffix (dropWhile P (rev ?d)) (rev ?d)" by (rule suffix_dropWhile)
    then have "prefix (rev (dropWhile P (rev ?d))) ?d" by (simp add: suffix_to_prefix)
    then have "a = hd ?d" using Cons by (auto simp: prefix_def)
    then have "\<not> P a" using \<open>?d \<noteq> []\<close> hd_dropWhile by metis
    then show ?thesis by (simp only: Cons dropWhile.simps if_False)
  qed
  show ?thesis unfolding trim_chars_def
    by (simp only: * rev_rev_ident dropWhile_idem)
qed

subsection \<open>ASCII case, splitting, numbers\<close>

definition ascii_lower :: "char \<Rightarrow> char" where
  [rust_simps]: "ascii_lower c = (let b = of_char c :: nat in if 65 \<le> b \<and> b \<le> 90 then char_of (b + 32) else c)"

definition to_ascii_lowercase :: "string \<Rightarrow> string" where
  [rust_simps]: "to_ascii_lowercase s = map ascii_lower s"

definition ascii_upper :: "char \<Rightarrow> char" where
  [rust_simps]: "ascii_upper c = (let b = of_char c :: nat in if 97 \<le> b \<and> b \<le> 122 then char_of (b - 32) else c)"

definition to_ascii_uppercase :: "string \<Rightarrow> string" where
  [rust_simps]: "to_ascii_uppercase s = map ascii_upper s"

definition eq_ignore_ascii_case :: "string \<Rightarrow> string \<Rightarrow> bool" where
  [rust_simps]: "eq_ignore_ascii_case a b \<longleftrightarrow> to_ascii_lowercase a = to_ascii_lowercase b"

text \<open>\<^verbatim>\<open>split(c)\<close>, \<^verbatim>\<open>split_once(c)\<close> and \<^verbatim>\<open>rsplit_once(c)\<close> for an ASCII separator.\<close>

fun split_on :: "char \<Rightarrow> string \<Rightarrow> string list" where
  "split_on d [] = [[]]"
| "split_on d (c # s) =
     (if c = d then [] # split_on d s
      else case split_on d s of [] \<Rightarrow> [[c]] | p # ps \<Rightarrow> (c # p) # ps)"

fun split_once :: "char \<Rightarrow> string \<Rightarrow> (string \<times> string) option" where
  "split_once d [] = None"
| "split_once d (c # s) =
     (if c = d then Some ([], s) else map_option (\<lambda>(a, b). (c # a, b)) (split_once d s))"

definition rsplit_once :: "char \<Rightarrow> string \<Rightarrow> (string \<times> string) option" where
  [rust_simps]: "rsplit_once d s = map_option (\<lambda>(a, b). (rev b, rev a)) (split_once d (rev s))"

lemma split_once_Some: "split_once d s = Some (a, b) \<Longrightarrow> s = a @ d # b \<and> d \<notin> set a"
  by (induction s arbitrary: a b) (auto split: if_splits)

lemma rsplit_once_Some: "rsplit_once d s = Some (a, b) \<Longrightarrow> s = a @ d # b \<and> d \<notin> set b"
proof -
  assume "rsplit_once d s = Some (a, b)"
  then have "split_once d (rev s) = Some (rev b, rev a)"
    by (auto simp: rsplit_once_def)
  from split_once_Some [OF this] have "rev s = rev b @ d # rev a" "d \<notin> set b" by auto
  then show ?thesis by (metis append.assoc append_Cons append_Nil rev.simps(2) rev_append rev_rev_ident)
qed

lemma split_once_None: "split_once d s = None \<longleftrightarrow> d \<notin> set s"
  by (induction s) auto

lemma split_once_append: "d \<notin> set a \<Longrightarrow> split_once d (a @ d # b) = Some (a, b)"
  by (induction a) auto

lemma rsplit_once_append: "d \<notin> set b \<Longrightarrow> rsplit_once d (a @ d # b) = Some (a, b)"
  using split_once_append [of d "rev b" "rev a"] by (simp add: rsplit_once_def)

definition is_digit :: "char \<Rightarrow> bool" where
  [rust_simps]: "is_digit c \<longleftrightarrow> 48 \<le> (of_char c :: nat) \<and> (of_char c :: nat) \<le> 57"

definition digit_val :: "char \<Rightarrow> nat" where
  [rust_simps]: "digit_val c = of_char c - 48"

definition digits_val :: "string \<Rightarrow> nat" where
  [rust_simps]: "digits_val s = foldl (\<lambda>n c. n * 10 + digit_val c) 0 s"

definition strip_prefix :: "string \<Rightarrow> string \<Rightarrow> string option" where
  [rust_simps]: "strip_prefix p s = (if take (length p) s = p then Some (drop (length p) s) else None)"

text \<open>\<^verbatim>\<open>str::parse\<close> for an unsigned type whose largest value is \<open>m\<close>: an optional plus sign,
  then at least one digit, and no overflow.\<close>

definition parse_unsigned :: "nat \<Rightarrow> string \<Rightarrow> nat option" where
  [rust_simps]: "parse_unsigned m s =
     (let ds = (if s \<noteq> [] \<and> hd s = CHR ''+'' then tl s else s)
      in if ds \<noteq> [] \<and> list_all is_digit ds \<and> digits_val ds \<le> m then Some (digits_val ds) else None)"

text \<open>\<^verbatim>\<open>from_str_radix(s, 16)\<close>, likewise.\<close>

definition hex_val :: "char \<Rightarrow> nat option" where
  [rust_simps]: "hex_val c =
     (let b = of_char c :: nat
      in if 48 \<le> b \<and> b \<le> 57 then Some (b - 48)
         else if 97 \<le> b \<and> b \<le> 102 then Some (b - 87)
         else if 65 \<le> b \<and> b \<le> 70 then Some (b - 55)
         else None)"

definition parse_hex :: "nat \<Rightarrow> string \<Rightarrow> nat option" where
  [rust_simps]: "parse_hex m s =
     (let ds = (if s \<noteq> [] \<and> hd s = CHR ''+'' then tl s else s);
          v = foldl (\<lambda>n c. n * 16 + unwrap_or (hex_val c) 0) 0 ds
      in if ds \<noteq> [] \<and> list_all (\<lambda>c. hex_val c \<noteq> None) ds \<and> v \<le> m then Some v else None)"

text \<open>\<^verbatim>\<open>format!("{n}")\<close> for a natural number, and \<^verbatim>\<open>format!("{n:x}")\<close>.\<close>

fun show_base :: "nat \<Rightarrow> nat \<Rightarrow> string" where
  "show_base b n =
     (if b < 2 \<or> n < b then [char_of (if n < 10 then 48 + n else 87 + n)]
      else show_base b (n div b) @ [char_of (if n mod b < 10 then 48 + n mod b else 87 + n mod b)])"

declare show_base.simps [simp del]

definition show_nat :: "nat \<Rightarrow> string" where
  "show_nat n = show_base 10 n"

definition show_hex :: "nat \<Rightarrow> string" where
  "show_hex n = show_base 16 n"

lemma show_base_inj:
  assumes "2 \<le> b" "b \<le> 16"
  shows "show_base b m = show_base b n \<Longrightarrow> m = n"
proof (induction m arbitrary: n rule: less_induct)
  case (less m)
  let ?d = "\<lambda>k. char_of (if k mod b < 10 then 48 + k mod b else 87 + k mod b) :: char"
  have bpos: "k mod b < b" for k using assms by simp
  have step: "show_base b k = (if k < b then [] else show_base b (k div b)) @ [?d k]" for k
    using assms by (subst show_base.simps) simp
  from less.prems have eqs: "?d m = ?d n"
      "(if m < b then [] else show_base b (m div b)) = (if n < b then [] else show_base b (n div b))"
    by (simp_all only: step [of m] step [of n] append1_eq_conv)
  have dig: "(of_char (?d k) :: nat) = (if k mod b < 10 then 48 + k mod b else 87 + k mod b)" for k
  proof (rule of_char_of_byte)
    have "k mod b < 16" using bpos [of k] assms(2) by linarith
    then show "(if k mod b < 10 then 48 + k mod b else 87 + k mod b) < 256" by simp
  qed
  have "m mod b = n mod b"
    using arg_cong [OF eqs(1), of "of_char :: char \<Rightarrow> nat"] by (simp only: dig split: if_splits)
  moreover have ne: "show_base b k \<noteq> []" for k by (subst step) simp
  moreover have "m div b = n div b"
  proof (cases "m < b")
    case True
    then have "n < b" using eqs(2) ne [of "n div b"] by (metis (full_types))
    then show ?thesis using True by simp
  next
    case False
    then have "\<not> n < b" using eqs(2) ne by auto
    then have "show_base b (m div b) = show_base b (n div b)" using eqs(2) False by simp
    moreover have "m div b < m" using False assms by simp
    ultimately show ?thesis using less.IH by blast
  qed
  ultimately show ?case by (metis div_mod_decomp)
qed

lemma show_nat_inj [simp]: "show_nat m = show_nat n \<longleftrightarrow> m = n"
  using show_base_inj [of 10] by (auto simp: show_nat_def)

lemma show_hex_inj [simp]: "show_hex m = show_hex n \<longleftrightarrow> m = n"
  using show_base_inj [of 16] by (auto simp: show_hex_def)

text \<open>\<^verbatim>\<open>Uuid::to_string\<close>: 32 hexadecimal digits in groups of 8, 4, 4, 4 and 12.\<close>

definition uuid_text :: "nat \<Rightarrow> string" where
  "uuid_text n =
     (let h = show_hex n; d = replicate (32 - length h) (CHR ''0'') @ h
      in take 8 d @ ''-'' @ take 4 (drop 8 d) @ ''-'' @ take 4 (drop 12 d) @ ''-'' @ take 4 (drop 16 d) @ ''-'' @ drop 20 d)"

text \<open>\<^verbatim>\<open>join(sep)\<close>.\<close>

fun join_with :: "string \<Rightarrow> string list \<Rightarrow> string" where
  "join_with sep [] = []"
| "join_with sep [x] = x"
| "join_with sep (x # xs) = x @ sep @ join_with sep xs"

end
