(* ===== verification/Json_Value.thy ===== *)
theory Json_Value
  imports Rust_Text Complex_Main
begin

text \<open>
  JSON values as \<^verbatim>\<open>serde_json::Value\<close> has them and the accessors the source uses.  An object is
  an association list (the order of its fields carries no meaning); a number is an integer or
  a float, idealised as a rational.
\<close>

datatype json =
    JNull
  | JBool bool
  | JInt int
  | JFloat rat
  | JStr string
  | JArr "json list"
  | JObj "(string \<times> json) list"

definition jget :: "string \<Rightarrow> json \<Rightarrow> json option" where
  [rust_simps]: "jget k v = (case v of JObj fs \<Rightarrow> map_of fs k | _ \<Rightarrow> None)"

definition is_null :: "json \<Rightarrow> bool" where
  [rust_simps]: "is_null v = (case v of JNull \<Rightarrow> True | _ \<Rightarrow> False)"

definition is_object :: "json \<Rightarrow> bool" where
  [rust_simps]: "is_object v = (case v of JObj _ \<Rightarrow> True | _ \<Rightarrow> False)"

definition as_str :: "json \<Rightarrow> string option" where
  [rust_simps]: "as_str v = (case v of JStr s \<Rightarrow> Some s | _ \<Rightarrow> None)"

definition as_bool :: "json \<Rightarrow> bool option" where
  [rust_simps]: "as_bool v = (case v of JBool b \<Rightarrow> Some b | _ \<Rightarrow> None)"

definition as_i64 :: "json \<Rightarrow> int option" where
  [rust_simps]: "as_i64 v =
     (case v of JInt n \<Rightarrow> if - 9223372036854775808 \<le> n \<and> n \<le> 9223372036854775807 then Some n else None
      | _ \<Rightarrow> None)"

definition as_u64 :: "json \<Rightarrow> nat option" where
  [rust_simps]: "as_u64 v =
     (case v of JInt n \<Rightarrow> if 0 \<le> n \<and> n \<le> 18446744073709551615 then Some (nat n) else None | _ \<Rightarrow> None)"

definition as_array :: "json \<Rightarrow> json list option" where
  [rust_simps]: "as_array v = (case v of JArr xs \<Rightarrow> Some xs | _ \<Rightarrow> None)"

text \<open>\<^verbatim>\<open>v.get(k).and_then(as)\<close>.\<close>

definition field :: "(json \<Rightarrow> 'a option) \<Rightarrow> string \<Rightarrow> json \<Rightarrow> 'a option" where
  [rust_simps]: "field conv k v = Option.bind (jget k v) conv"

text \<open>\<^verbatim>\<open>out[k] = x\<close> on an object.\<close>

definition jset :: "string \<Rightarrow> json \<Rightarrow> json \<Rightarrow> json" where
  [rust_simps]: "jset k x v = (case v of JObj fs \<Rightarrow> JObj (AList.update k x fs) | _ \<Rightarrow> v)"

definition jnat :: "nat \<Rightarrow> json" where
  [rust_simps]: "jnat n = JInt (int n)"

definition jopt :: "('a \<Rightarrow> json) \<Rightarrow> 'a option \<Rightarrow> json" where
  [rust_simps]: "jopt f x = (case x of None \<Rightarrow> JNull | Some y \<Rightarrow> f y)"

lemma jget_jset_same [simp]: "is_object v \<Longrightarrow> jget k (jset k x v) = Some x"
  by (cases v) (simp_all add: is_object_def jget_def jset_def)

lemma jget_jset_other [simp]: "k' \<noteq> k \<Longrightarrow> jget k' (jset k x v) = jget k' v"
  by (cases v) (simp_all add: jget_def jset_def)

lemma is_object_jset [simp]: "is_object (jset k x v) = is_object v"
  by (cases v) (simp_all add: is_object_def jset_def)

lemma is_object_JObj [simp]: "is_object (JObj fs)"
  by (simp add: is_object_def)

lemma jget_JObj [simp]: "jget k (JObj fs) = map_of fs k"
  by (simp add: jget_def)

lemma as_simps [simp]:
  "as_str (JStr s) = Some s" "as_bool (JBool b) = Some b" "as_array (JArr xs) = Some xs"
  by (simp_all add: as_str_def as_bool_def as_array_def)

end
