(* ===== verification/Net_Addr.thy ===== *)
theory Net_Addr
  imports Rust_Text
begin

text \<open>
  The part of \<^verbatim>\<open>std::net\<close> the server uses: parsing an \<^verbatim>\<open>IpAddr\<close> and its classes.  An IPv4
  address is its 32-bit value, an IPv6 address the list of its eight segments.
\<close>

datatype ip = V4 nat | V6 "nat list"

definition digit_in :: "nat \<Rightarrow> char \<Rightarrow> bool" where
  "digit_in radix c = (case hex_val c of Some d \<Rightarrow> d < radix | None \<Rightarrow> False)"

definition read_number :: "nat \<Rightarrow> nat \<Rightarrow> bool \<Rightarrow> nat \<Rightarrow> string \<Rightarrow> (nat \<times> string) option" where
  "read_number radix max_digits zero_prefix max_val s =
     (let ds = takeWhile (digit_in radix) s;
          v = foldl (\<lambda>n c. n * radix + unwrap_or (hex_val c) 0) 0 ds
      in if ds = [] \<or> length ds > max_digits \<or> (\<not> zero_prefix \<and> hd ds = CHR ''0'' \<and> length ds > 1) \<or> v > max_val
         then None else Some (v, drop (length ds) s))"

definition read_separated :: "char \<Rightarrow> nat \<Rightarrow> (string \<Rightarrow> ('a \<times> string) option) \<Rightarrow> string \<Rightarrow> ('a \<times> string) option" where
  "read_separated sep i f s =
     (if i = 0 then f s else case s of c # s' \<Rightarrow> if c = sep then f s' else None | [] \<Rightarrow> None)"

fun read_octets :: "nat \<Rightarrow> nat \<Rightarrow> nat \<Rightarrow> string \<Rightarrow> (nat \<times> string) option" where
  "read_octets 0 i acc s = Some (acc, s)"
| "read_octets (Suc n) i acc s =
     (case read_separated (CHR ''.'') i (read_number 10 3 False 255) s of
        None \<Rightarrow> None
      | Some (o1, s') \<Rightarrow> read_octets n (Suc i) (acc * 256 + o1) s')"

definition read_ipv4 :: "string \<Rightarrow> (nat \<times> string) option" where
  "read_ipv4 = read_octets 4 0 0"

text \<open>\<open>n\<close> groups are left to read, the next one is number \<open>i\<close>; the flag says that the groups
  ended in an embedded IPv4 address.\<close>

fun read_groups :: "nat \<Rightarrow> nat \<Rightarrow> string \<Rightarrow> nat list \<times> bool \<times> string" where
  "read_groups 0 i s = ([], False, s)"
| "read_groups (Suc n) i s =
     (case (if n > 0 then read_separated (CHR '':'') i read_ipv4 s else None) of
        Some (v4, s') \<Rightarrow> ([v4 div 65536, v4 mod 65536], True, s')
      | None \<Rightarrow>
          (case read_separated (CHR '':'') i (read_number 16 4 True 65535) s of
             None \<Rightarrow> ([], False, s)
           | Some (g, s') \<Rightarrow> (case read_groups n (Suc i) s' of (gs, v4, r) \<Rightarrow> (g # gs, v4, r))))"

definition read_ipv6 :: "string \<Rightarrow> (nat list \<times> string) option" where
  "read_ipv6 s =
     (case read_groups 8 0 s of (head, v4, s1) \<Rightarrow>
        if length head = 8 then Some (head, s1)
        else if v4 then None
        else case s1 of
          c # d # s2 \<Rightarrow>
            if c = CHR '':'' \<and> d = CHR '':'' then
              (case read_groups (7 - length head) 0 s2 of (tail, _, s3) \<Rightarrow>
                 Some (head @ replicate (8 - length head - length tail) 0 @ tail, s3))
            else None
        | _ \<Rightarrow> None)"

definition parse_ip :: "string \<Rightarrow> ip option" where
  "parse_ip s =
     (case read_ipv4 s of
        Some (v, r) \<Rightarrow> if r = [] then Some (V4 v) else None
      | None \<Rightarrow> (case read_ipv6 s of Some (g, r) \<Rightarrow> if r = [] then Some (V6 g) else None | None \<Rightarrow> None))"

definition v4_octet :: "nat \<Rightarrow> nat \<Rightarrow> nat" where
  "v4_octet i v = v div 256 ^ (3 - i) mod 256"

definition v4_private :: "nat \<Rightarrow> bool" where
  "v4_private v \<longleftrightarrow>
     v4_octet 0 v = 10 \<or> v4_octet 0 v = 172 \<and> 16 \<le> v4_octet 1 v \<and> v4_octet 1 v \<le> 31 \<or>
     v4_octet 0 v = 192 \<and> v4_octet 1 v = 168"

definition v4_loopback :: "nat \<Rightarrow> bool" where
  "v4_loopback v \<longleftrightarrow> v4_octet 0 v = 127"

definition v4_link_local :: "nat \<Rightarrow> bool" where
  "v4_link_local v \<longleftrightarrow> v4_octet 0 v = 169 \<and> v4_octet 1 v = 254"

definition v6_loopback :: "nat list \<Rightarrow> bool" where
  "v6_loopback g \<longleftrightarrow> g = [0, 0, 0, 0, 0, 0, 0, 1]"

definition to_ipv4_mapped :: "nat list \<Rightarrow> nat option" where
  "to_ipv4_mapped g =
     (if take 6 g = [0, 0, 0, 0, 0, 65535] then Some (g ! 6 * 65536 + g ! 7) else None)"

lemma read_number_le: "read_number r n z m s = Some (v, t) \<Longrightarrow> v \<le> m"
  by (auto simp: read_number_def Let_def split: if_splits)

lemma read_octets_bound:
  "read_octets n i acc s = Some (v, t) \<Longrightarrow> v < (acc + 1) * 256 ^ n"
proof (induction n i acc s rule: read_octets.induct)
  case (2 n i acc s)
  then obtain o1 s' where o: "read_separated (CHR ''.'') i (read_number 10 3 False 255) s = Some (o1, s')"
    "read_octets n (Suc i) (acc * 256 + o1) s' = Some (v, t)"
    by (auto split: option.splits)
  have "o1 \<le> 255" using o(1) read_number_le
    by (auto simp: read_separated_def split: if_splits list.splits)
  then have "acc * 256 + o1 + 1 \<le> (acc + 1) * 256" by simp
  then have "(acc * 256 + o1 + 1) * 256 ^ n \<le> (acc + 1) * 256 * 256 ^ n" by (rule mult_le_mono1)
  then have "v < (acc + 1) * 256 * 256 ^ n" using "2.IH" [OF o(1) _ o(2)] by (meson less_le_trans)
  then show ?case by (simp add: algebra_simps)
qed simp

lemma read_ipv4_bound: "read_ipv4 s = Some (v, t) \<Longrightarrow> v < 4294967296"
  using read_octets_bound [of 4 0 0] by (simp add: read_ipv4_def)

end
