(* ===== verification/Lobby.thy ===== *)
theory Lobby
  imports Json_Value Net_Addr
begin

text \<open>
  One WebSocket lobby (\<^verbatim>\<open>src/ws_lobby.rs\<close>): its seats, the normalisation of what clients send
  about themselves, and the choice of transport at start.  Instants are whole nanoseconds.
  The length of a serialised JSON value is the parameter \<open>json_len\<close>.
\<close>

type_synonym ns = int

subsection \<open>Seats\<close>

definition SPECTATOR_SLOT_BASE :: nat where
  [rust_simps]: "SPECTATOR_SLOT_BASE = 64"

definition is_spectator_seat :: "nat \<Rightarrow> bool" where
  [rust_simps]: "is_spectator_seat seat \<longleftrightarrow> seat \<ge> SPECTATOR_SLOT_BASE"

definition spectator_seat :: "nat \<Rightarrow> nat" where
  [rust_simps]: "spectator_seat i = SPECTATOR_SLOT_BASE + i"

record Slot =
  sl_player :: string
  sl_display :: string
  sl_ready :: bool
  sl_bios :: "json option"
  sl_mod :: "json option"
  sl_memcard :: "json option"
  sl_country :: string
  sl_ice_path :: "string option"
  sl_ice_path_at :: "ns option"

record Lobby =
  lb_id :: string
  lb_name :: string
  lb_game :: string
  lb_version :: string
  lb_disc_fp :: string
  lb_host :: string
  lb_host_bind :: string
  lb_host_endpoint :: string
  lb_lan_endpoints :: "string list"
  lb_guest_endpoint :: string
  lb_password_hash :: "string option"
  lb_password_salt :: "string option"
  lb_max_slots :: nat
  lb_session_id :: nat
  lb_slots :: "Slot option list"
  lb_allow_spectators :: bool
  lb_spectators :: "Slot option list"
  lb_match_caps :: "json option"
  lb_relay_host :: string
  lb_started :: bool
  lb_automatch :: bool

definition relay_host :: "Lobby \<Rightarrow> string" where
  "relay_host l = (if lb_relay_host l = [] then lb_host l else lb_relay_host l)"

text \<open>\<^verbatim>\<open>seat\<close>: \<open>None\<close> for a seat the lobby does not have, the occupant otherwise;
  \<open>set_seat\<close> is an assignment through \<^verbatim>\<open>seat_mut\<close>.\<close>

definition seat :: "Lobby \<Rightarrow> nat \<Rightarrow> Slot option option" where
  "seat l n =
     (if is_spectator_seat n then
        (let i = n - SPECTATOR_SLOT_BASE in if i < length (lb_spectators l) then Some (lb_spectators l ! i) else None)
      else if n < length (lb_slots l) then Some (lb_slots l ! n) else None)"

definition set_seat :: "nat \<Rightarrow> Slot option \<Rightarrow> Lobby \<Rightarrow> Lobby" where
  "set_seat n x l =
     (if is_spectator_seat n then l\<lparr> lb_spectators := (lb_spectators l)[n - SPECTATOR_SLOT_BASE := x] \<rparr>
      else l\<lparr> lb_slots := (lb_slots l)[n := x] \<rparr>)"

fun somes :: "'a option list \<Rightarrow> 'a list" where
  "somes [] = []"
| "somes (None # xs) = somes xs"
| "somes (Some x # xs) = x # somes xs"

definition everyone :: "Lobby \<Rightarrow> Slot list" where
  "everyone l = somes (lb_slots l) @ somes (lb_spectators l)"

definition map_everyone :: "(Slot \<Rightarrow> Slot) \<Rightarrow> Lobby \<Rightarrow> Lobby" where
  "map_everyone f l = l\<lparr> lb_slots := map (map_option f) (lb_slots l), lb_spectators := map (map_option f) (lb_spectators l) \<rparr>"

definition member_ids :: "Lobby \<Rightarrow> string list" where
  "member_ids l = map sl_player (everyone l)"

definition occupied_by :: "string \<Rightarrow> Slot option \<Rightarrow> bool" where
  "occupied_by p s = (case s of Some x \<Rightarrow> sl_player x = p | None \<Rightarrow> False)"

definition seat_of :: "Lobby \<Rightarrow> string \<Rightarrow> nat option" where
  "seat_of l p =
     (case position (occupied_by p) (lb_slots l) of
        Some i \<Rightarrow> Some i
      | None \<Rightarrow> map_option spectator_seat (position (occupied_by p) (lb_spectators l)))"

definition spectator_count :: "Lobby \<Rightarrow> nat" where
  "spectator_count l = length (filter (\<lambda>s. s \<noteq> None) (lb_spectators l))"

definition player_count :: "Lobby \<Rightarrow> nat" where
  "player_count l = length (filter (\<lambda>s. s \<noteq> None) (lb_slots l))"

definition slot_of_player :: "Lobby \<Rightarrow> string \<Rightarrow> Slot option" where
  "slot_of_player l p = List.find (\<lambda>s. sl_player s = p) (everyone l)"

lemma somes_append [simp]: "somes (xs @ ys) = somes xs @ somes ys"
  by (induction xs rule: somes.induct) auto

lemma in_somes [simp]: "x \<in> set (somes xs) \<longleftrightarrow> Some x \<in> set xs"
  by (induction xs rule: somes.induct) auto

lemma somes_map_option [simp]: "somes (map (map_option f) xs) = map f (somes xs)"
  by (induction xs rule: somes.induct) auto

lemma length_somes: "length (somes xs) = length (filter (\<lambda>s. s \<noteq> None) xs)"
  by (induction xs rule: somes.induct) auto

lemma somes_update_None: "i < length xs \<Longrightarrow> mset (somes (xs[i := None])) \<subseteq># mset (somes xs)"
proof (induction xs arbitrary: i rule: somes.induct)
  case (2 xs)
  then show ?case by (cases i) auto
next
  case (3 x xs)
  then show ?case by (cases i) (auto intro: subset_mset.add_increasing)
qed simp

lemma somes_update_Some:
  "i < length xs \<Longrightarrow> xs ! i = None \<Longrightarrow> mset (somes (xs[i := Some y])) = add_mset y (mset (somes xs))"
proof (induction xs arbitrary: i rule: somes.induct)
  case (2 xs)
  then show ?case by (cases i) auto
next
  case (3 x xs)
  then show ?case by (cases i) (auto simp: add_mset_commute)
qed simp

lemma somes_replace:
  "i < length xs \<Longrightarrow> xs ! i = Some x \<Longrightarrow> mset (somes xs) = add_mset x (mset (somes (xs[i := None])))"
proof (induction xs arbitrary: i rule: somes.induct)
  case (2 xs)
  then show ?case by (cases i) auto
next
  case (3 y xs)
  then show ?case by (cases i) (auto simp: add_mset_commute)
qed simp

lemma player_count_eq: "player_count l = length (somes (lb_slots l))"
  by (simp add: player_count_def length_somes)

lemma everyone_map_everyone [simp]: "everyone (map_everyone f l) = map f (everyone l)"
  by (simp add: everyone_def map_everyone_def)

lemma member_ids_map_everyone [simp]: "(\<And>s. sl_player (f s) = sl_player s) \<Longrightarrow> member_ids (map_everyone f l) = member_ids l"
  by (simp add: member_ids_def)

lemma in_everyone: "s \<in> set (everyone l) \<longleftrightarrow> Some s \<in> set (lb_slots l) \<or> Some s \<in> set (lb_spectators l)"
  by (simp add: everyone_def)

lemma seat_of_None: "seat_of l p = None \<longleftrightarrow> p \<notin> set (member_ids l)"
proof -
  have "position (occupied_by p) xs = None \<longleftrightarrow> p \<notin> sl_player ` set (somes xs)" for xs
    unfolding position_None by (force simp: occupied_by_def image_iff split: option.splits)
  note this [of "lb_slots l"] this [of "lb_spectators l"]
  then show ?thesis
    by (cases "position (occupied_by p) (lb_slots l)") (simp_all add: seat_of_def member_ids_def everyone_def image_Un)
qed

lemma position_occupied:
  "position (occupied_by p) xs = Some i \<Longrightarrow> i < length xs \<and> (\<exists>s. xs ! i = Some s \<and> sl_player s = p)"
  using position_Some [of "occupied_by p" xs i] by (auto simp: occupied_by_def split: option.splits)

text \<open>\<open>seat_of\<close> names a seat of the lobby and its occupant, as long as there are at most 64
  players' seats, so that the two tables do not overlap.\<close>

lemma seat_of_Some:
  assumes "seat_of l p = Some n" "length (lb_slots l) \<le> SPECTATOR_SLOT_BASE"
  shows "\<exists>s. seat l n = Some (Some s) \<and> sl_player s = p"
proof (cases "position (occupied_by p) (lb_slots l)")
  case (Some i)
  then have "n = i" using assms(1) by (simp add: seat_of_def)
  then show ?thesis using position_occupied [OF Some] assms(2)
    by (auto simp: seat_def is_spectator_seat_def)
next
  case None
  then obtain i where i: "position (occupied_by p) (lb_spectators l) = Some i" "n = spectator_seat i"
    using assms(1) by (auto simp: seat_of_def)
  then show ?thesis using position_occupied [OF i(1)]
    by (auto simp: seat_def is_spectator_seat_def spectator_seat_def)
qed


subsection \<open>What clients say about themselves\<close>

definition clear_ice_paths :: "Lobby \<Rightarrow> Lobby" where
  "clear_ice_paths = map_everyone (\<lambda>s. s\<lparr> sl_ice_path := None, sl_ice_path_at := None \<rparr>)"

definition clear_ready :: "Lobby \<Rightarrow> Lobby" where
  "clear_ready = map_everyone (\<lambda>s. s\<lparr> sl_ready := False \<rparr>)"

text \<open>The four sanitizers of JSON offers: an object that serialises to at most \<open>m\<close> bytes.\<close>

definition sanitize_offer :: "(json \<Rightarrow> nat) \<Rightarrow> nat \<Rightarrow> json option \<Rightarrow> json option" where
  "sanitize_offer json_len m v = filter_option (\<lambda>v. is_object v \<and> json_len v \<le> m) v"

definition sanitize_match_caps :: "(json \<Rightarrow> nat) \<Rightarrow> json option \<Rightarrow> json option" where
  "sanitize_match_caps json_len caps =
     (case caps of
        None \<Rightarrow> None
      | Some v \<Rightarrow>
          if \<not> is_object v then None
          else let w = jset ''relay_via'' (JStr ''ice'') (jset ''relay'' (JStr ''host'') v)
               in if json_len w > 4096 then None else Some w)"

definition sanitize_bios_offer :: "(json \<Rightarrow> nat) \<Rightarrow> json option \<Rightarrow> json option" where
  "sanitize_bios_offer json_len = sanitize_offer json_len 512"

definition sanitize_memcard_offer :: "(json \<Rightarrow> nat) \<Rightarrow> json option \<Rightarrow> json option" where
  "sanitize_memcard_offer json_len = sanitize_offer json_len 256"

definition sanitize_mod_offer :: "(json \<Rightarrow> nat) \<Rightarrow> json option \<Rightarrow> json option" where
  "sanitize_mod_offer json_len = sanitize_offer json_len 2048"

definition PASSWORD_MAX_BYTES :: nat where "PASSWORD_MAX_BYTES = 128"

definition password_is_invalid :: "string \<Rightarrow> bool" where
  "password_is_invalid pw \<longleftrightarrow> length pw > PASSWORD_MAX_BYTES \<or> list_ex is_control (chars pw)"

definition is_ascii_hexdigit :: "char \<Rightarrow> bool" where
  "is_ascii_hexdigit c \<longleftrightarrow> hex_val c \<noteq> None"

definition normalize_disc_fp :: "string option \<Rightarrow> string" where
  "normalize_disc_fp v =
     (case v of None \<Rightarrow> []
      | Some raw \<Rightarrow>
          let s = to_ascii_lowercase (trim raw)
          in if length s \<noteq> 64 \<or> \<not> list_all is_ascii_hexdigit s then [] else s)"

definition disc_fp_mismatch :: "string \<Rightarrow> string \<Rightarrow> bool" where
  "disc_fp_mismatch lobby_fp join_fp \<longleftrightarrow> (if lobby_fp = [] \<and> join_fp = [] then False else lobby_fp \<noteq> join_fp)"

definition normalize_game_version :: "string option \<Rightarrow> string" where
  "normalize_game_version v = (case filter_option (\<lambda>s. trim s \<noteq> []) v of Some s \<Rightarrow> trim s | None \<Rightarrow> ''dev'')"

subsection \<open>Endpoints\<close>

definition wildcard_host :: "string \<Rightarrow> bool" where
  "wildcard_host h \<longleftrightarrow> h = [] \<or> h = ''0.0.0.0'' \<or> h = ''*'' \<or> h = ''::''"

definition rewrite_endpoint :: "string \<Rightarrow> string \<Rightarrow> string" where
  "rewrite_endpoint bind peer_ip =
     (case rsplit_once (CHR '':'') bind of
        None \<Rightarrow> bind
      | Some (host, port) \<Rightarrow>
          (if wildcard_host host then (if peer_ip = [] then ''127.0.0.1'' else peer_ip) else host) @ '':'' @ port)"

definition trim_start_of :: "char \<Rightarrow> string \<Rightarrow> string" where
  "trim_start_of c s = dropWhile (\<lambda>x. x = c) s"

definition trim_end_of :: "char \<Rightarrow> string \<Rightarrow> string" where
  "trim_end_of c s = rev (dropWhile (\<lambda>x. x = c) (rev s))"

definition peer_is_local :: "ip \<Rightarrow> bool" where
  "peer_is_local a = (case a of V4 v \<Rightarrow> v4_loopback v \<or> v4_private v \<or> v4_link_local v | V6 g \<Rightarrow> v6_loopback g)"

definition unmap_ip :: "ip \<Rightarrow> ip" where
  "unmap_ip a = (case a of V4 v \<Rightarrow> V4 v | V6 g \<Rightarrow> (case to_ipv4_mapped g of Some m \<Rightarrow> V4 m | None \<Rightarrow> V6 g))"

definition endpoint_is_clients_own :: "string \<Rightarrow> string \<Rightarrow> bool" where
  "endpoint_is_clients_own endpoint peer_ip =
     (case rsplit_once (CHR '':'') endpoint of
        None \<Rightarrow> False
      | Some (host, port) \<Rightarrow>
          (case parse_ip (trim_end_of (CHR '']'') (trim_start_of (CHR ''['') host)) of
             None \<Rightarrow> False
           | Some ep \<Rightarrow>
               let peer = trim peer_ip;
                   peer1 = unwrap_or (strip_prefix ''::ffff:'' peer) peer
               in (case parse_ip peer1 of
                     None \<Rightarrow> False
                   | Some pa \<Rightarrow> if peer_is_local pa then True else unmap_ip ep = pa)))"

definition own_endpoint :: "string \<Rightarrow> string \<Rightarrow> string" where
  "own_endpoint bind peer_ip =
     (let ep = rewrite_endpoint bind peer_ip
      in if endpoint_is_clients_own ep peer_ip then ep
         else let port = (case rsplit_once (CHR '':'') bind of Some (_, p) \<Rightarrow> p | None \<Rightarrow> ''0'')
              in rewrite_endpoint (''0.0.0.0:'' @ port) peer_ip)"

definition bad_host_char :: "char \<Rightarrow> bool" where
  "bad_host_char c \<longleftrightarrow> (of_char c :: nat) \<in> {32, 34, 39, 123, 125, 92}"

definition parse_advertise_endpoint :: "string \<Rightarrow> string option" where
  "parse_advertise_endpoint raw =
     (let ep = trim raw
      in if ep = [] \<or> length ep > 64 then None
         else case rsplit_once (CHR '':'') ep of
           None \<Rightarrow> None
         | Some (host, port_s) \<Rightarrow>
             if wildcard_host host \<or> list_ex bad_host_char host then None
             else (case parse_unsigned 65535 port_s of
                     None \<Rightarrow> None
                   | Some port \<Rightarrow> if port = 0 then None else Some (host @ '':'' @ show_nat port)))"

definition is_rfc1918_host :: "string \<Rightarrow> bool" where
  "is_rfc1918_host host =
     (case map (parse_unsigned 255) (split_on (CHR ''.'') host) of
        [Some a, Some b, Some c, Some d] \<Rightarrow>
          a = 10 \<or> a = 172 \<and> 16 \<le> b \<and> b \<le> 31 \<or> a = 192 \<and> b = 168
      | _ \<Rightarrow> False)"

fun lan_loop :: "string list \<Rightarrow> string list \<Rightarrow> string list" where
  "lan_loop out [] = out"
| "lan_loop out (item # items) =
     (case parse_advertise_endpoint item of
        None \<Rightarrow> lan_loop out items
      | Some ep \<Rightarrow>
          let host = (case rsplit_once (CHR '':'') ep of Some (h, _) \<Rightarrow> h | None \<Rightarrow> [])
          in if take 4 host = ''127.'' \<or> host = ''localhost'' \<or> \<not> is_rfc1918_host host then lan_loop out items
             else if ep \<in> set out then lan_loop out items
             else if length (out @ [ep]) \<ge> 4 then out @ [ep]
             else lan_loop (out @ [ep]) items)"

definition sanitize_lan_endpoints :: "string list option \<Rightarrow> string list" where
  "sanitize_lan_endpoints raw = (case raw of None \<Rightarrow> [] | Some items \<Rightarrow> lan_loop [] items)"

definition normalize_ice_path :: "string \<Rightarrow> string option" where
  "normalize_ice_path raw =
     (let s = to_ascii_lowercase (trim raw)
      in if s \<in> set [''direct'', ''host'', ''srflx'', ''prflx''] then Some ''direct''
         else if s = ''relay'' then Some ''relay''
         else if s \<in> set [''fail'', ''failed'', ''none''] then Some ''fail''
         else None)"

subsection \<open>Transport at start\<close>

definition HOST_RELAY_PATH_FRESH :: ns where
  "HOST_RELAY_PATH_FRESH = 120000000000"

definition caps_relay_via_ice :: "json option \<Rightarrow> bool" where
  "caps_relay_via_ice caps =
     (case caps of None \<Rightarrow> False
      | Some c \<Rightarrow> field as_str ''relay'' c = Some ''host'' \<and> field as_str ''relay_via'' c = Some ''ice'')"

definition path_fresh :: "ns \<Rightarrow> Slot \<Rightarrow> bool" where
  "path_fresh now s = (case sl_ice_path_at s of None \<Rightarrow> False | Some t \<Rightarrow> now - t \<le> HOST_RELAY_PATH_FRESH)"

definition host_relay_decision :: "ns \<Rightarrow> Lobby \<Rightarrow> json option \<Rightarrow> string + string" where
  "host_relay_decision now l caps =
     (if Option.bind caps (field as_str ''relay'') \<noteq> Some ''host'' then Inl ''no_host_relay_ask''
      else if lb_host_endpoint l = [] \<and> \<not> caps_relay_via_ice caps then Inl ''host_relay_no_endpoint''
      else if spectator_count l > 0 then Inl ''host_relay_spectators''
      else if caps_relay_via_ice caps \<and> player_count l > 2 then Inr ''host_relay''
      else if list_ex (\<lambda>s. sl_player s \<noteq> relay_host l \<and>
                (sl_ice_path s \<noteq> Some ''direct'' \<or> \<not> path_fresh now s)) (somes (lb_slots l))
           then Inl ''host_relay_unproven''
      else Inr ''host_relay'')"

datatype StartTransport = HostTransport | IceTransport

definition start_transport :: "ns \<Rightarrow> Lobby \<Rightarrow> json option \<Rightarrow> bool \<Rightarrow> string + (StartTransport \<times> string)" where
  "start_transport now l caps allow_ice =
     (case host_relay_decision now l caps of
        Inr why \<Rightarrow> Inr (HostTransport, why)
      | Inl why \<Rightarrow>
          if \<not> allow_ice \<or> spectator_count l > 0 then Inl why
          else if player_count l \<noteq> 2 then Inl ''ice_needs_two_players''
          else Inr (IceTransport, why))"

subsection \<open>Names within a room\<close>

definition name_taken :: "Lobby \<Rightarrow> string option \<Rightarrow> string \<Rightarrow> bool" where
  "name_taken l skip name =
     list_ex (\<lambda>s. Some (sl_player s) \<noteq> skip \<and> sl_display s = name) (everyone l)"

definition numbered :: "string \<Rightarrow> nat \<Rightarrow> string" where
  "numbered base n = base @ '' ('' @ show_nat n @ '')''"

definition suffix_numbers :: "nat list" where
  "suffix_numbers = [2..<65]"

definition unique_display_name :: "string \<Rightarrow> Lobby \<Rightarrow> string \<Rightarrow> string option \<Rightarrow> string" where
  "unique_display_name fresh l requested skip =
     (let base = (if trim requested = [] then ''Guest'' else trim requested)
      in if \<not> name_taken l skip base then base
         else case List.find (\<lambda>n. \<not> name_taken l skip (numbered base n)) suffix_numbers of
                Some n \<Rightarrow> numbered base n
              | None \<Rightarrow> base @ '' ('' @ take 8 fresh @ '')'')"

lemma numbered_inj: "numbered base m = numbered base n \<longleftrightarrow> m = n"
  by (simp add: numbered_def)

lemma some_number_free:
  assumes "length (everyone l) < 63"
  shows "\<exists>n \<in> set suffix_numbers. \<not> name_taken l skip (numbered base n)"
proof (rule ccontr)
  assume "\<not> ?thesis"
  then have "numbered base ` set suffix_numbers \<subseteq> sl_display ` set (everyone l)"
    by (intro image_subsetI) (force simp: name_taken_def list_ex_iff)
  then have "card (numbered base ` set suffix_numbers) \<le> card (sl_display ` set (everyone l))"
    by (rule card_mono [rotated]) simp
  also have "\<dots> \<le> length (everyone l)" by (metis card_image_le card_length finite_set le_trans)
  also have "card (numbered base ` set suffix_numbers) = 63"
    by (subst card_image) (auto simp: inj_on_def numbered_inj suffix_numbers_def)
  finally show False using assms by simp
qed

lemma first_free_number:
  assumes "length (everyone l) < 63"
  obtains n where "List.find (\<lambda>n. \<not> name_taken l skip (numbered base n)) suffix_numbers = Some n"
    "\<not> name_taken l skip (numbered base n)" "2 \<le> n" "list_all (\<lambda>m. name_taken l skip (numbered base m)) [2..<n]"
proof (cases "List.find (\<lambda>n. \<not> name_taken l skip (numbered base n)) suffix_numbers")
  case None
  then show ?thesis using some_number_free [OF assms, of skip base] by (auto simp: find_None_iff)
next
  case (Some n)
  then show ?thesis using find_upt [OF Some [unfolded suffix_numbers_def]] that by simp
qed

lemma unique_name_cases:
  assumes "length (everyone l) < 63"
  shows "\<not> name_taken l skip (unique_display_name fresh l requested skip) \<and>
    (let base = (if trim requested = [] then ''Guest'' else trim requested)
     in if name_taken l skip base
        then \<exists>n. 2 \<le> n \<and> unique_display_name fresh l requested skip = numbered base n \<and>
               list_all (\<lambda>m. name_taken l skip (numbered base m)) [2..<n]
        else unique_display_name fresh l requested skip = base)"
proof -
  define base where "base = (if trim requested = [] then ''Guest'' else trim requested)"
  obtain n where n: "List.find (\<lambda>n. \<not> name_taken l skip (numbered base n)) suffix_numbers = Some n"
    "\<not> name_taken l skip (numbered base n)" "2 \<le> n" "list_all (\<lambda>m. name_taken l skip (numbered base m)) [2..<n]"
    by (rule first_free_number [OF assms, of skip base])
  have u: "unique_display_name fresh l requested skip = (if name_taken l skip base then numbered base n else base)"
    by (simp add: unique_display_name_def base_def [symmetric] n(1))
  show ?thesis
    unfolding base_def [symmetric] Let_def u
    by (cases "name_taken l skip base") (use n(2-4) in \<open>auto simp only: if_True if_False\<close>)
qed

text \<open>
  Names are unique within a room.  As long as fewer than 63 people sit in a lobby, the name
  a joiner is given is held by nobody else there, and it is the requested one (or ''Guest'')
  unless that is taken, when it is the requested one with the smallest free number.
\<close>
theorem display_names_are_unique:
  assumes "length (everyone l) < 63"
  shows "\<not> name_taken l skip (unique_display_name fresh l requested skip) \<and>
    (let base = (if trim requested = [] then ''Guest'' else trim requested)
     in if name_taken l skip base
        then \<exists>n. 2 \<le> n \<and> unique_display_name fresh l requested skip = numbered base n \<and>
               list_all (\<lambda>m. name_taken l skip (numbered base m)) [2..<n]
        else unique_display_name fresh l requested skip = base)"
  by (rule unique_name_cases [OF assms])

definition demo_seat :: "string \<Rightarrow> string \<Rightarrow> Slot" where
  "demo_seat p name = \<lparr> sl_player = p, sl_display = name, sl_ready = True, sl_bios = None, sl_mod = None,
     sl_memcard = None, sl_country = [], sl_ice_path = None, sl_ice_path_at = None \<rparr>"

definition demo_lobby :: Lobby where
  "demo_lobby = \<lparr> lb_id = ''L1'', lb_name = ''Den'', lb_game = ''Tetris'', lb_version = ''1.0'', lb_disc_fp = [],
     lb_host = ''a'', lb_host_bind = [], lb_host_endpoint = [], lb_lan_endpoints = [], lb_guest_endpoint = [],
     lb_password_hash = None, lb_password_salt = None, lb_max_slots = 2, lb_session_id = 1,
     lb_slots = [Some (demo_seat ''a'' ''Ann''), Some (demo_seat ''b'' ''Ann (2)'')], lb_allow_spectators = True,
     lb_spectators = [Some (demo_seat ''c'' ''Cat''), None, None, None], lb_match_caps = None, lb_relay_host = [],
     lb_started = False, lb_automatch = False \<rparr>"

theorem display_names_are_unique_witness:
  "\<not> name_taken demo_lobby None (unique_display_name [] demo_lobby ''Ann'' None) \<and>
    (let base = (if trim ''Ann'' = [] then ''Guest'' else trim ''Ann'')
     in if name_taken demo_lobby None base
        then \<exists>n. 2 \<le> n \<and> unique_display_name [] demo_lobby ''Ann'' None = numbered base n \<and>
               list_all (\<lambda>m. name_taken demo_lobby None (numbered base m)) [2..<n]
        else unique_display_name [] demo_lobby ''Ann'' None = base)"
  by (rule display_names_are_unique) (simp add: demo_lobby_def everyone_def)

end
