(* ===== verification/Chat_Filter.thy ===== *)
theory Chat_Filter
  imports Rust_Text
begin

text \<open>
  The chat filter (\<^verbatim>\<open>src/chat_filter.rs\<close>): folding of characters, parsing of the word list,
  matching at one position and the masking scan.  Text is a list of code points; the list in
  force (the built-in file plus the operator's) is an argument, as the process-wide
  \<^verbatim>\<open>OnceLock\<close> is.
\<close>

subsection \<open>Folding\<close>

abbreviation ch :: "char \<Rightarrow> cp" where
  "ch c \<equiv> of_char c"

definition latin1_map :: string where
  "latin1_map = ''aaaaaaaceeeeiiiidnooooo/ouuuuytsaaaaaaaceeeeiiiidnooooo/ouuuuyty''"

definition fold_latin1 :: "cp \<Rightarrow> cp" where
  "fold_latin1 c =
     (let m = latin1_map ! (c - 192)
      in if m = CHR ''/'' then c else if c = 222 \<or> c = 254 then ch (CHR ''t'') else ch m)"

definition latin_ext_base :: string where
  "latin_ext_base = ''aaaaaaccccccccddddeeeeeeeeeegggggggghhhhiiiiiiiiiijjjjkkklllllllllllnnnnnnnnnoooooooorrrrrrssssssssttttttuuuuuuuuuuuuwwyyyzzzzzzs''"

definition fold_ascii :: "cp \<Rightarrow> cp" where
  "fold_ascii u =
     (if 65 \<le> u \<and> u \<le> 90 then u + 32
      else if u = ch (CHR ''0'') then ch (CHR ''o'')
      else if u = ch (CHR ''1'') then ch (CHR ''i'')
      else if u = ch (CHR ''3'') then ch (CHR ''e'')
      else if u = ch (CHR ''4'') then ch (CHR ''a'')
      else if u = ch (CHR ''5'') then ch (CHR ''s'')
      else if u = ch (CHR ''7'') then ch (CHR ''t'')
      else if u = ch (CHR ''@'') then ch (CHR ''a'')
      else if u = ch (CHR ''$'') then ch (CHR ''s'')
      else if u = ch (CHR ''!'') then ch (CHR ''i'')
      else if u = ch (CHR ''|'') then ch (CHR ''l'')
      else if u = ch (CHR ''+'') then ch (CHR ''t'')
      else u)"

text \<open>The two \<^verbatim>\<open>match\<close> tables for Cyrillic letters outside the shifted block and for
  accented Greek.\<close>

definition cyrillic_table :: "(cp \<times> cp) list" where
  "cyrillic_table = [(0x401, 0x435), (0x451, 0x435), (0x404, 0x454), (0x406, 0x456), (0x407, 0x457),
     (0x490, 0x491)]"

definition greek_table :: "(cp \<times> cp) list" where
  "greek_table = [(0x3C2, 0x3C3), (0x3AC, 0x3B1), (0x386, 0x3B1), (0x3AD, 0x3B5), (0x388, 0x3B5),
     (0x3AE, 0x3B7), (0x389, 0x3B7), (0x3AF, 0x3B9), (0x38A, 0x3B9), (0x3CC, 0x3BF), (0x38C, 0x3BF),
     (0x3CD, 0x3C5), (0x38E, 0x3C5), (0x3CE, 0x3C9), (0x38F, 0x3C9)]"

definition fold_char :: "cp \<Rightarrow> cp" where
  "fold_char u =
     (if u < 128 then fold_ascii u
      else if 0xC0 \<le> u \<and> u \<le> 0xFF then fold_latin1 u
      else if 0x100 \<le> u \<and> u \<le> 0x17F
        then (if u - 0x100 < length latin_ext_base then ch (latin_ext_base ! (u - 0x100)) else u)
      else if 0x410 \<le> u \<and> u \<le> 0x42F then u + 0x20
      else case map_of cyrillic_table u of Some v \<Rightarrow> v | None \<Rightarrow>
        (if 0x391 \<le> u \<and> u \<le> 0x3A9 then u + 0x20
         else case map_of greek_table u of Some v \<Rightarrow> v | None \<Rightarrow>
           (if 0xFF01 \<le> u \<and> u \<le> 0xFF5E then fold_ascii (u - 0xFF01 + 0x21)
            else if u = 0x20AC then ch (CHR ''e'')
            else u)))"

definition is_letter :: "cp \<Rightarrow> bool" where
  "is_letter u =
     (if u < 128 then 97 \<le> u \<and> u \<le> 122
      else if 0x2000 \<le> u \<and> u \<le> 0x206F \<or> 0x3000 \<le> u \<and> u \<le> 0x303F \<or> 0xFF00 \<le> u \<and> u \<le> 0xFF0F then False
      else \<not> (u = 0xA0 \<or> u = 0xB7 \<or> u = 0xBF \<or> u = 0xA1))"

definition is_separator :: "cp \<Rightarrow> bool" where
  "is_separator c \<longleftrightarrow>
     c = ch (CHR '' '') \<or> c = ch (CHR ''.'') \<or> c = ch (CHR ''-'') \<or> c = ch (CHR ''_'') \<or> c = ch (CHR ''*'') \<or>
     c = 39 \<or> c = ch (CHR '','') \<or> c = 0x2019 \<or> c = 0xA0"

subsection \<open>The word list\<close>

record Word =
  w_cp :: "cp list"
  anywhere :: bool

record ChatFilter =
  words :: "Word list"
  enabled :: bool

text \<open>\<^verbatim>\<open>str::lines\<close>: split at line feeds, without the empty piece after a final line feed.\<close>

definition text_lines :: "string \<Rightarrow> string list" where
  "text_lines s = (let ps = split_on (char_of (10::nat)) s in if last ps = [] then butlast ps else ps)"

definition trim_end_cr :: "string \<Rightarrow> string" where
  "trim_end_cr s = rev (dropWhile (\<lambda>c. c = char_of (13::nat)) (rev s))"

definition parse_line :: "string \<Rightarrow> Word option" where
  "parse_line raw =
     (let line = trim_end_cr raw
      in if line = [] \<or> hd line = CHR ''#'' then None
         else
           let any = (hd line = CHR ''~'');
               body = (if any then tl line else line);
               cp = map fold_char (filter (\<lambda>c. c \<noteq> ch (CHR '' '')) (chars body))
           in if cp = [] then None else Some \<lparr> w_cp = cp, anywhere = any \<rparr>)"

definition parse :: "string \<Rightarrow> bool \<Rightarrow> ChatFilter" where
  "parse list en = \<lparr> words = List.map_filter parse_line (text_lines list), enabled = en \<rparr>"

subsection \<open>Matching\<close>

text \<open>\<^verbatim>\<open>while p < n && P(t[p]) { p += 1 }\<close>.\<close>

definition skip_while :: "(cp \<Rightarrow> bool) \<Rightarrow> cp list \<Rightarrow> nat \<Rightarrow> nat" where
  "skip_while P t p = p + length (takeWhile P (drop p t))"

text \<open>The loop over the letters of the word; \<open>first\<close> says that \<open>j = 0\<close>.\<close>

fun match_letters :: "cp list \<Rightarrow> bool \<Rightarrow> bool \<Rightarrow> cp list \<Rightarrow> nat \<Rightarrow> nat option" where
  "match_letters t allow_sep first [] p = Some p"
| "match_letters t allow_sep first (want # rest) p =
     (let p1 = (if \<not> first \<and> allow_sep then skip_while is_separator t p else p)
      in if p1 \<ge> length t \<or> t ! p1 \<noteq> want then None
         else match_letters t allow_sep False rest
                (if rest = [] \<or> hd rest \<noteq> want then skip_while (\<lambda>c. c = want) t (Suc p1) else Suc p1))"

definition match_at :: "cp list \<Rightarrow> cp list \<Rightarrow> nat \<Rightarrow> Word \<Rightarrow> nat" where
  "match_at t orig at w =
     (if \<not> anywhere w \<and> at > 0 \<and> is_letter (orig ! (at - 1)) then 0
      else case match_letters t (length (w_cp w) \<ge> 4) True (w_cp w) at of
             None \<Rightarrow> 0
           | Some p \<Rightarrow> if \<not> anywhere w \<and> p < length t \<and> is_letter (orig ! p) then 0 else p)"

text \<open>The longest match among the words whose first letter is the one at \<open>i\<close>.\<close>

definition improve :: "cp list \<Rightarrow> cp list \<Rightarrow> nat \<Rightarrow> nat \<Rightarrow> Word \<Rightarrow> nat" where
  "improve folded orig i best w =
     (if hd (w_cp w) \<noteq> folded ! i then best
      else let e = match_at folded orig i w in if e > best then e else best)"

definition best_end :: "Word list \<Rightarrow> cp list \<Rightarrow> cp list \<Rightarrow> nat \<Rightarrow> nat" where
  "best_end ws folded orig i = foldl (improve folded orig i) 0 ws"

definition star :: cp where
  "star = ch (CHR ''*'')"

definition star_out :: "nat \<Rightarrow> nat \<Rightarrow> cp list \<Rightarrow> cp list" where
  "star_out i e cs = take i cs @ replicate (min e (length cs) - i) star @ drop e cs"

lemma skip_while_ge: "p \<le> skip_while P t p"
  by (simp add: skip_while_def)

lemma skip_while_le: "p \<le> length t \<Longrightarrow> skip_while P t p \<le> length t"
  using length_takeWhile_le [of P "drop p t"] by (simp add: skip_while_def)

lemma match_letters_bounds:
  "match_letters t sep first cs p = Some q \<Longrightarrow> p \<le> length t \<Longrightarrow>
   p \<le> q \<and> q \<le> length t \<and> (cs \<noteq> [] \<longrightarrow> p < q)"
proof (induction cs arbitrary: p first)
  case Nil
  then show ?case by simp
next
  case (Cons c cs)
  define p1 where "p1 = (if \<not> first \<and> sep then skip_while is_separator t p else p)"
  define p2 where "p2 = (if cs = [] \<or> hd cs \<noteq> c then skip_while (\<lambda>x. x = c) t (Suc p1) else Suc p1)"
  from Cons.prems(1) have p1: "p1 < length t" and rec: "match_letters t sep False cs p2 = Some q"
    by (auto simp: Let_def p1_def p2_def split: if_splits)
  have "p \<le> p1" using skip_while_ge by (simp add: p1_def)
  moreover have "Suc p1 \<le> p2" "p2 \<le> length t"
    using p1 skip_while_ge skip_while_le [of "Suc p1" t] by (simp_all add: p2_def)
  moreover have "p2 \<le> q" "q \<le> length t" using Cons.IH [OF rec] \<open>p2 \<le> length t\<close> by auto
  ultimately show ?case by linarith
qed

lemma match_at_cases:
  "match_at t orig at w = 0 \<or>
   match_letters t (length (w_cp w) \<ge> 4) True (w_cp w) at = Some (match_at t orig at w)"
  by (simp add: match_at_def split: option.split)

lemma match_at_bounds:
  assumes "w_cp w \<noteq> []" "at < length t" "match_at t orig at w \<noteq> 0"
  shows "at < match_at t orig at w \<and> match_at t orig at w \<le> length t"
proof -
  have "match_letters t (length (w_cp w) \<ge> 4) True (w_cp w) at = Some (match_at t orig at w)"
    using match_at_cases [of t orig at w] assms(3) by simp
  from match_letters_bounds [OF this] show ?thesis using assms by simp
qed

lemma match_at_empty: "w_cp w = [] \<Longrightarrow> match_at t orig at w \<le> at"
  by (simp add: match_at_def)

lemma improve_eq:
  "improve folded orig i best w =
     (if hd (w_cp w) = folded ! i \<and> match_at folded orig i w > best then match_at folded orig i w else best)"
  by (simp add: improve_def Let_def)

lemma foldl_improve_cases:
  "foldl (improve folded orig i) b ws = b \<or>
   (\<exists>w \<in> set ws. hd (w_cp w) = folded ! i \<and> foldl (improve folded orig i) b ws = match_at folded orig i w)"
proof (induction ws arbitrary: b)
  case Nil
  then show ?case by simp
next
  case (Cons w ws)
  show ?case using Cons [of "improve folded orig i b w"]
    by (cases "improve folded orig i b w = b") (auto simp: improve_eq split: if_splits)
qed

lemma foldl_improve_ge:
  "b \<le> foldl (improve folded orig i) b ws \<and>
   (\<forall>w \<in> set ws. hd (w_cp w) = folded ! i \<longrightarrow> match_at folded orig i w \<le> foldl (improve folded orig i) b ws)"
proof (induction ws arbitrary: b)
  case Nil
  then show ?case by simp
next
  case (Cons w ws)
  have "b \<le> improve folded orig i b w"
    "hd (w_cp w) = folded ! i \<Longrightarrow> match_at folded orig i w \<le> improve folded orig i b w"
    by (auto simp: improve_eq)
  with Cons [of "improve folded orig i b w"] show ?case by (auto intro: order_trans)
qed

lemma best_end_cases:
  "best_end ws folded orig i = 0 \<or>
   (\<exists>w \<in> set ws. hd (w_cp w) = folded ! i \<and> best_end ws folded orig i = match_at folded orig i w)"
  unfolding best_end_def by (rule foldl_improve_cases)

lemma best_end_ge:
  "w \<in> set ws \<Longrightarrow> hd (w_cp w) = folded ! i \<Longrightarrow> match_at folded orig i w \<le> best_end ws folded orig i"
  unfolding best_end_def using foldl_improve_ge by blast

lemma best_end_bounds:
  assumes "i < length folded" "best_end ws folded orig i > i"
  shows "best_end ws folded orig i \<le> length folded"
proof -
  obtain w where w: "best_end ws folded orig i = match_at folded orig i w"
    using best_end_cases [of ws folded orig i] assms(2) by auto
  have "w_cp w \<noteq> []" using match_at_empty [of w folded orig i] w assms(2) by auto
  then show ?thesis using match_at_bounds [of w i folded orig] w assms by auto
qed

text \<open>
  The scan of \<^verbatim>\<open>ChatFilter::mask\<close>: it returns the characters and the number of hits.  A match
  ends after the position it starts at (the words are not empty), so the loop stops; for an
  empty word the source would panic at \<^verbatim>\<open>w.cp[0]\<close>, and the parser never produces one.
\<close>

function scan :: "Word list \<Rightarrow> cp list \<Rightarrow> cp list \<Rightarrow> nat \<Rightarrow> nat \<Rightarrow> cp list \<times> nat" where
  "scan ws folded orig i hits =
     (if i \<ge> length folded then (orig, hits)
      else if \<not> is_letter (folded ! i) then scan ws folded orig (Suc i) hits
      else let e = best_end ws folded orig i
           in if e > i then scan ws folded (star_out i e orig) e (Suc hits)
              else scan ws folded orig (Suc i) hits)"
  by pat_completeness auto
termination
  by (relation "measure (\<lambda>(ws, folded, orig, i, hits). length folded - i)") auto

declare scan.simps [simp del]

definition mask_chars :: "ChatFilter \<Rightarrow> cp list \<Rightarrow> cp list \<times> nat" where
  "mask_chars f cs = scan (words f) (map fold_char cs) cs 0 0"

definition mask :: "ChatFilter \<Rightarrow> string \<Rightarrow> string" where
  "mask f text =
     (if \<not> enabled f \<or> words f = [] then text
      else case mask_chars f (chars text) of (out, hits) \<Rightarrow> if hits = 0 then text else of_chars out)"

definition well_formed_filter :: "ChatFilter \<Rightarrow> bool" where
  "well_formed_filter f \<longleftrightarrow> (\<forall>w \<in> set (words f). w_cp w \<noteq> [])"

lemma parse_line_nonempty: "parse_line l = Some w \<Longrightarrow> w_cp w \<noteq> []"
  by (auto simp: parse_line_def Let_def split: if_splits)

lemma parse_well_formed: "well_formed_filter (parse l en)"
  by (auto simp: well_formed_filter_def parse_def List.map_filter_def parse_line_nonempty)

subsection \<open>What the scan does\<close>

lemma fst_star_out: "length (star_out i e cs) = length cs" if "i \<le> e" "e \<le> length cs"
  using that by (simp add: star_out_def)

lemma nth_star_out:
  assumes "i \<le> e" "e \<le> length cs" "k < length cs"
  shows "star_out i e cs ! k = (if i \<le> k \<and> k < e then star else cs ! k)"
  using assms by (auto simp: star_out_def nth_append min_def)

text \<open>A match of a listed word in the folded text, the boundaries apart.\<close>

definition occurs :: "Word list \<Rightarrow> cp list \<Rightarrow> nat \<Rightarrow> nat \<Rightarrow> bool" where
  "occurs ws t i e \<longleftrightarrow>
     (\<exists>w \<in> set ws. i < e \<and> e \<le> length t \<and> match_letters t (length (w_cp w) \<ge> 4) True (w_cp w) i = Some e)"

lemma best_end_occurs:
  assumes "i < length folded" "best_end ws folded orig i > i"
  shows "occurs ws folded i (best_end ws folded orig i)"
proof -
  obtain w where w: "w \<in> set ws" "best_end ws folded orig i = match_at folded orig i w"
    using best_end_cases [of ws folded orig i] assms(2) by auto
  have "match_letters folded (length (w_cp w) \<ge> 4) True (w_cp w) i = Some (match_at folded orig i w)"
    using match_at_cases [of folded orig i w] w assms(2) by auto
  then show ?thesis using w assms(2) best_end_bounds [OF assms] by (auto simp: occurs_def)
qed

text \<open>For a parsed list the source's test \<^verbatim>\<open>best_end > 0\<close> is the test \<open>best_end > i\<close> of the
  model.\<close>

lemma best_end_positive_iff:
  assumes "\<forall>w \<in> set ws. w_cp w \<noteq> []" "i < length folded"
  shows "best_end ws folded orig i > 0 \<longleftrightarrow> best_end ws folded orig i > i"
proof
  assume pos: "best_end ws folded orig i > 0"
  then obtain w where w: "w \<in> set ws" "best_end ws folded orig i = match_at folded orig i w"
    using best_end_cases [of ws folded orig i] by auto
  then show "best_end ws folded orig i > i"
    using match_at_bounds [of w i folded orig] assms pos by auto
qed simp

lemma scan_done: "i \<ge> length folded \<Longrightarrow> scan ws folded orig i hits = (orig, hits)"
  by (subst scan.simps) simp

lemma scan_hit:
  "i < length folded \<Longrightarrow> is_letter (folded ! i) \<Longrightarrow> best_end ws folded orig i > i \<Longrightarrow>
   scan ws folded orig i hits
     = scan ws folded (star_out i (best_end ws folded orig i) orig) (best_end ws folded orig i) (Suc hits)"
  by (subst scan.simps) (simp add: Let_def)

lemma scan_miss:
  "i < length folded \<Longrightarrow> \<not> (is_letter (folded ! i) \<and> best_end ws folded orig i > i) \<Longrightarrow>
   scan ws folded orig i hits = scan ws folded orig (Suc i) hits"
  by (subst scan.simps) (simp add: Let_def)

text \<open>The three ways the loop goes on, as an induction rule.\<close>

lemma scan_cases_induct [case_names stop hit miss]:
  assumes stop: "\<And>orig i hits. i \<ge> length folded \<Longrightarrow> P orig i hits"
    and hit: "\<And>orig i hits. i < length folded \<Longrightarrow> is_letter (folded ! i) \<Longrightarrow>
      best_end ws folded orig i > i \<Longrightarrow>
      P (star_out i (best_end ws folded orig i) orig) (best_end ws folded orig i) (Suc hits) \<Longrightarrow> P orig i hits"
    and miss: "\<And>orig i hits. i < length folded \<Longrightarrow>
      \<not> (is_letter (folded ! i) \<and> best_end ws folded orig i > i) \<Longrightarrow> P orig (Suc i) hits \<Longrightarrow> P orig i hits"
  shows "P orig i hits"
proof (induction "length folded - i" arbitrary: orig i hits rule: less_induct)
  case less
  show ?case
  proof (cases "i < length folded")
    case False
    then show ?thesis by (simp add: stop)
  next
    case i: True
    show ?thesis
    proof (cases "is_letter (folded ! i) \<and> best_end ws folded orig i > i")
      case True
      then have "length folded - best_end ws folded orig i < length folded - i" using i by linarith
      from less [OF this] show ?thesis using i True hit by blast
    next
      case False
      have "length folded - Suc i < length folded - i" using i by simp
      from less [OF this] show ?thesis by (rule miss [OF i False])
    qed
  qed
qed

lemma scan_length: "length orig = length folded \<Longrightarrow> length (fst (scan ws folded orig i hits)) = length orig"
proof (induction orig i hits rule: scan_cases_induct [of folded _ ws])
  case (hit orig i hits)
  then show ?case using best_end_bounds [of i folded ws orig] by (simp add: scan_hit fst_star_out)
qed (simp_all add: scan_done scan_miss)

lemma scan_hits_mono: "hits \<le> snd (scan ws folded orig i hits)"
  by (induction orig i hits rule: scan_cases_induct [of folded _ ws])
     (simp_all add: scan_done scan_hit scan_miss)

lemma scan_no_hits: "snd (scan ws folded orig i hits) = hits \<Longrightarrow> fst (scan ws folded orig i hits) = orig"
proof (induction orig i hits rule: scan_cases_induct [of folded _ ws])
  case (hit orig i hits)
  have "Suc hits \<le> snd (scan ws folded orig i hits)"
    unfolding scan_hit [OF hit(1-3)] by (rule scan_hits_mono)
  then show ?case using hit.prems by simp
qed (simp_all add: scan_done scan_miss)

lemma scan_sound:
  "length orig = length folded \<Longrightarrow> k < length folded \<Longrightarrow>
   fst (scan ws folded orig i hits) ! k = orig ! k \<or>
   fst (scan ws folded orig i hits) ! k = star \<and> (\<exists>a e. a \<le> k \<and> k < e \<and> occurs ws folded a e)"
proof (induction orig i hits rule: scan_cases_induct [of folded _ ws])
  case (hit orig i hits)
  let ?e = "best_end ws folded orig i"
  have e: "?e \<le> length folded" using best_end_bounds hit by blast
  have occ: "occurs ws folded i ?e" using best_end_occurs hit by blast
  have nth: "star_out i ?e orig ! k = (if i \<le> k \<and> k < ?e then star else orig ! k)"
    using nth_star_out [of i ?e orig k] hit e by simp
  have "length (star_out i ?e orig) = length folded" using fst_star_out hit e by simp
  from hit.IH [OF this hit.prems(2)] show ?case
    unfolding scan_hit [OF hit(1-3)] nth using occ by (auto split: if_splits)
qed (simp_all add: scan_done scan_miss)

lemma scan_keeps_star:
  assumes "length orig = length folded" "k < length folded" "orig ! k = star"
  shows "fst (scan ws folded orig i hits) ! k = star"
  using scan_sound [OF assms(1,2), of ws i hits] assms(3) by auto

text \<open>An entry that matches anywhere is found wherever it stands: if the scan has not passed
  its first letter, that letter is masked.\<close>

lemma scan_complete:
  assumes "k < length folded" "is_letter (folded ! k)"
    and "w \<in> set ws" "anywhere w" "w_cp w \<noteq> []" "hd (w_cp w) = folded ! k"
    and "match_letters folded (length (w_cp w) \<ge> 4) True (w_cp w) k = Some e"
  shows "length orig = length folded \<Longrightarrow> i \<le> k \<Longrightarrow> fst (scan ws folded orig i hits) ! k = star"
proof (induction orig i hits rule: scan_cases_induct [of folded _ ws])
  case (stop orig i hits)
  then show ?case using assms(1) by simp
next
  case (hit orig i hits)
  let ?e = "best_end ws folded orig i"
  have e: "?e \<le> length folded" using best_end_bounds hit by blast
  have len: "length (star_out i ?e orig) = length folded" using fst_star_out hit e by simp
  show ?case
  proof (cases "k < ?e")
    case True
    then have "star_out i ?e orig ! k = star"
      using nth_star_out [of i ?e orig k] e hit assms(1) by simp
    then show ?thesis unfolding scan_hit [OF hit(1-3)] using len assms(1) by (intro scan_keeps_star)
  next
    case False
    then show ?thesis unfolding scan_hit [OF hit(1-3)] using hit.IH len by simp
  qed
next
  case (miss orig i hits)
  have "i \<noteq> k"
  proof
    assume ik: "i = k"
    have "match_at folded orig k w = e" using assms by (simp add: match_at_def)
    moreover have "k < e" using match_letters_bounds [OF assms(7)] assms(1,5) by simp
    moreover have "match_at folded orig k w \<le> best_end ws folded orig k"
      using best_end_ge assms by metis
    ultimately show False using miss(2) ik assms(2) by simp
  qed
  then show ?case unfolding scan_miss [OF miss(1,2)] using miss by simp
qed

text \<open>A listed word written out in letters is masked from end to end.\<close>

lemma separators_are_not_letters: "is_letter c \<Longrightarrow> \<not> is_separator c"
  by (auto simp: is_letter_def is_separator_def split: if_splits)

lemma skip_none: "p \<ge> length t \<or> \<not> P (t ! p) \<Longrightarrow> skip_while P t p = p"
  by (cases "p < length t") (auto simp: skip_while_def Cons_nth_drop_Suc [symmetric])

lemma match_letters_self:
  "cs = drop p t \<Longrightarrow> p \<le> length t \<Longrightarrow> \<forall>c \<in> set t. is_letter c \<Longrightarrow>
   match_letters t sep first cs p = Some (length t)"
proof (induction cs arbitrary: p first)
  case Nil
  then show ?case by simp
next
  case (Cons c cs)
  have p: "p < length t" using Cons.prems by (cases "p < length t") auto
  have c: "c = t ! p" and cs: "cs = drop (Suc p) t"
    using Cons.prems(1) p by (auto simp: Cons_nth_drop_Suc [symmetric])
  have "\<not> is_separator (t ! p)" using Cons.prems(3) p separators_are_not_letters by auto
  then have s1: "skip_while is_separator t p = p" by (simp add: skip_none)
  have s2: "skip_while (\<lambda>x. x = c) t (Suc p) = Suc p" if "cs = [] \<or> hd cs \<noteq> c"
    using that by (intro skip_none) (auto simp: cs hd_drop_conv_nth not_less)
  have "match_letters t sep False cs (Suc p) = Some (length t)"
    using Cons.IH [OF cs] p Cons.prems(3) by auto
  then show ?case using p s1 s2 c by auto
qed

lemma scan_whole_word:
  assumes "w \<in> set ws" "w_cp w = folded" "folded \<noteq> []" "\<forall>c \<in> set folded. is_letter c"
    and "length orig = length folded"
  shows "scan ws folded orig 0 0 = (replicate (length folded) star, 1)"
proof -
  have "match_letters folded (length (w_cp w) \<ge> 4) True (w_cp w) 0 = Some (length folded)"
    using match_letters_self [of folded 0 folded] assms by simp
  then have "match_at folded orig 0 w = length folded" by (simp add: match_at_def)
  moreover have "hd (w_cp w) = folded ! 0" using assms by (simp add: hd_conv_nth)
  ultimately have "length folded \<le> best_end ws folded orig 0"
    using best_end_ge [OF assms(1), of folded 0 orig] by simp
  moreover have pos: "0 < length folded" using assms(3) by simp
  ultimately have e: "best_end ws folded orig 0 = length folded"
    using best_end_bounds [OF pos, of ws orig] pos by (intro order_antisym) auto
  have "is_letter (folded ! 0)" using assms(4) pos by simp
  then have "scan ws folded orig 0 0 = scan ws folded (star_out 0 (length folded) orig) (length folded) 1"
    using pos by (subst scan.simps) (simp add: e Let_def)
  also have "\<dots> = (star_out 0 (length folded) orig, 1)" by (subst scan.simps) simp
  finally show ?thesis using assms(5) by (simp add: star_out_def)
qed

lemma length_mask_chars: "length (fst (mask_chars f cs)) = length cs"
  by (simp add: mask_chars_def scan_length)

lemma mask_chars_sound:
  assumes "k < length cs"
  shows "fst (mask_chars f cs) ! k = cs ! k \<or> fst (mask_chars f cs) ! k = star \<and>
    (\<exists>a e. a \<le> k \<and> k < e \<and> occurs (words f) (map fold_char cs) a e)"
  using scan_sound [of cs "map fold_char cs" k "words f" 0 0] assms by (auto simp: mask_chars_def)

lemma star_scalar [simp]: "scalar star"
  by (simp add: star_def scalar_def)

lemma chars_mask:
  assumes "valid_utf8 s"
  shows "chars (mask f s) = (if enabled f then fst (mask_chars f (chars s)) else chars s)"
proof -
  let ?out = "fst (mask_chars f (chars s))"
  have "\<forall>c \<in> set ?out. scalar c"
  proof
    fix c assume "c \<in> set ?out"
    then obtain k where "k < length (chars s)" "c = ?out ! k"
      by (auto simp: in_set_conv_nth length_mask_chars)
    then show "scalar c" using mask_chars_sound [of k "chars s" f] scalar_chars [OF assms, of "chars s ! k"]
      by (auto simp del: One_nat_def)
  qed
  then have *: "chars (of_chars ?out) = ?out" by (rule chars_of_chars)
  have no_hit: "?out = chars s" if "snd (mask_chars f (chars s)) = 0"
    using scan_no_hits [of "words f" "map fold_char (chars s)" "chars s" 0 0] that
    by (simp add: mask_chars_def)
  have empty: "?out = chars s" if "words f = []"
  proof (rule nth_equalityI)
    fix k assume "k < length ?out"
    then have "k < length (chars s)" by (simp add: length_mask_chars)
    from mask_chars_sound [OF this, of f] show "?out ! k = chars s ! k"
      using that by (auto simp: occurs_def)
  qed (simp add: length_mask_chars)
  obtain out n where out: "mask_chars f (chars s) = (out, n)" by force
  show ?thesis
  proof (cases "\<not> enabled f \<or> words f = [] \<or> n = 0")
    case True
    have "n = 0 \<Longrightarrow> ?out = chars s" by (rule no_hit) (simp add: out)
    then have "?out = chars s" if "enabled f" using True empty that by blast
    then show ?thesis using True out by (auto simp: mask_def)
  next
    case False
    then show ?thesis using * out by (simp add: mask_def)
  qed
qed

lemma ascii_valid: "list_all (\<lambda>c. (of_char c :: nat) < 128) s \<Longrightarrow> valid_utf8 s"
proof -
  assume *: "list_all (\<lambda>c. (of_char c :: nat) < 128) s"
  have "of_chars (map of_char s) = s"
    using * by (induction s) (auto simp: of_chars_def utf8_bytes_def)
  moreover have "\<forall>c \<in> set (map of_char s). scalar c"
    using * by (auto simp: list_all_iff scalar_def)
  ultimately show ?thesis unfolding valid_utf8_def by metis
qed

subsection \<open>Properties\<close>


definition demo_filter :: ChatFilter where
  "demo_filter = parse (''# comment'' @ [char_of (10::nat)] @ ''ass'' @ [char_of (10::nat)] @ ''~damn'') True"


text \<open>
  Nothing written as a listed word gets through.  A text whose folded characters are the
  letters of an entry, whole-word or not, comes out as stars only; and wherever an entry that
  matches anywhere occurs in a text, however it is spaced or repeated, its first letter is
  masked.
\<close>
theorem listed_words_are_masked:
  assumes "valid_utf8 s" "enabled f" "w \<in> set (words f)" "w_cp w \<noteq> []"
  shows "(map fold_char (chars s) = w_cp w \<and> list_all is_letter (w_cp w) \<longrightarrow>
           chars (mask f s) = replicate (length (chars s)) star) \<and>
         (anywhere w \<and> k < length (chars s) \<and> is_letter (hd (w_cp w)) \<and>
            fold_char (chars s ! k) = hd (w_cp w) \<and>
            match_letters (map fold_char (chars s)) (length (w_cp w) \<ge> 4) True (w_cp w) k = Some e \<longrightarrow>
           chars (mask f s) ! k = star)"
proof -
  have "chars (mask f s) = fst (scan (words f) (map fold_char (chars s)) (chars s) 0 0)"
    using assms by (simp add: chars_mask mask_chars_def)
  moreover have "scan (words f) (map fold_char (chars s)) (chars s) 0 0
      = (replicate (length (chars s)) star, 1)"
    if "map fold_char (chars s) = w_cp w" "list_all is_letter (w_cp w)"
    using scan_whole_word [OF assms(3), of "map fold_char (chars s)" "chars s"] that assms(4)
    by (simp add: list_all_iff length_map [of fold_char "chars s", symmetric] del: length_map)
  moreover have "fst (scan (words f) (map fold_char (chars s)) (chars s) 0 0) ! k = star"
    if "anywhere w" "k < length (chars s)" "is_letter (hd (w_cp w))"
      "fold_char (chars s ! k) = hd (w_cp w)"
      "match_letters (map fold_char (chars s)) (length (w_cp w) \<ge> 4) True (w_cp w) k = Some e"
    by (rule scan_complete [where w = w and e = e]) (use that assms(3,4) in simp_all)
  ultimately show ?thesis by simp
qed

lemma demo_filter_words:
  "words demo_filter = [\<lparr> w_cp = [97, 115, 115], anywhere = False \<rparr>, \<lparr> w_cp = [100, 97, 109, 110], anywhere = True \<rparr>]"
  "enabled demo_filter"
  by code_simp+

theorem listed_words_are_masked_witness:
  "chars (mask demo_filter ''$H0W d@mn'') ! 5 = star"
proof -
  have "valid_utf8 ''$H0W d@mn''" by (rule ascii_valid) simp
  moreover have "\<lparr> w_cp = [100, 97, 109, 110], anywhere = True \<rparr> \<in> set (words demo_filter)"
    by (simp add: demo_filter_words)
  moreover have "match_letters (map fold_char (chars ''$H0W d@mn'')) True True [100, 97, 109, 110] 5 = Some 9"
    "fold_char (chars ''$H0W d@mn'' ! 5) = 100" "length (chars ''$H0W d@mn'') = 9" "is_letter 100"
    by code_simp+
  ultimately show ?thesis
    using listed_words_are_masked [of "''$H0W d@mn''" demo_filter
        "\<lparr> w_cp = [100, 97, 109, 110], anywhere = True \<rparr>" 5 9] demo_filter_words(2) by simp
qed

text \<open>
  The boundary test of a whole-word entry looks at the original character with a test
  written for folded ones, so an upper-case letter is not a letter there: with the entry
  \<open>ass\<close> the word \<open>class\<close> is left alone and \<open>CLASS\<close> is masked.
\<close>
theorem upper_case_letters_do_not_bound_a_word:
  "mask demo_filter ''class'' = ''class'' \<and> mask demo_filter ''CLASS'' = ''CL***'' \<and>
   \<not> is_letter (ch (CHR ''L'')) \<and> is_letter (fold_char (ch (CHR ''L'')))"
  by code_simp

end
