(* ===== verification/Identity.thy ===== *)
theory Identity
  imports Chat_Filter
begin

text \<open>
  Names and players: the gate every client-supplied name passes (\<^verbatim>\<open>src/names.rs\<close>) and the
  Discord-linked identity (\<^verbatim>\<open>src/identity.rs\<close>).  The table \<^verbatim>\<open>players\<close> is a hash map from
  the row's uuid to its columns; a statement is the function on that table its SQL says.  The
  uuid and token hash of a new row, and the clock reading, are arguments, and so is the chat
  filter in force.
\<close>

subsection \<open>Names\<close>

definition NAME_MAX_CHARS :: nat where
  [rust_simps]: "NAME_MAX_CHARS = 32"

definition NAME_MAX_BYTES :: nat where
  [rust_simps]: "NAME_MAX_BYTES = 63"

text \<open>The loop of \<^verbatim>\<open>sanitize\<close>; \<open>used\<close> is \<^verbatim>\<open>out.len()\<close>.\<close>

fun take_fit :: "nat \<Rightarrow> cp list \<Rightarrow> cp list" where
  "take_fit used [] = []"
| "take_fit used (c # cs) =
     (if used + len_utf8 c > NAME_MAX_BYTES then [] else c # take_fit (used + len_utf8 c) cs)"

definition sanitize :: "string option \<Rightarrow> string option" where
  "sanitize s =
     (case s of None \<Rightarrow> None
      | Some s \<Rightarrow>
          let out = trim (of_chars (take_fit 0 (take NAME_MAX_CHARS (filter (\<lambda>c. \<not> is_control c) (chars s)))))
          in if out = [] then None else Some out)"

definition is_refused :: "ChatFilter \<Rightarrow> string \<Rightarrow> bool" where
  "is_refused f name \<longleftrightarrow> mask f name \<noteq> name"

definition acceptable :: "ChatFilter \<Rightarrow> string option \<Rightarrow> string option" where
  "acceptable f s =
     (case sanitize s of None \<Rightarrow> None | Some n \<Rightarrow> if is_refused f n then None else Some n)"

lemma take_fit_bytes: "used \<le> NAME_MAX_BYTES \<Longrightarrow> used + sum_list (map len_utf8 (take_fit used cs)) \<le> NAME_MAX_BYTES"
proof (induction cs arbitrary: used)
  case (Cons c cs)
  then show ?case using Cons.IH [of "used + len_utf8 c"] by (auto simp: add.assoc)
qed simp

lemma take_fit_prefix: "prefix (take_fit used cs) cs"
  by (induction cs arbitrary: used) auto

lemma take_fit_id: "used + sum_list (map len_utf8 cs) \<le> NAME_MAX_BYTES \<Longrightarrow> take_fit used cs = cs"
  by (induction cs arbitrary: used) (auto simp: add.assoc)

definition name_chars :: "cp list \<Rightarrow> cp list" where
  "name_chars cs = trim_chars (take_fit 0 (take NAME_MAX_CHARS (filter (\<lambda>c. \<not> is_control c) cs)))"

lemma set_name_chars: "set (name_chars cs) \<subseteq> {c \<in> set cs. \<not> is_control c}"
proof -
  have "set (take_fit 0 (take n xs)) \<subseteq> set xs" for n xs
    using set_mono_prefix [OF take_fit_prefix, of 0 "take n xs"] set_take_subset [of n xs] by blast
  then show ?thesis unfolding name_chars_def using set_trim_chars by fastforce
qed

lemma bytes_name_chars: "sum_list (map len_utf8 (name_chars cs)) \<le> NAME_MAX_BYTES"
  unfolding name_chars_def
  using sum_trim_chars [of len_utf8] take_fit_bytes [of 0] by (metis add_0 le0 le_trans)

lemma length_name_chars: "length (name_chars cs) \<le> NAME_MAX_CHARS"
proof -
  let ?t = "take NAME_MAX_CHARS (filter (\<lambda>c. \<not> is_control c) cs)"
  have "length (take_fit 0 ?t) \<le> length ?t" by (rule prefix_length_le [OF take_fit_prefix])
  also have "\<dots> \<le> NAME_MAX_CHARS" by simp
  finally show ?thesis unfolding name_chars_def using length_trim_chars le_trans by blast
qed

lemma name_chars_idem: "name_chars (name_chars cs) = name_chars cs"
proof -
  have "filter (\<lambda>c. \<not> is_control c) (name_chars cs) = name_chars cs"
    using set_name_chars [of cs] by (intro filter_True) auto
  moreover have "take_fit 0 (name_chars cs) = name_chars cs"
    using bytes_name_chars by (intro take_fit_id) simp
  ultimately show ?thesis using length_name_chars [of cs] trim_chars_idem
    by (simp add: name_chars_def [of "name_chars cs"]) (simp add: name_chars_def)
qed

lemma sanitize_eq:
  assumes "valid_utf8 s"
  shows "sanitize (Some s) = (if name_chars (chars s) = [] then None else Some (of_chars (name_chars (chars s))))"
proof -
  let ?cs = "take_fit 0 (take NAME_MAX_CHARS (filter (\<lambda>c. \<not> is_control c) (chars s)))"
  have "set ?cs \<subseteq> set (chars s)"
    using set_mono_prefix [OF take_fit_prefix, of 0 "take NAME_MAX_CHARS (filter (\<lambda>c. \<not> is_control c) (chars s))"]
      set_take_subset [of NAME_MAX_CHARS "filter (\<lambda>c. \<not> is_control c) (chars s)"] by auto
  then have "\<forall>c \<in> set ?cs. scalar c" using scalar_chars [OF assms] by blast
  then have "trim (of_chars ?cs) = of_chars (name_chars (chars s))"
    by (simp add: trim_of_chars name_chars_def)
  then show ?thesis by (simp add: sanitize_def)
qed

lemma sanitize_chars:
  assumes "valid_utf8 s" "sanitize (Some s) = Some n"
  shows "n = of_chars (name_chars (chars s)) \<and> chars n = name_chars (chars s) \<and> valid_utf8 n \<and> n \<noteq> []"
proof -
  have "\<forall>c \<in> set (name_chars (chars s)). scalar c"
    using set_name_chars [of "chars s"] scalar_chars [OF assms(1)] by auto
  then show ?thesis using assms sanitize_eq [OF assms(1)]
    by (auto simp: chars_of_chars valid_utf8_of_chars split: if_splits)
qed

text \<open>
  C38: a name that passes the gate fits the field every client stores it in and needs no second
  pass: it is not empty, at most 63 bytes and 32 characters long, free of control characters
  and of surrounding space, and passing it through the gate again gives it back.
\<close>
theorem sanitized_names_fit:
  assumes "valid_utf8 s" "sanitize (Some s) = Some n"
  shows "n \<noteq> [] \<and> length n \<le> 63 \<and> length (chars n) \<le> 32 \<and>
    list_all (\<lambda>c. \<not> is_control c) (chars n) \<and> trim n = n \<and> sanitize (Some n) = Some n"
proof -
  let ?cs = "name_chars (chars s)"
  have n: "n = of_chars ?cs" "chars n = ?cs" "valid_utf8 n" "n \<noteq> []"
    using sanitize_chars [OF assms] by auto
  have "length n \<le> 63"
    using bytes_name_chars [of "chars s"] n(1) by (simp add: length_of_chars NAME_MAX_BYTES_def)
  moreover have "trim_chars ?cs = ?cs" unfolding name_chars_def by (rule trim_chars_idem)
  then have "trim n = n" using n by (simp add: trim_def)
  moreover have "sanitize (Some n) = Some n"
    using sanitize_eq [OF n(3)] n name_chars_idem [of "chars s"] by auto
  moreover have "list_all (\<lambda>c. \<not> is_control c) (chars n)"
    using set_name_chars [of "chars s"] n(2) by (auto simp: list_all_iff)
  ultimately show ?thesis
    using n length_name_chars [of "chars s"] by (simp add: NAME_MAX_CHARS_def)
qed

theorem sanitized_names_fit_witness:
  "sanitize (Some ''  Ma rio '') = Some ''Ma rio'' \<and> sanitize (Some ''Ma rio'') = Some ''Ma rio''"
proof -
  have "valid_utf8 ''  Ma rio ''" by (rule ascii_valid) simp
  moreover have "sanitize (Some ''  Ma rio '') = Some ''Ma rio''" by code_simp
  ultimately show ?thesis using sanitized_names_fit by blast
qed

subsection \<open>Players\<close>

record DiscordProfile =
  dp_id :: string
  dp_username :: string
  dp_global_name :: "string option"
  dp_avatar :: "string option"

record Player =
  pl_id :: nat
  pl_discord_id :: string
  pl_discord_username :: string
  pl_handle :: string

definition default_handle_for :: "ChatFilter \<Rightarrow> DiscordProfile \<Rightarrow> string" where
  "default_handle_for f p =
     (case acceptable f (dp_global_name p) of
        Some n \<Rightarrow> n
      | None \<Rightarrow>
          case acceptable f (Some (dp_username p)) of
            Some n \<Rightarrow> n
          | None \<Rightarrow> ''Player-'' @ of_chars (rev (take 4 (rev (chars (dp_id p))))))"

text \<open>A row of \<^verbatim>\<open>players\<close>; columns of the migration that may be NULL are options.\<close>

record PlayerRow =
  api_token_hash :: string
  discord_id :: "string option"
  discord_username :: "string option"
  discord_global_name :: "string option"
  discord_avatar :: "string option"
  netplay_handle :: "string option"
  linked_at :: "nat option"
  last_seen_at :: "nat option"

type_synonym players = "(nat, PlayerRow) hashmap"

definition row_by_discord :: "players \<Rightarrow> string \<Rightarrow> (nat \<times> PlayerRow) option" where
  "row_by_discord t d = List.find (\<lambda>(i, r). discord_id r = Some d) t"

text \<open>\<^verbatim>\<open>UPDATE players SET ... WHERE discord_id = ?\<close>.\<close>

definition update_by_discord :: "string \<Rightarrow> (PlayerRow \<Rightarrow> PlayerRow) \<Rightarrow> players \<Rightarrow> players" where
  "update_by_discord d g t = map (\<lambda>(i, r). (i, if discord_id r = Some d then g r else r)) t"

definition link_discord ::
    "ChatFilter \<Rightarrow> nat \<Rightarrow> nat \<Rightarrow> string \<Rightarrow> DiscordProfile \<Rightarrow> players \<Rightarrow> players \<times> Player" where
  "link_discord f now new_id new_hash p t =
     (case row_by_discord t (dp_id p) of
        Some (i, row) \<Rightarrow>
          let t1 = update_by_discord (dp_id p)
                 (\<lambda>r. r\<lparr> discord_username := Some (dp_username p), discord_global_name := dp_global_name p,
                        discord_avatar := dp_avatar p, last_seen_at := Some now \<rparr>) t
          in (case filter_option (\<lambda>h. h \<noteq> []) (netplay_handle row) of
                Some h \<Rightarrow>
                  (t1, \<lparr> pl_id = i, pl_discord_id = dp_id p, pl_discord_username = dp_username p, pl_handle = h \<rparr>)
              | None \<Rightarrow>
                  let h = default_handle_for f p
                  in (update_by_discord (dp_id p) (\<lambda>r. r\<lparr> netplay_handle := Some h \<rparr>) t1,
                      \<lparr> pl_id = i, pl_discord_id = dp_id p, pl_discord_username = dp_username p, pl_handle = h \<rparr>))
      | None \<Rightarrow>
          let h = default_handle_for f p
          in (t @ [(new_id, \<lparr> api_token_hash = new_hash, discord_id = Some (dp_id p),
                  discord_username = Some (dp_username p), discord_global_name = dp_global_name p,
                  discord_avatar = dp_avatar p, netplay_handle = Some h,
                  linked_at = Some now, last_seen_at = Some now \<rparr>)],
              \<lparr> pl_id = new_id, pl_discord_id = dp_id p, pl_discord_username = dp_username p, pl_handle = h \<rparr>))"

text \<open>A NULL column read as a \<^verbatim>\<open>String\<close> is the empty string.\<close>

definition load_player :: "players \<Rightarrow> nat \<Rightarrow> Player option" where
  "load_player t i =
     (case map_of t i of
        None \<Rightarrow> None
      | Some r \<Rightarrow>
          (case filter_option (\<lambda>h. h \<noteq> []) (netplay_handle r) of
             None \<Rightarrow> None
           | Some h \<Rightarrow> Some \<lparr> pl_id = i, pl_discord_id = unwrap_or (discord_id r) [],
                             pl_discord_username = unwrap_or (discord_username r) [], pl_handle = h \<rparr>))"

definition set_handle :: "ChatFilter \<Rightarrow> players \<Rightarrow> nat \<Rightarrow> string \<Rightarrow> string + (players \<times> string)" where
  "set_handle f t player requested =
     (case acceptable f (Some requested) of
        None \<Rightarrow> Inl ''handle_rejected''
      | Some h \<Rightarrow> Inr (modify player (\<lambda>r. r\<lparr> netplay_handle := Some h \<rparr>) t, h))"

text \<open>\<^verbatim>\<open>players::create_player\<close>: an anonymous row.\<close>

definition create_player :: "nat \<Rightarrow> string \<Rightarrow> players \<Rightarrow> players" where
  "create_player new_id token_hash t =
     t @ [(new_id, \<lparr> api_token_hash = token_hash, discord_id = None, discord_username = None,
        discord_global_name = None, discord_avatar = None, netplay_handle = None,
        linked_at = None, last_seen_at = None \<rparr>)]"

definition verify_player_token :: "(string \<Rightarrow> string) \<Rightarrow> players \<Rightarrow> nat \<Rightarrow> string \<Rightarrow> bool" where
  "verify_player_token sha t player token =
     (case map_of t player of Some r \<Rightarrow> api_token_hash r = sha token | None \<Rightarrow> False)"

definition require_player :: "(string \<Rightarrow> string) \<Rightarrow> players \<Rightarrow> nat \<Rightarrow> string \<Rightarrow> string + unit" where
  "require_player sha t player token =
     (if verify_player_token sha t player token then Inr () else Inl ''invalid player credentials'')"

subsection \<open>Guests\<close>

datatype Identity = Account Player | Guest

fun account :: "Identity \<Rightarrow> Player option" where
  "account (Account p) = Some p"
| "account Guest = None"

definition server_handle :: "Identity \<Rightarrow> string option" where
  "server_handle i = map_option pl_handle (account i)"

definition is_guest :: "Identity \<Rightarrow> bool" where
  "is_guest i = (case i of Guest \<Rightarrow> True | Account _ \<Rightarrow> False)"

record GuestPolicy =
  discord_required :: bool
  can_chat :: bool
  can_host :: bool

definition default_policy :: GuestPolicy where
  "default_policy = \<lparr> discord_required = False, can_chat = True, can_host = True \<rparr>"

definition guest_refusal :: "GuestPolicy \<Rightarrow> string \<Rightarrow> string option" where
  "guest_refusal p op =
     (if op \<noteq> ''chat'' \<and> op \<noteq> ''server_chat'' \<and> op \<noteq> ''create'' then None
      else if discord_required p then Some ''login_required''
      else if (op = ''chat'' \<or> op = ''server_chat'') \<and> \<not> can_chat p then Some ''login_required_chat''
      else if op = ''create'' \<and> \<not> can_host p then Some ''login_required_host''
      else None)"

lemma guest_never_refused_a_seat: "guest_refusal p ''list'' = None" "guest_refusal p ''join'' = None"
  by (simp_all add: guest_refusal_def)

lemma default_policy_refuses_nothing: "guest_refusal default_policy op = None"
  by (simp add: guest_refusal_def default_policy_def)

subsection \<open>What the operations keep\<close>

text \<open>The unique index of the migration: no two rows carry the same Discord id.\<close>

definition players_inv :: "players \<Rightarrow> bool" where
  "players_inv t \<longleftrightarrow> distinct (map fst t) \<and>
     distinct (List.map_filter (\<lambda>(i, r). discord_id r) t)"

lemma map_filter_update_by_discord:
  assumes "\<And>r. discord_id (g r) = discord_id r"
  shows "List.map_filter (\<lambda>(i, r). discord_id r) (update_by_discord d g t) = List.map_filter (\<lambda>(i, r). discord_id r) t"
  using assms by (induction t) (auto simp: update_by_discord_def List.map_filter_simps split: option.splits if_splits)

lemma keys_update_by_discord [simp]: "map fst (update_by_discord d g t) = map fst t"
  by (induction t) (auto simp: update_by_discord_def)

lemma map_filter_modify:
  assumes "\<And>r. discord_id (g r) = discord_id r"
  shows "List.map_filter (\<lambda>(i, r). discord_id r) (modify k g t) = List.map_filter (\<lambda>(i, r). discord_id r) t"
  using assms by (induction t) (auto simp: List.map_filter_simps split: option.splits)

lemma row_by_discord_None:
  "row_by_discord t d = None \<longleftrightarrow> d \<notin> set (List.map_filter (\<lambda>(i, r). discord_id r) t)"
  by (induction t) (auto simp: row_by_discord_def List.map_filter_simps split: option.splits)

lemma row_by_discord_Some:
  "row_by_discord t d = Some (i, r) \<Longrightarrow> (i, r) \<in> set t \<and> discord_id r = Some d"
  unfolding row_by_discord_def find_Some_iff using nth_mem by force

lemma map_of_update_by_discord:
  "map_of (update_by_discord d g t) i = map_option (\<lambda>r. if discord_id r = Some d then g r else r) (map_of t i)"
  by (induction t) (auto simp: update_by_discord_def)

lemma row_by_discord_update:
  assumes "\<And>r. discord_id (g r) = discord_id r"
  shows "row_by_discord (update_by_discord d g t) d' =
    map_option (\<lambda>(i, r). (i, if discord_id r = Some d then g r else r)) (row_by_discord t d')"
  using assms by (induction t) (auto simp: row_by_discord_def update_by_discord_def)

lemma map_filter_append: "List.map_filter f (xs @ ys) = List.map_filter f xs @ List.map_filter f ys"
  by (simp add: List.map_filter_def)

lemma link_discord_inv:
  assumes "players_inv t" "new_id \<notin> fst ` set t"
  shows "players_inv (fst (link_discord f now new_id h p t))"
  using assms row_by_discord_None [of t "dp_id p"]
  by (auto simp: players_inv_def link_discord_def Let_def map_filter_update_by_discord map_filter_append
      List.map_filter_simps split: option.splits)

lemma set_handle_inv: "players_inv t \<Longrightarrow> set_handle f t i req = Inr (t', h) \<Longrightarrow> players_inv t'"
  by (auto simp: set_handle_def players_inv_def map_filter_modify split: option.splits)

lemma create_player_inv: "players_inv t \<Longrightarrow> i \<notin> fst ` set t \<Longrightarrow> players_inv (create_player i h t)"
  by (auto simp: players_inv_def create_player_def map_filter_append List.map_filter_simps)

lemma acceptable_Some:
  "acceptable f s = Some n \<longleftrightarrow> sanitize s = Some n \<and> \<not> is_refused f n"
  by (auto simp: acceptable_def split: option.splits)

lemma default_handle_cases:
  "(\<exists>s. acceptable f s = Some (default_handle_for f p)) \<or>
   default_handle_for f p = ''Player-'' @ of_chars (rev (take 4 (rev (chars (dp_id p)))))"
  by (auto simp: default_handle_for_def split: option.splits)

lemma default_handle_nonempty: "default_handle_for f p \<noteq> []"
  by (auto simp: default_handle_for_def acceptable_def sanitize_def Let_def split: option.splits if_splits)


lemma row_by_discord_append_new:
  "row_by_discord t d = None \<Longrightarrow> discord_id r = Some d \<Longrightarrow> row_by_discord (t @ [(i, r)]) d = Some (i, r)"
  by (induction t) (auto simp: row_by_discord_def)

text \<open>A login leaves a row with the snowflake and the handle it returned.\<close>

lemma link_discord_row:
  "\<exists>r. row_by_discord (fst (link_discord f now new_id h p t)) (dp_id p)
        = Some (pl_id (snd (link_discord f now new_id h p t)), r) \<and>
      netplay_handle r = Some (pl_handle (snd (link_discord f now new_id h p t)))"
proof (cases "row_by_discord t (dp_id p)")
  case None
  then show ?thesis by (auto simp: link_discord_def Let_def row_by_discord_append_new)
next
  case (Some a)
  obtain i r where a: "a = (i, r)" by force
  have "discord_id r = Some (dp_id p)" using row_by_discord_Some Some a by blast
  then show ?thesis using Some a
    by (auto simp: link_discord_def Let_def row_by_discord_update split: option.splits)
qed

lemma link_discord_handle_nonempty: "pl_handle (snd (link_discord f now new_id h p t)) \<noteq> []"
  by (auto simp: link_discord_def Let_def default_handle_nonempty split: option.splits)

lemma link_again:
  assumes "row_by_discord t (dp_id p) = Some (i, r)" "netplay_handle r = Some n" "n \<noteq> []"
  shows "pl_id (snd (link_discord f now new_id h p t)) = i \<and>
    pl_handle (snd (link_discord f now new_id h p t)) = n \<and>
    map fst (fst (link_discord f now new_id h p t)) = map fst t"
  using assms by (simp add: link_discord_def Let_def)

text \<open>
  C32: identity is the snowflake.  Whatever happened before, a second login with the same
  Discord id is the same player with the same handle, however the Discord names changed in
  between and whichever uuid was offered for a new row; no row is added, and the table keeps
  its unique keys.  The handle of a first login is never empty.
\<close>
theorem discord_login_is_idempotent:
  assumes "players_inv t" "new_id \<notin> fst ` set t" "dp_id p2 = dp_id p1"
  shows "let (t1, pl1) = link_discord f now1 new_id h1 p1 t; (t2, pl2) = link_discord f now2 id2 h2 p2 t1
    in pl_id pl2 = pl_id pl1 \<and> pl_handle pl2 = pl_handle pl1 \<and> pl_handle pl1 \<noteq> [] \<and>
       map fst t2 = map fst t1 \<and> players_inv t1 \<and> players_inv t2"
proof -
  obtain t1 pl1 where l1: "link_discord f now1 new_id h1 p1 t = (t1, pl1)" by force
  obtain t2 pl2 where l2: "link_discord f now2 id2 h2 p2 t1 = (t2, pl2)" by force
  have inv1: "players_inv t1" using link_discord_inv [OF assms(1,2), of f now1 h1 p1] l1 by simp
  obtain r where r: "row_by_discord t1 (dp_id p2) = Some (pl_id pl1, r)" "netplay_handle r = Some (pl_handle pl1)"
    using link_discord_row [of f now1 new_id h1 p1 t] l1 assms(3) by auto
  have ne: "pl_handle pl1 \<noteq> []" using link_discord_handle_nonempty [of f now1 new_id h1 p1 t] l1 by simp
  have again: "pl_id pl2 = pl_id pl1" "pl_handle pl2 = pl_handle pl1" "map fst t2 = map fst t1"
    using link_again [OF r ne, of f now2 id2 h2] l2 by auto
  have "t2 = update_by_discord (dp_id p2)
      (\<lambda>r. r\<lparr> discord_username := Some (dp_username p2), discord_global_name := dp_global_name p2,
             discord_avatar := dp_avatar p2, last_seen_at := Some now2 \<rparr>) t1"
    using l2 r ne by (simp add: link_discord_def Let_def)
  then have "players_inv t2" using inv1 by (simp add: players_inv_def map_filter_update_by_discord)
  then show ?thesis using l1 l2 again ne inv1 by simp
qed

definition demo_profile :: DiscordProfile where
  "demo_profile = \<lparr> dp_id = ''123456789012345678'', dp_username = ''reimu_h'', dp_global_name = Some ''Reimu'', dp_avatar = None \<rparr>"

theorem discord_login_is_idempotent_witness:
  "let (t1, pl1) = link_discord demo_filter 5 10 ''h'' demo_profile [];
       (t2, pl2) = link_discord demo_filter 6 11 ''g'' (demo_profile\<lparr> dp_username := ''marisa'', dp_global_name := None \<rparr>) t1
    in pl_id pl2 = pl_id pl1 \<and> pl_handle pl2 = pl_handle pl1 \<and> pl_handle pl1 \<noteq> [] \<and>
       map fst t2 = map fst t1 \<and> players_inv t1 \<and> players_inv t2"
  by (rule discord_login_is_idempotent) (simp_all add: players_inv_def List.map_filter_simps)

text \<open>
  A refused name is never used.  The handle a login starts with is a name that passed the
  gate and the word list, or the neutral one built from the last four characters of the
  snowflake; a handle the player asks for is stored exactly when the gate accepts it, and a
  refusal changes nothing.
\<close>
theorem handles_pass_the_gate:
  "((\<exists>s. sanitize s = Some (default_handle_for f p) \<and> \<not> is_refused f (default_handle_for f p)) \<or>
    default_handle_for f p = ''Player-'' @ of_chars (rev (take 4 (rev (chars (dp_id p)))))) \<and>
   (case set_handle f t i req of
      Inl e \<Rightarrow> e = ''handle_rejected'' \<and> acceptable f (Some req) = None
    | Inr (t', h) \<Rightarrow> sanitize (Some req) = Some h \<and> \<not> is_refused f h \<and>
        map_of t' = (map_of t)(i := map_option (\<lambda>r. r\<lparr> netplay_handle := Some h \<rparr>) (map_of t i)))"
  using default_handle_cases [of f p]
  by (auto simp: set_handle_def acceptable_Some map_of_modify split: option.splits)

end
