(* ===== verification/Config.thy ===== *)
theory Config
  imports Rust_Text
begin

text \<open>
  Configuration (\<^verbatim>\<open>src/config.rs\<close> and the environment part of
  \<^verbatim>\<open>src/turn_credentials.rs\<close>).  The process environment is a partial function from names to
  values; \<^verbatim>\<open>Config::from_env\<close> is a function of it that returns the configuration or the
  message it refuses to start with.  The warnings it logs are left out.
\<close>

type_synonym environment = "string \<Rightarrow> string option"

record Config =
  bind_addr :: string
  database_url :: "string option"
  cfg_require_auth :: bool
  jwt_secret_current :: "string option"
  jwt_secret_previous :: "string option"
  default_input_delay :: nat
  default_slot_count :: nat
  room_idle_secs :: nat
  heartbeat_timeout_secs :: nat
  cfg_protocol_magic :: nat
  game_allowlist :: "string list"
  metrics_game_label_limit :: nat
  geoip_db_path :: "string option"
  trust_proxy_header :: bool
  discord_client_id :: "string option"
  discord_client_secret :: "string option"
  discord_redirect_url :: "string option"
  cfg_discord_required :: bool
  discord_guild_id :: "string option"
  guest_can_chat :: bool
  guest_can_host :: bool
  chat_filter_enabled :: bool
  chat_filter_extra_path :: "string option"
  automatch_retention_days :: nat
  automatch_rematch_cooldown_secs :: nat
  automatch_rulesets_path :: string
  chat_report_dump_dir :: string
  automatch_queue_max :: nat
  automatch_accept_secs :: nat
  automatch_start_delay_secs :: nat
  automatch_dodge_cooldowns :: "nat list"

definition DEFAULT_DATABASE_URL :: string where
  "DEFAULT_DATABASE_URL = ''sqlite:recomp-net-server.db?mode=rwc''"

definition DEFAULT_PROTOCOL_MAGIC :: nat where
  "DEFAULT_PROTOCOL_MAGIC = 0x524E4554"

definition u64_max :: nat where
  "u64_max = 18446744073709551615"

subsection \<open>Reading one variable\<close>

definition parse_bool_env :: "string \<Rightarrow> bool" where
  "parse_bool_env raw \<longleftrightarrow>
     to_ascii_lowercase (trim raw) \<in> set [''1'', ''true'', ''yes'', ''on'']"

text \<open>\<^verbatim>\<open>.ok().filter(|s| !s.is_empty())\<close> and \<^verbatim>\<open>.ok().filter(|s| !s.trim().is_empty())\<close>.\<close>

definition nonempty_env :: "environment \<Rightarrow> string \<Rightarrow> string option" where
  "nonempty_env env k = filter_option (\<lambda>s. s \<noteq> []) (env k)"

definition nonblank_env :: "environment \<Rightarrow> string \<Rightarrow> string option" where
  "nonblank_env env k = filter_option (\<lambda>s. trim s \<noteq> []) (env k)"

definition parse_flag_env :: "environment \<Rightarrow> string \<Rightarrow> bool" where
  "parse_flag_env env k = parse_bool_env (unwrap_or (env k) [])"

text \<open>A switch that is on unless the variable says otherwise.\<close>

definition default_true_env :: "environment \<Rightarrow> string \<Rightarrow> bool" where
  "default_true_env env k = (case nonblank_env env k of Some v \<Rightarrow> parse_bool_env v | None \<Rightarrow> True)"

definition parse_u8_env :: "environment \<Rightarrow> string \<Rightarrow> nat \<Rightarrow> string + nat" where
  "parse_u8_env env name d =
     (case nonempty_env env name of
        None \<Rightarrow> Inr d
      | Some s \<Rightarrow> (case parse_unsigned 255 s of Some n \<Rightarrow> Inr n | None \<Rightarrow> Inl (name @ '' must be a u8'')))"

definition parse_u64_env :: "environment \<Rightarrow> string \<Rightarrow> nat \<Rightarrow> nat" where
  "parse_u64_env env name d = unwrap_or (Option.bind (env name) (parse_unsigned u64_max)) d"

definition parse_u32_env :: "environment \<Rightarrow> string \<Rightarrow> nat \<Rightarrow> string + nat" where
  "parse_u32_env env name d =
     (case nonempty_env env name of
        None \<Rightarrow> Inr d
      | Some s \<Rightarrow>
          let t = trim s
          in (case (case or_option (strip_prefix ''0x'' t) (strip_prefix ''0X'' t) of
                      Some hex \<Rightarrow> parse_hex 4294967295 hex
                    | None \<Rightarrow> parse_unsigned 4294967295 t) of
                Some n \<Rightarrow> Inr n
              | None \<Rightarrow> Inl (name @ '' must be a u32 (hex or decimal)'')))"

definition comma_list :: "string \<Rightarrow> string list" where
  "comma_list s = filter (\<lambda>p. p \<noteq> []) (map trim (split_on (CHR '','') s))"

definition clamp_nat :: "nat \<Rightarrow> nat \<Rightarrow> nat \<Rightarrow> nat" where
  "clamp_nat lo hi n = (if n < lo then lo else if n > hi then hi else n)"

subsection \<open>The whole configuration\<close>

definition read_env :: "environment \<Rightarrow> nat \<Rightarrow> nat \<Rightarrow> nat \<Rightarrow> Config" where
  "read_env env delay slots magic =
     \<lparr> bind_addr = unwrap_or (env ''BIND_ADDR'') ''0.0.0.0:8765'',
       database_url = nonempty_env env ''DATABASE_URL'',
       cfg_require_auth = parse_flag_env env ''REQUIRE_AUTH'',
       jwt_secret_current = nonempty_env env ''JWT_SECRET_CURRENT'',
       jwt_secret_previous = nonempty_env env ''JWT_SECRET_PREVIOUS'',
       default_input_delay = delay,
       default_slot_count = slots,
       room_idle_secs = parse_u64_env env ''LOBBY_ROOM_IDLE_SECS'' 600,
       heartbeat_timeout_secs = parse_u64_env env ''LOBBY_HEARTBEAT_TIMEOUT_SECS'' 30,
       cfg_protocol_magic = magic,
       game_allowlist = (case nonblank_env env ''LOBBY_GAME_ALLOWLIST'' of None \<Rightarrow> [] | Some s \<Rightarrow> comma_list s),
       metrics_game_label_limit = clamp_nat 1 1024 (parse_u64_env env ''METRICS_GAME_LABEL_LIMIT'' 64),
       geoip_db_path = nonempty_env env ''GEOIP_DB_PATH'',
       trust_proxy_header = parse_flag_env env ''TRUST_PROXY_HEADER'',
       discord_client_id = nonblank_env env ''DISCORD_CLIENT_ID'',
       discord_client_secret = nonblank_env env ''DISCORD_CLIENT_SECRET'',
       discord_redirect_url = nonblank_env env ''DISCORD_REDIRECT_URL'',
       cfg_discord_required = parse_flag_env env ''DISCORD_REQUIRED'',
       discord_guild_id = nonblank_env env ''DISCORD_GUILD_ID'',
       guest_can_chat = default_true_env env ''GUEST_CAN_CHAT'',
       guest_can_host = default_true_env env ''GUEST_CAN_HOST'',
       chat_filter_enabled = default_true_env env ''CHAT_FILTER'',
       chat_filter_extra_path = nonempty_env env ''CHAT_FILTER_EXTRA_PATH'',
       automatch_retention_days = parse_u64_env env ''AUTOMATCH_RETENTION_DAYS'' 30,
       automatch_rematch_cooldown_secs = parse_u64_env env ''AUTOMATCH_REMATCH_COOLDOWN_SECS'' 300,
       automatch_rulesets_path = unwrap_or (nonblank_env env ''AUTOMATCH_RULESETS_PATH'') ''data/automatch_rulesets.toml'',
       chat_report_dump_dir = unwrap_or (map_option trim (env ''CHAT_REPORT_DUMP_DIR'')) ''data/reports'',
       automatch_queue_max = parse_u64_env env ''AUTOMATCH_QUEUE_MAX'' 256,
       automatch_accept_secs = max (parse_u64_env env ''AUTOMATCH_ACCEPT_SECS'' 15) 5,
       automatch_start_delay_secs = parse_u64_env env ''AUTOMATCH_START_DELAY_SECS'' 3,
       automatch_dodge_cooldowns =
         (case nonblank_env env ''AUTOMATCH_DODGE_COOLDOWNS'' of
            Some v \<Rightarrow> List.map_filter (\<lambda>t. parse_unsigned u64_max (trim t)) (split_on (CHR '','') v)
          | None \<Rightarrow> [60]) \<rparr>"

definition from_env :: "environment \<Rightarrow> string + Config" where
  "from_env env =
     (let c0 = read_env env 0 0 0
      in if cfg_discord_required c0 \<and>
            (discord_client_id c0 = None \<or> discord_client_secret c0 = None \<or> discord_redirect_url c0 = None
             \<or> jwt_secret_current c0 = None)
         then Inl ''DISCORD_REQUIRED is set but Discord sign-in is not fully configured''
         else if cfg_require_auth c0 \<and> jwt_secret_current c0 = None
         then Inl ''REQUIRE_AUTH is set but JWT_SECRET_CURRENT is missing''
         else case parse_u8_env env ''LOBBY_DEFAULT_INPUT_DELAY'' 2 of
           Inl e \<Rightarrow> Inl e
         | Inr delay \<Rightarrow>
             (case parse_u8_env env ''LOBBY_DEFAULT_SLOT_COUNT'' 2 of
                Inl e \<Rightarrow> Inl e
              | Inr slots \<Rightarrow>
                  if \<not> (2 \<le> slots \<and> slots \<le> 8)
                  then Inl ''LOBBY_DEFAULT_SLOT_COUNT must be between 2 and 8''
                  else case parse_u32_env env ''LOBBY_PROTOCOL_MAGIC'' DEFAULT_PROTOCOL_MAGIC of
                    Inl e \<Rightarrow> Inl e
                  | Inr magic \<Rightarrow>
                      if parse_flag_env env ''INPUT_RELAY_ENABLED''
                      then Inl ''INPUT_RELAY_ENABLED is set, but server-side match relaying has been removed''
                      else Inr (read_env env delay slots magic)))"

definition effective_database_url :: "Config \<Rightarrow> string" where
  "effective_database_url c = unwrap_or (filter_option (\<lambda>s. s \<noteq> []) (database_url c)) DEFAULT_DATABASE_URL"

definition jwt_verification_keys :: "Config \<Rightarrow> string list" where
  "jwt_verification_keys c =
     (case jwt_secret_current c of Some s \<Rightarrow> [s] | None \<Rightarrow> []) @
     (case jwt_secret_previous c of Some s \<Rightarrow> [s] | None \<Rightarrow> [])"

definition game_allowed :: "Config \<Rightarrow> string \<Rightarrow> bool" where
  "game_allowed c g = (if game_allowlist c = [] then g \<noteq> [] else g \<in> set (game_allowlist c))"

subsection \<open>TURN configuration\<close>

record TurnCredentialConfig =
  turn_secret :: string
  turn_realm :: string
  turn_ttl_secs :: nat
  stun_host :: string
  stun_port :: nat
  turn_host :: string
  turn_port :: nat
  turns_port :: nat

definition env_u16 :: "environment \<Rightarrow> string \<Rightarrow> nat \<Rightarrow> nat" where
  "env_u16 env name d = unwrap_or (Option.bind (env name) (parse_unsigned 65535)) d"

definition turn_from_env :: "environment \<Rightarrow> TurnCredentialConfig option" where
  "turn_from_env env =
     (case (nonempty_env env ''COTURN_STATIC_AUTH_SECRET'', nonempty_env env ''COTURN_HOST'') of
        (Some secret, Some host) \<Rightarrow>
          let stun = unwrap_or (nonempty_env env ''COTURN_STUN_HOST'') host
          in Some \<lparr> turn_secret = secret,
                    turn_realm = unwrap_or (env ''COTURN_REALM'') ''recomp-net'',
                    turn_ttl_secs = parse_u64_env env ''COTURN_CREDENTIAL_TTL_SECS'' 86400,
                    stun_host = stun,
                    stun_port = env_u16 env ''COTURN_STUN_PORT'' 3478,
                    turn_host = unwrap_or (nonempty_env env ''COTURN_TURN_HOST'') stun,
                    turn_port = env_u16 env ''COTURN_TURN_PORT'' 3478,
                    turns_port = env_u16 env ''COTURN_TURNS_PORT'' 5349 \<rparr>
      | _ \<Rightarrow> None)"

text \<open>
  \<^verbatim>\<open>issue_credentials\<close>: the user name is the expiry and the player id, the password their
  HMAC.  \<open>hmac\<close> (the \<^verbatim>\<open>hmac\<close>/\<^verbatim>\<open>sha1\<close>/\<^verbatim>\<open>base64\<close> crates) and the text of a uuid are
  parameters; the addition of the two \<^verbatim>\<open>u64\<close> values wraps.
\<close>

definition issue_credentials ::
    "(string \<Rightarrow> string \<Rightarrow> string) \<Rightarrow> (nat \<Rightarrow> string) \<Rightarrow> nat \<Rightarrow> TurnCredentialConfig \<Rightarrow> nat \<Rightarrow> string \<times> string" where
  "issue_credentials hmac show_uuid now_secs cfg player =
     (let expiry = (now_secs + turn_ttl_secs cfg) mod (u64_max + 1);
          username = show_nat expiry @ '':'' @ show_uuid player
      in (username, hmac (turn_secret cfg) username))"

subsection \<open>What an accepted configuration guarantees\<close>

definition config_ok :: "Config \<Rightarrow> bool" where
  "config_ok c \<longleftrightarrow>
     2 \<le> default_slot_count c \<and> default_slot_count c \<le> 8 \<and> default_input_delay c \<le> 255 \<and>
     cfg_protocol_magic c < 4294967296 \<and> 5 \<le> automatch_accept_secs c \<and>
     1 \<le> metrics_game_label_limit c \<and> metrics_game_label_limit c \<le> 1024 \<and>
     (cfg_require_auth c \<longrightarrow> jwt_verification_keys c \<noteq> []) \<and>
     (cfg_discord_required c \<longrightarrow> jwt_verification_keys c \<noteq> [] \<and> discord_client_id c \<noteq> None \<and>
        discord_client_secret c \<noteq> None \<and> discord_redirect_url c \<noteq> None) \<and>
     list_all (\<lambda>g. g \<noteq> []) (game_allowlist c)"

lemma parse_unsigned_le: "parse_unsigned m s = Some n \<Longrightarrow> n \<le> m"
  by (auto simp: parse_unsigned_def Let_def split: if_splits)

lemma parse_hex_le: "parse_hex m s = Some n \<Longrightarrow> n \<le> m"
  by (auto simp: parse_hex_def Let_def split: if_splits)

lemma parse_u8_env_le: "parse_u8_env env k d = Inr n \<Longrightarrow> d \<le> 255 \<Longrightarrow> n \<le> 255"
  by (auto simp: parse_u8_env_def dest: parse_unsigned_le split: option.splits)

lemma parse_u32_env_le: "parse_u32_env env k d = Inr n \<Longrightarrow> d < 4294967296 \<Longrightarrow> n < 4294967296"
  by (auto simp: parse_u32_env_def Let_def less_Suc_eq_le [symmetric] dest!: parse_unsigned_le parse_hex_le
      split: option.splits)

lemma validation_chain:
  "(if A then Inl e1 else if B then Inl e2
    else case X of Inl e \<Rightarrow> Inl e
      | Inr d \<Rightarrow> (case Y of Inl e \<Rightarrow> Inl e
        | Inr s \<Rightarrow> if \<not> P s then Inl e3
            else case Z of Inl e \<Rightarrow> Inl e | Inr m \<Rightarrow> if W then Inl e4 else Inr (F d s m))) = Inr c \<longleftrightarrow>
   \<not> A \<and> \<not> B \<and> \<not> W \<and> (\<exists>d s m. X = Inr d \<and> Y = Inr s \<and> Z = Inr m \<and> P s \<and> c = F d s m)"
  by (auto split: sum.splits)

lemmas from_env_Inr = from_env_def [unfolded Let_def, THEN arg_cong, of "\<lambda>r. r = Inr c" for c, unfolded validation_chain]

lemma from_env_cases:
  assumes "from_env env = Inr c"
  obtains delay slots magic where
    "c = read_env env delay slots magic" "delay \<le> 255" "2 \<le> slots" "slots \<le> 8" "magic < 4294967296"
    "cfg_discord_required c \<Longrightarrow> discord_client_id c \<noteq> None \<and> discord_client_secret c \<noteq> None \<and>
       discord_redirect_url c \<noteq> None \<and> jwt_secret_current c \<noteq> None"
    "cfg_require_auth c \<Longrightarrow> jwt_secret_current c \<noteq> None"
    "\<not> parse_flag_env env ''INPUT_RELAY_ENABLED''"
proof -
  let ?c0 = "read_env env 0 0 0"
  have same: "cfg_discord_required (read_env env d s m) = cfg_discord_required ?c0"
    "cfg_require_auth (read_env env d s m) = cfg_require_auth ?c0"
    "discord_client_id (read_env env d s m) = discord_client_id ?c0"
    "discord_client_secret (read_env env d s m) = discord_client_secret ?c0"
    "discord_redirect_url (read_env env d s m) = discord_redirect_url ?c0"
    "jwt_secret_current (read_env env d s m) = jwt_secret_current ?c0" for d s m
    by (simp_all add: read_env_def)
  note v = assms [unfolded from_env_Inr]
  have q: "\<not> (cfg_discord_required ?c0 \<and> (discord_client_id ?c0 = None \<or> discord_client_secret ?c0 = None \<or>
        discord_redirect_url ?c0 = None \<or> jwt_secret_current ?c0 = None))"
      "\<not> (cfg_require_auth ?c0 \<and> jwt_secret_current ?c0 = None)"
      "\<not> parse_flag_env env ''INPUT_RELAY_ENABLED''"
    using v by - (elim conjE; assumption)+
  from v obtain delay slots magic where p:
      "parse_u8_env env ''LOBBY_DEFAULT_INPUT_DELAY'' 2 = Inr delay"
      "parse_u8_env env ''LOBBY_DEFAULT_SLOT_COUNT'' 2 = Inr slots"
      "parse_u32_env env ''LOBBY_PROTOCOL_MAGIC'' DEFAULT_PROTOCOL_MAGIC = Inr magic"
      "2 \<le> slots" "slots \<le> 8" "c = read_env env delay slots magic"
    by (elim conjE exE) (rule that)
  show ?thesis
  proof (rule that [OF p(6) _ p(4,5) _ _ _ q(3)])
    show "delay \<le> 255" using parse_u8_env_le [OF p(1)] by simp
    show "magic < 4294967296" using parse_u32_env_le [OF p(3)] by (simp add: DEFAULT_PROTOCOL_MAGIC_def)
  qed (use q(1,2) in \<open>auto simp: p(6) same [of delay slots magic]\<close>)
qed

text \<open>
  C40: a configuration the server starts with is usable.  Its slot count, delay and magic fit
  their protocol fields, an answer window is at least five seconds, the label limit is at least
  one; when sessions are required there is a key to verify them with, and when Discord is
  required its sign-in is complete; and the allowlist never holds the empty game id.
\<close>
theorem accepted_configurations_are_usable:
  assumes "from_env env = Inr c"
  shows "config_ok c"
proof -
  obtain delay slots magic where c: "c = read_env env delay slots magic"
    and b: "delay \<le> 255" "2 \<le> slots" "slots \<le> 8" "magic < 4294967296"
    and d: "cfg_discord_required c \<Longrightarrow> discord_client_id c \<noteq> None \<and> discord_client_secret c \<noteq> None \<and>
       discord_redirect_url c \<noteq> None \<and> jwt_secret_current c \<noteq> None"
    and a: "cfg_require_auth c \<Longrightarrow> jwt_secret_current c \<noteq> None"
    using from_env_cases [OF assms] by metis
  have keys: "jwt_secret_current c \<noteq> None \<Longrightarrow> jwt_verification_keys c \<noteq> []"
    by (auto simp: jwt_verification_keys_def)
  have sizes: "default_slot_count c = slots" "default_input_delay c = delay" "cfg_protocol_magic c = magic"
    "5 \<le> automatch_accept_secs c" "1 \<le> metrics_game_label_limit c" "metrics_game_label_limit c \<le> 1024"
    by (simp_all add: c read_env_def clamp_nat_def)
  have "list_all (\<lambda>g. g \<noteq> []) (game_allowlist c)"
    by (auto simp: c read_env_def comma_list_def list_all_iff split: option.splits)
  then show ?thesis using b d a keys sizes unfolding config_ok_def by metis
qed

lemma env_fields:
  "guest_can_chat (read_env env d s m) = default_true_env env ''GUEST_CAN_CHAT''"
  "guest_can_host (read_env env d s m) = default_true_env env ''GUEST_CAN_HOST''"
  "cfg_discord_required (read_env env d s m) = parse_flag_env env ''DISCORD_REQUIRED''"
  "jwt_secret_current (read_env env d s m) = nonempty_env env ''JWT_SECRET_CURRENT''"
  by (simp_all add: read_env_def)

definition demo_env :: environment where
  "demo_env = map_of [(''REQUIRE_AUTH'', ''on''), (''JWT_SECRET_CURRENT'', ''s3cret''),
     (''LOBBY_DEFAULT_SLOT_COUNT'', ''4'')]"

lemma demo_env_accepted: "from_env demo_env = Inr (read_env demo_env 2 4 0x524E4554)"
proof -
  have "\<not> parse_flag_env demo_env ''DISCORD_REQUIRED''" "\<not> parse_flag_env demo_env ''INPUT_RELAY_ENABLED''"
    by code_simp+
  moreover have "nonempty_env demo_env ''JWT_SECRET_CURRENT'' = Some ''s3cret''"
    "parse_u8_env demo_env ''LOBBY_DEFAULT_INPUT_DELAY'' 2 = Inr 2"
    "parse_u8_env demo_env ''LOBBY_DEFAULT_SLOT_COUNT'' 2 = Inr 4"
    "parse_u32_env demo_env ''LOBBY_PROTOCOL_MAGIC'' DEFAULT_PROTOCOL_MAGIC = Inr 0x524E4554"
    by (simp_all add: parse_u8_env_def parse_u32_env_def nonempty_env_def demo_env_def rust_simps
        DEFAULT_PROTOCOL_MAGIC_def)
  ultimately show ?thesis unfolding from_env_Inr env_fields
    by (intro conjI exI [of _ "2::nat"] exI [of _ "4::nat"] exI [of _ "0x524E4554::nat"]) simp_all
qed

theorem accepted_configurations_are_usable_witness: "config_ok (read_env demo_env 2 4 0x524E4554)"
  by (rule accepted_configurations_are_usable [OF demo_env_accepted])

lemma absent_configuration_is_permissive:
  assumes "from_env (\<lambda>_. None) = Inr c"
  shows "guest_can_chat c \<and> guest_can_host c \<and> \<not> cfg_discord_required c"
proof -
  have "\<not> parse_bool_env []" by code_simp
  then have "\<not> parse_flag_env (\<lambda>_. None) k" for k by (simp add: parse_flag_env_def)
  moreover have "default_true_env (\<lambda>_. None) k" for k by (simp add: default_true_env_def nonblank_env_def)
  moreover obtain d s m where "c = read_env (\<lambda>_. None) d s m" using assms by (rule from_env_cases) (rule that)
  ultimately show ?thesis by (simp only: env_fields) simp
qed

end
