(* ===== verification/Auth.thy ===== *)
theory Auth
  imports Identity Config "HOL-Library.Word"
begin

text \<open>
  Authentication: the one-shot stores and the login of \<^verbatim>\<open>src/discord_auth.rs\<close>, the device
  keys of \<^verbatim>\<open>src/secrets.rs\<close> and the session tokens of \<^verbatim>\<open>src/auth.rs\<close>.  Times are whole
  nanoseconds.  The cryptography is not in the repository: SHA-256, HMAC and the JWT library
  are the parameters \<open>sha\<close>, \<open>hmac\<close>, \<open>enc\<close> and \<open>dec\<close>, the answers of the Discord API are
  arguments, and random codes, uuids and clock readings are arguments too.
\<close>

unbundle bit_operations_syntax

subsection \<open>One-shot codes\<close>

text \<open>
  What both stores promise: a code that has been redeemed is gone, and only minting it again
  brings it back.  \<open>absent k s\<close> says that the store \<open>s\<close> knows nothing of \<open>k\<close>.
\<close>

fun run_ops :: "('op \<Rightarrow> 's \<Rightarrow> 's \<times> 'r option) \<Rightarrow> 'op list \<Rightarrow> 's \<Rightarrow> ('op \<times> 'r option) list" where
  "run_ops step [] s = []"
| "run_ops step (op # ops) s = (op, snd (step op s)) # run_ops step ops (fst (step op s))"

locale one_shot =
  fixes step :: "'op \<Rightarrow> 's \<Rightarrow> 's \<times> 'r option"
    and mints redeems :: "'op \<Rightarrow> 'k option"
    and absent :: "'k \<Rightarrow> 's \<Rightarrow> bool"
  assumes absent_step: "absent k s \<Longrightarrow> mints op \<noteq> Some k \<Longrightarrow> absent k (fst (step op s))"
    and absent_fails: "absent k s \<Longrightarrow> redeems op = Some k \<Longrightarrow> snd (step op s) = None"
    and success_consumes: "redeems op = Some k \<Longrightarrow> snd (step op s) \<noteq> None \<Longrightarrow> absent k (fst (step op s))"
    and redeem_no_mint: "redeems op = Some k \<Longrightarrow> mints op = None"
begin

definition redeemed :: "'k \<Rightarrow> 'op list \<Rightarrow> 's \<Rightarrow> nat" where
  "redeemed k ops s = length (filter (\<lambda>(op, r). redeems op = Some k \<and> r \<noteq> None) (run_ops step ops s))"

lemma redeemed_absent: "absent k s \<Longrightarrow> list_all (\<lambda>op. mints op \<noteq> Some k) ops \<Longrightarrow> redeemed k ops s = 0"
proof (induction ops arbitrary: s)
  case (Cons op ops)
  then have "absent k (fst (step op s))" by (simp add: absent_step)
  with Cons show ?case by (auto simp: redeemed_def absent_fails)
qed (simp add: redeemed_def)

lemma at_most_once: "list_all (\<lambda>op. mints op \<noteq> Some k) ops \<Longrightarrow> redeemed k ops s \<le> 1"
proof (induction ops arbitrary: s)
  case (Cons op ops)
  show ?case
  proof (cases "redeems op = Some k \<and> snd (step op s) \<noteq> None")
    case True
    then have "redeemed k ops (fst (step op s)) = 0"
      using Cons.prems success_consumes by (intro redeemed_absent) auto
    then show ?thesis using True by (simp add: redeemed_def)
  next
    case False
    then have "redeemed k (op # ops) s = redeemed k ops (fst (step op s))"
      by (auto simp: redeemed_def)
    then show ?thesis using Cons by simp
  qed
qed (simp add: redeemed_def)

end

subsection \<open>Challenges\<close>

type_synonym challenge_store = "(string, int) hashmap"

definition NONCE_TTL :: int where
  "NONCE_TTL = 60000000000"

definition challenge_issue :: "int \<Rightarrow> string \<Rightarrow> challenge_store \<Rightarrow> challenge_store \<times> string" where
  "challenge_issue now code g = (AList.update code now (filter (\<lambda>(k, t). now - t < NONCE_TTL) g), code)"

definition challenge_take :: "int \<Rightarrow> string \<Rightarrow> challenge_store \<Rightarrow> challenge_store \<times> bool" where
  "challenge_take now nonce g =
     (AList.delete nonce g, case map_of g nonce of Some t \<Rightarrow> now - t < NONCE_TTL | None \<Rightarrow> False)"

subsection \<open>Logins in flight\<close>

record Completed =
  c_session :: string
  c_netplay_secret :: string
  c_player_id :: nat
  c_handle :: string
  c_discord_username :: string

record PendingLogin =
  started :: int
  outcome :: "(string + Completed) option"

type_synonym login_store = "(string, PendingLogin) hashmap"

definition PENDING_TTL :: int where
  "PENDING_TTL = 600000000000"

definition login_begin :: "int \<Rightarrow> string \<Rightarrow> login_store \<Rightarrow> login_store \<times> string" where
  "login_begin now code g =
     (AList.update code \<lparr> started = now, outcome = None \<rparr> (filter (\<lambda>(k, p). now - started p < PENDING_TTL) g), code)"

definition login_finish :: "string \<Rightarrow> string + Completed \<Rightarrow> login_store \<Rightarrow> login_store" where
  "login_finish code r g = modify code (\<lambda>p. p\<lparr> outcome := Some r \<rparr>) g"

definition login_take :: "int \<Rightarrow> string \<Rightarrow> login_store \<Rightarrow> login_store \<times> (string + Completed) option" where
  "login_take now code g =
     (case map_of g code of
        None \<Rightarrow> (g, None)
      | Some p \<Rightarrow>
          (case outcome p of
             None \<Rightarrow> if now - started p \<ge> PENDING_TTL then (AList.delete code g, Some (Inl ''expired'')) else (g, None)
           | Some r \<Rightarrow> (AList.delete code g, Some r)))"

text \<open>The operations of the two stores as steps of the contract.\<close>

datatype challenge_op = Issue int string | Redeem int string

fun challenge_step :: "challenge_op \<Rightarrow> challenge_store \<Rightarrow> challenge_store \<times> unit option" where
  "challenge_step (Issue now c) g = (fst (challenge_issue now c g), None)"
| "challenge_step (Redeem now c) g =
     (case challenge_take now c g of (g', ok) \<Rightarrow> (g', if ok then Some () else None))"

fun challenge_mints :: "challenge_op \<Rightarrow> string option" where
  "challenge_mints (Issue now c) = Some c"
| "challenge_mints (Redeem now c) = None"

fun challenge_redeems :: "challenge_op \<Rightarrow> string option" where
  "challenge_redeems (Issue now c) = None"
| "challenge_redeems (Redeem now c) = Some c"

datatype login_op = Begin int string | Finish string "string + Completed" | Poll int string

fun login_step :: "login_op \<Rightarrow> login_store \<Rightarrow> login_store \<times> (string + Completed) option" where
  "login_step (Begin now c) g = (fst (login_begin now c g), None)"
| "login_step (Finish c r) g = (login_finish c r g, None)"
| "login_step (Poll now c) g = login_take now c g"

fun login_mints :: "login_op \<Rightarrow> string option" where
  "login_mints (Begin now c) = Some c"
| "login_mints (Finish c r) = None"
| "login_mints (Poll now c) = None"

fun login_redeems :: "login_op \<Rightarrow> string option" where
  "login_redeems (Begin now c) = None"
| "login_redeems (Finish c r) = None"
| "login_redeems (Poll now c) = Some c"

definition no_code :: "string \<Rightarrow> (string, 'v) hashmap \<Rightarrow> bool" where
  "no_code k g \<longleftrightarrow> k \<notin> fst ` set g"

lemma no_code_map_of: "no_code k g \<longleftrightarrow> map_of g k = None"
  by (simp add: no_code_def map_of_eq_None_iff)

lemma no_code_filter: "no_code k g \<Longrightarrow> no_code k (filter P g)"
  by (auto simp: no_code_def)

interpretation challenge: one_shot challenge_step challenge_mints challenge_redeems no_code
proof
  fix k g op
  show "no_code k g \<Longrightarrow> challenge_mints op \<noteq> Some k \<Longrightarrow> no_code k (fst (challenge_step op g))"
    using no_code_filter [of k g] by (cases op) (auto simp: challenge_issue_def challenge_take_def no_code_map_of)
  show "no_code k g \<Longrightarrow> challenge_redeems op = Some k \<Longrightarrow> snd (challenge_step op g) = None"
    by (cases op) (auto simp: challenge_take_def no_code_map_of)
  show "challenge_redeems op = Some k \<Longrightarrow> snd (challenge_step op g) \<noteq> None \<Longrightarrow> no_code k (fst (challenge_step op g))"
    by (cases op) (auto simp: challenge_take_def no_code_map_of)
  show "challenge_redeems op = Some k \<Longrightarrow> challenge_mints op = None"
    by (cases op) auto
qed

interpretation login: one_shot login_step login_mints login_redeems no_code
proof
  fix k g op
  show "no_code k g \<Longrightarrow> login_mints op \<noteq> Some k \<Longrightarrow> no_code k (fst (login_step op g))"
    using no_code_filter [of k g]
    by (cases op) (auto simp: login_begin_def login_take_def login_finish_def no_code_map_of map_of_modify
        split: option.splits)
  show "no_code k g \<Longrightarrow> login_redeems op = Some k \<Longrightarrow> snd (login_step op g) = None"
    by (cases op) (auto simp: login_take_def no_code_map_of)
  show "login_redeems op = Some k \<Longrightarrow> snd (login_step op g) \<noteq> None \<Longrightarrow> no_code k (fst (login_step op g))"
    by (cases op) (auto simp: login_take_def no_code_map_of split: option.splits if_splits)
  show "login_redeems op = Some k \<Longrightarrow> login_mints op = None"
    by (cases op) auto
qed

text \<open>
  C14: a nonce is good for one proof and a pairing code for one login.  In any sequence of
  operations on a store that does not draw the same random code again, redeeming it succeeds
  at most once.
\<close>
theorem codes_are_redeemed_at_most_once:
  assumes "list_all (\<lambda>op. challenge_mints op \<noteq> Some nonce) cops"
    and "list_all (\<lambda>op. login_mints op \<noteq> Some code) lops"
  shows "length (filter (\<lambda>(op, r). challenge_redeems op = Some nonce \<and> r \<noteq> None)
            (run_ops challenge_step cops cs)) \<le> 1 \<and>
         length (filter (\<lambda>(op, r). login_redeems op = Some code \<and> r \<noteq> None) (run_ops login_step lops ls)) \<le> 1"
  using challenge.at_most_once [OF assms(1), of cs] login.at_most_once [OF assms(2), of ls]
  by (simp add: challenge.redeemed_def login.redeemed_def)

theorem codes_are_redeemed_at_most_once_witness:
  "length (filter (\<lambda>(op, r). challenge_redeems op = Some ''n'' \<and> r \<noteq> None)
     (run_ops challenge_step [Redeem 5 ''n'', Issue 6 ''m'', Redeem 7 ''n''] [(''n'', 0)])) \<le> 1 \<and>
   length (filter (\<lambda>(op, r). login_redeems op = Some ''c'' \<and> r \<noteq> None)
     (run_ops login_step [Finish ''c'' (Inl ''x''), Poll 7 ''c'', Poll 8 ''c'']
        [(''c'', \<lparr> started = 0, outcome = None \<rparr>)])) \<le> 1"
  by (rule codes_are_redeemed_at_most_once) simp_all

subsection \<open>Device keys\<close>

record SecretRow =
  s_id :: nat
  s_player :: nat
  secret_hash :: string
  s_label :: string
  last_used_at :: "int option"
  revoked_at :: "int option"

type_synonym secrets = "SecretRow list"

definition issue_secret :: "(string \<Rightarrow> string) \<Rightarrow> nat \<Rightarrow> string \<Rightarrow> nat \<Rightarrow> string \<Rightarrow> secrets \<Rightarrow> string + (secrets \<times> string)" where
  "issue_secret sha row_id random_hex player label t =
     (let secret = ''rnp_'' @ random_hex;
          lab = of_chars (take 64 (filter (\<lambda>c. \<not> is_control c) (chars label)))
      in if list_ex (\<lambda>r. secret_hash r = sha secret \<or> s_id r = row_id) t then Inl ''UNIQUE constraint failed''
         else Inr (t @ [\<lparr> s_id = row_id, s_player = player, secret_hash = sha secret, s_label = trim lab,
                          last_used_at = None, revoked_at = None \<rparr>], secret))"

definition byte :: "char \<Rightarrow> 8 word" where
  "byte c = word_of_nat (of_char c)"

definition ct_eq :: "string \<Rightarrow> string \<Rightarrow> bool" where
  "ct_eq a b =
     (if length a \<noteq> length b then False
      else foldl (\<lambda>acc (x, y). acc OR (byte x XOR byte y)) 0 (zip a b) = 0)"

definition live_verifiers :: "nat \<Rightarrow> secrets \<Rightarrow> string list" where
  "live_verifiers player t = map secret_hash (filter (\<lambda>r. s_player r = player \<and> revoked_at r = None) t)"

definition touch :: "int \<Rightarrow> string \<Rightarrow> secrets \<Rightarrow> secrets" where
  "touch now v t = map (\<lambda>r. if secret_hash r = v then r\<lparr> last_used_at := Some now \<rparr> else r) t"

definition verify_proof ::
    "(string \<Rightarrow> string \<Rightarrow> string) \<Rightarrow> int \<Rightarrow> players \<Rightarrow> nat \<Rightarrow> string \<Rightarrow> string \<Rightarrow> secrets \<Rightarrow> secrets \<times> (string + Player)" where
  "verify_proof hmac now pl player nonce proof t =
     (case foldl (\<lambda>m v. if ct_eq (hmac v nonce) proof then Some v else m) None (live_verifiers player t) of
        None \<Rightarrow> (t, Inl ''invalid_secret'')
      | Some v \<Rightarrow>
          (touch now v t, case load_player pl player of None \<Rightarrow> Inl ''invalid_secret'' | Some p \<Rightarrow> Inr p))"

definition revoke_where :: "int \<Rightarrow> (SecretRow \<Rightarrow> bool) \<Rightarrow> secrets \<Rightarrow> secrets" where
  "revoke_where now P t = map (\<lambda>r. if P r then r\<lparr> revoked_at := Some now \<rparr> else r) t"

definition revoke_by_proof ::
    "(string \<Rightarrow> string \<Rightarrow> string) \<Rightarrow> int \<Rightarrow> nat \<Rightarrow> string \<Rightarrow> string \<Rightarrow> secrets \<Rightarrow> secrets \<times> bool" where
  "revoke_by_proof hmac now player nonce proof t =
     (case List.find (\<lambda>v. ct_eq (hmac v nonce) proof) (live_verifiers player t) of
        Some v \<Rightarrow> (revoke_where now (\<lambda>r. secret_hash r = v) t, True)
      | None \<Rightarrow> (t, False))"

definition redeem ::
    "(string \<Rightarrow> string) \<Rightarrow> int \<Rightarrow> players \<Rightarrow> string \<Rightarrow> secrets \<Rightarrow> secrets \<times> (string + Player)" where
  "redeem sha now pl secret t =
     (case List.find (\<lambda>r. secret_hash r = sha secret \<and> revoked_at r = None) t of
        None \<Rightarrow> (t, Inl ''invalid_secret'')
      | Some r \<Rightarrow>
          (touch now (sha secret) t,
           case load_player pl (s_player r) of None \<Rightarrow> Inl ''invalid_secret'' | Some p \<Rightarrow> Inr p))"

definition revoke :: "(string \<Rightarrow> string) \<Rightarrow> int \<Rightarrow> string \<Rightarrow> secrets \<Rightarrow> secrets \<times> bool" where
  "revoke sha now secret t =
     (let P = (\<lambda>r. secret_hash r = sha secret \<and> revoked_at r = None)
      in (revoke_where now P t, length (filter P t) > 0))"

definition revoke_all :: "int \<Rightarrow> nat \<Rightarrow> secrets \<Rightarrow> secrets \<times> nat" where
  "revoke_all now player t =
     (let P = (\<lambda>r. s_player r = player \<and> revoked_at r = None)
      in (revoke_where now P t, length (filter P t)))"

lemma byte_inj: "byte x = byte y \<longleftrightarrow> x = y"
proof
  assume "byte x = byte y"
  then have "unat (byte x) = unat (byte y)" by simp
  moreover have "(of_char c :: nat) < 2 ^ 8" for c :: char using nat_of_char_less_256 [of c] by simp
  ultimately have "of_char x = (of_char y :: nat)"
    by (simp add: byte_def unat_of_nat take_bit_nat_eq_self)
  then show "x = y" by simp
qed simp

lemma xor_zero_iff: "x XOR y = 0 \<longleftrightarrow> x = (y :: 8 word)"
  by (metis xor_self_eq xor.assoc xor.right_neutral xor.commute)

lemma or_zero_iff: "x OR y = 0 \<longleftrightarrow> x = 0 \<and> y = (0 :: 8 word)"
  by (auto simp: bit_eq_iff bit_simps)

lemma fold_or_zero:
  "foldl (\<lambda>acc (x, y). acc OR (byte x XOR byte y)) acc ps = 0 \<longleftrightarrow> acc = 0 \<and> list_all (\<lambda>(x, y). x = y) ps"
proof (induction ps arbitrary: acc)
  case (Cons p ps)
  obtain x y where p: "p = (x, y)" by force
  show ?case unfolding p foldl.simps prod.case Cons.IH or_zero_iff xor_zero_iff byte_inj list.pred_inject
    by blast
qed simp

lemma ct_eq_is_equal: "ct_eq a b \<longleftrightarrow> a = b"
proof (cases "length a = length b")
  case True
  then have "list_all (\<lambda>(x, y). x = y) (zip a b) \<longleftrightarrow> a = b"
    by (induction rule: list_induct2) auto
  then show ?thesis using True by (simp add: ct_eq_def fold_or_zero)
qed (auto simp: ct_eq_def)

text \<open>
  The constant-time comparison is equality.  Folding the exclusive-or of the bytes into
  an 8-bit accumulator gives zero exactly on equal strings.
\<close>
theorem ct_eq_is_equality: "ct_eq a b \<longleftrightarrow> a = b"
  by (rule ct_eq_is_equal)

subsection \<open>What a key can do\<close>

lemma foldl_last_match:
  "foldl (\<lambda>m v. if P v then Some v else m) m vs = Some v \<Longrightarrow> m = Some v \<or> v \<in> set vs \<and> P v"
  by (induction vs arbitrary: m) (fastforce split: if_splits)+

lemma foldl_last_match_None:
  "foldl (\<lambda>m v. if P v then Some v else m) m vs = None \<longleftrightarrow> m = None \<and> (\<forall>v \<in> set vs. \<not> P v)"
  by (induction vs arbitrary: m) auto

lemma in_live_verifiers:
  "v \<in> set (live_verifiers player t) \<longleftrightarrow>
     (\<exists>r \<in> set t. s_player r = player \<and> revoked_at r = None \<and> secret_hash r = v)"
  by (auto simp: live_verifiers_def)

lemma verify_proof_accepts:
  "snd (verify_proof hmac now pl player nonce proof t) = Inr p \<longleftrightarrow>
     (\<exists>v \<in> set (live_verifiers player t). hmac v nonce = proof) \<and> load_player pl player = Some p"
proof (cases "foldl (\<lambda>m v. if ct_eq (hmac v nonce) proof then Some v else m) None (live_verifiers player t)")
  case None
  then have "\<not> (\<exists>v \<in> set (live_verifiers player t). hmac v nonce = proof)"
    by (auto simp: foldl_last_match_None ct_eq_is_equal)
  then show ?thesis by (simp add: verify_proof_def None)
next
  case (Some v)
  then have "\<exists>v \<in> set (live_verifiers player t). hmac v nonce = proof"
    using foldl_last_match [OF Some] by (auto simp: ct_eq_is_equal)
  then show ?thesis by (auto simp: verify_proof_def Some split: option.splits)
qed

lemma live_verifiers_touch: "live_verifiers player (touch now v t) = live_verifiers player t"
  by (induction t) (auto simp: live_verifiers_def touch_def)

lemma live_verifiers_revoke:
  "live_verifiers player (revoke_where now P t) = live_verifiers player (filter (\<lambda>r. \<not> P r) t)"
  by (induction t) (auto simp: live_verifiers_def revoke_where_def)

lemma revoke_by_proof_live:
  assumes "revoke_by_proof hmac now player nonce proof t = (t', True)"
  shows "\<exists>v \<in> set (live_verifiers player t). hmac v nonce = proof \<and>
    live_verifiers player t' = filter (\<lambda>w. w \<noteq> v) (live_verifiers player t)"
proof -
  obtain v where v: "List.find (\<lambda>v. ct_eq (hmac v nonce) proof) (live_verifiers player t) = Some v"
    "t' = revoke_where now (\<lambda>r. secret_hash r = v) t"
    using assms by (auto simp: revoke_by_proof_def split: option.splits)
  have "v \<in> set (live_verifiers player t)" "hmac v nonce = proof"
    using v(1) by (auto simp: find_Some_iff ct_eq_is_equal)
  moreover have "live_verifiers player t' = filter (\<lambda>w. w \<noteq> v) (live_verifiers player t)"
    unfolding v(2) live_verifiers_revoke by (induction t) (auto simp: live_verifiers_def)
  ultimately show ?thesis by blast
qed


definition demo_keys :: secrets where
  "demo_keys = [\<lparr> s_id = 0, s_player = 7, secret_hash = ''h1'', s_label = [], last_used_at = None, revoked_at = None \<rparr>,
                \<lparr> s_id = 2, s_player = 7, secret_hash = ''h2'', s_label = [], last_used_at = None, revoked_at = None \<rparr>]"


subsection \<open>Sessions\<close>

record SessionClaims =
  sub :: nat
  iat :: int
  exp :: int

datatype AuthError = SigningNotConfigured | Encode string | InvalidToken

definition DEFAULT_TTL_SECS :: int where
  "DEFAULT_TTL_SECS = 45 * 60"

definition issue_session_token ::
    "(string \<Rightarrow> SessionClaims \<Rightarrow> string + 'tok) \<Rightarrow> int \<Rightarrow> Config \<Rightarrow> nat \<Rightarrow> AuthError + 'tok" where
  "issue_session_token enc now cfg player =
     (case jwt_secret_current cfg of
        None \<Rightarrow> Inl SigningNotConfigured
      | Some secret \<Rightarrow>
          (case enc secret \<lparr> sub = player, iat = now, exp = now + DEFAULT_TTL_SECS \<rparr> of
             Inl e \<Rightarrow> Inl (Encode e) | Inr t \<Rightarrow> Inr t))"

definition verify_session_token ::
    "(string \<Rightarrow> int \<Rightarrow> 'tok \<Rightarrow> SessionClaims option) \<Rightarrow> int \<Rightarrow> Config \<Rightarrow> 'tok \<Rightarrow> AuthError + SessionClaims" where
  "verify_session_token dec now cfg token =
     (let keys = jwt_verification_keys cfg
      in if keys = [] then Inl SigningNotConfigured
         else case List.find (\<lambda>k. dec k now token \<noteq> None) keys of
                None \<Rightarrow> Inl InvalidToken
              | Some k \<Rightarrow> (case dec k now token of Some c \<Rightarrow> Inr c | None \<Rightarrow> Inl InvalidToken))"

text \<open>
  C29: a session token names its player for as long as its key is known.  With a JWT library
  that decodes exactly the unexpired tokens encoded with the same key, a token issued by one
  configuration verifies under another exactly when that one still holds the signing key,
  as current or as previous, and the token is not expired; it then carries the player.
\<close>
theorem session_round_trip:
  assumes jwt: "\<And>k k' c now t. enc k' c = Inr t \<Longrightarrow>
      dec k now t = (if k = k' \<and> now \<le> exp c + leeway then Some c else None)"
    and issued: "issue_session_token enc now cfg player = Inr t"
  shows "case verify_session_token dec later cfg2 t of
      Inr c \<Rightarrow> sub c = player \<and> later \<le> now + DEFAULT_TTL_SECS + leeway \<and>
        the (jwt_secret_current cfg) \<in> set (jwt_verification_keys cfg2)
    | Inl e \<Rightarrow> e \<noteq> Encode m \<and> (the (jwt_secret_current cfg) \<notin> set (jwt_verification_keys cfg2) \<or>
        later > now + DEFAULT_TTL_SECS + leeway)"
proof -
  let ?c = "\<lparr> sub = player, iat = now, exp = now + DEFAULT_TTL_SECS \<rparr>"
  obtain secret where secret: "jwt_secret_current cfg = Some secret" "enc secret ?c = Inr t"
    using issued by (auto simp: issue_session_token_def split: option.splits sum.splits)
  let ?keys = "jwt_verification_keys cfg2"
  have dec: "dec k later t = (if k = secret \<and> later \<le> now + DEFAULT_TTL_SECS + leeway then Some ?c else None)" for k
    using jwt [OF secret(2)] by simp
  show ?thesis
  proof (cases "List.find (\<lambda>k. dec k later t \<noteq> None) ?keys")
    case None
    then have "secret \<in> set ?keys \<Longrightarrow> dec secret later t = None" by (auto simp: find_None_iff)
    then have "secret \<notin> set ?keys \<or> later > now + DEFAULT_TTL_SECS + leeway"
      using dec [of secret] by (auto split: if_splits)
    then show ?thesis using None secret(1) by (simp add: verify_session_token_def Let_def)
  next
    case (Some k)
    then have "k \<in> set ?keys" "dec k later t \<noteq> None" by (auto simp: find_Some_iff)
    then show ?thesis using Some secret(1) dec
      by (auto simp: verify_session_token_def Let_def split: if_splits)
  qed
qed

definition demo_cfg :: Config where
  "demo_cfg = read_env demo_env 2 4 0x524E4554"

theorem session_round_trip_witness:
  "case verify_session_token (\<lambda>k now (k', c). if k = k' \<and> now \<le> exp c + 60 then Some c else None) 100
       demo_cfg (''s3cret'', \<lparr> sub = 9, iat = 50, exp = 50 + DEFAULT_TTL_SECS \<rparr>) of
      Inr c \<Rightarrow> sub c = 9 \<and> 100 \<le> 50 + DEFAULT_TTL_SECS + 60 \<and>
        the (jwt_secret_current demo_cfg) \<in> set (jwt_verification_keys demo_cfg)
    | Inl e \<Rightarrow> e \<noteq> Encode [] \<and> (the (jwt_secret_current demo_cfg) \<notin> set (jwt_verification_keys demo_cfg) \<or>
        100 > 50 + DEFAULT_TTL_SECS + 60)"
proof (rule session_round_trip [of "\<lambda>k c. Inr (k, c)"])
  have "jwt_secret_current demo_cfg = Some ''s3cret''"
    unfolding demo_cfg_def env_fields by code_simp
  then show "issue_session_token (\<lambda>k c. Inr (k, c)) 50 demo_cfg 9
      = Inr (''s3cret'', \<lparr> sub = 9, iat = 50, exp = 50 + DEFAULT_TTL_SECS \<rparr>)"
    by (simp add: issue_session_token_def)
qed auto

subsection \<open>The Discord login\<close>

definition policy_from_config :: "Config \<Rightarrow> GuestPolicy" where
  "policy_from_config c = \<lparr> discord_required = cfg_discord_required c, can_chat = guest_can_chat c, can_host = guest_can_host c \<rparr>"

definition unreserved :: "char \<Rightarrow> bool" where
  "unreserved c =
     (let b = of_char c :: nat
      in 65 \<le> b \<and> b \<le> 90 \<or> 97 \<le> b \<and> b \<le> 122 \<or> 48 \<le> b \<and> b \<le> 57 \<or> c \<in> set ''-_.~'')"

definition upper_hex_digit :: "nat \<Rightarrow> char" where
  "upper_hex_digit d = char_of (if d < 10 then 48 + d else 55 + d)"

definition urlencode :: "string \<Rightarrow> string" where
  "urlencode s = concat (map (\<lambda>c. if unreserved c then [c]
     else [CHR ''%'', upper_hex_digit (of_char c div 16), upper_hex_digit (of_char c mod 16)]) s)"

definition authorize_url :: "Config \<Rightarrow> string \<Rightarrow> string + string" where
  "authorize_url cfg state =
     (case discord_client_id cfg of
        None \<Rightarrow> Inl ''DISCORD_CLIENT_ID not set''
      | Some cid \<Rightarrow>
          (case discord_redirect_url cfg of
             None \<Rightarrow> Inl ''DISCORD_REDIRECT_URL not set''
           | Some redirect \<Rightarrow>
               Inr (''https://discord.com/api/v10/oauth2/authorize?client_id='' @ cid @
                    ''&response_type=code&redirect_uri='' @ urlencode redirect @ ''&scope='' @
                    (if discord_guild_id cfg \<noteq> None then ''identify%20guilds.members.read'' else ''identify'') @
                    ''&state='' @ state)))"

text \<open>The three requests \<^verbatim>\<open>complete\<close> sends to Discord: each answer is an error context or the
  decoded reply; the membership answer is the success of its status code.\<close>

record DiscordApi =
  api_token :: "string \<Rightarrow> string + string"
  api_me :: "string \<Rightarrow> string + DiscordProfile"
  api_guild_member :: "string \<Rightarrow> string \<Rightarrow> string + bool"

text \<open>The draws and the clock one login uses.\<close>

record LoginDraws =
  ld_now :: int
  ld_player_id :: nat
  ld_token_hash :: string
  ld_secret_id :: nat
  ld_secret_hex :: string

definition required_settings :: "Config \<Rightarrow> string + unit" where
  "required_settings cfg =
     (if discord_client_id cfg = None then Inl ''DISCORD_CLIENT_ID not set''
      else if discord_client_secret cfg = None then Inl ''DISCORD_CLIENT_SECRET not set''
      else if discord_redirect_url cfg = None then Inl ''DISCORD_REDIRECT_URL not set''
      else Inr ())"

definition discord_profile_of :: "DiscordApi \<Rightarrow> Config \<Rightarrow> string \<Rightarrow> string + DiscordProfile" where
  "discord_profile_of api cfg code =
     (case required_settings cfg of Inl e \<Rightarrow> Inl e | Inr _ \<Rightarrow>
        (case api_token api code of Inl e \<Rightarrow> Inl e | Inr token \<Rightarrow>
           (case api_me api token of Inl e \<Rightarrow> Inl e | Inr me \<Rightarrow>
              (case discord_guild_id cfg of
                 None \<Rightarrow> Inr me
               | Some guild \<Rightarrow>
                   (case api_guild_member api token guild of
                      Inl e \<Rightarrow> Inl e
                    | Inr is_in \<Rightarrow> if is_in then Inr me else Inl ''not_in_guild'')))))"

definition complete ::
    "(string \<Rightarrow> SessionClaims \<Rightarrow> string + string) \<Rightarrow> (string \<Rightarrow> string) \<Rightarrow> ChatFilter \<Rightarrow> DiscordApi \<Rightarrow> LoginDraws
     \<Rightarrow> Config \<Rightarrow> string \<Rightarrow> players \<times> secrets \<Rightarrow> (players \<times> secrets) \<times> (string + Completed)" where
  "complete enc sha f api d cfg code db =
     (case discord_profile_of api cfg code of
        Inl e \<Rightarrow> (db, Inl e)
      | Inr profile \<Rightarrow>
          let (pl, player) = link_discord f (nat (ld_now d)) (ld_player_id d) (ld_token_hash d) profile (fst db)
          in (case issue_session_token enc (ld_now d) cfg (pl_id player) of
                Inl e \<Rightarrow> ((pl, snd db), Inl ''session_signing'')
              | Inr session \<Rightarrow>
                  (case issue_secret sha (ld_secret_id d) (ld_secret_hex d) (pl_id player) [] (snd db) of
                     Inl e \<Rightarrow> ((pl, snd db), Inl ''database: issuing the device key'')
                   | Inr (ks, secret) \<Rightarrow>
                       ((pl, ks),
                        Inr \<lparr> c_session = session, c_netplay_secret = secret, c_player_id = pl_id player,
                              c_handle = pl_handle player, c_discord_username = pl_discord_username player \<rparr>))))"

definition on_callback ::
    "(string \<Rightarrow> SessionClaims \<Rightarrow> string + string) \<Rightarrow> (string \<Rightarrow> string) \<Rightarrow> ChatFilter \<Rightarrow> DiscordApi \<Rightarrow> LoginDraws
     \<Rightarrow> Config \<Rightarrow> string \<Rightarrow> string \<Rightarrow> (players \<times> secrets) \<times> login_store
     \<Rightarrow> ((players \<times> secrets) \<times> login_store) \<times> (string + Completed)" where
  "on_callback enc sha f api d cfg state code w =
     (case complete enc sha f api d cfg code (fst w) of
        (db, r) \<Rightarrow> ((db, login_finish state r (snd w)), r))"

lemma login_guarded_by_guild:
  "discord_profile_of api cfg code = Inr me \<Longrightarrow> discord_guild_id cfg = Some g \<Longrightarrow>
   \<exists>tok. api_token api code = Inr tok \<and> api_guild_member api tok g = Inr True"
  by (auto simp: discord_profile_of_def split: sum.splits if_splits)

text \<open>
  C35: a pairing code yields what the login earned, once.  If the launcher's code is pending
  when the callback lands, the next poll hands over exactly the callback's result and the code
  is gone; and with a guild configured, a result that is a session means Discord answered that
  the account is a member of that guild.
\<close>
theorem callback_reaches_the_launcher:
  assumes "map_of (snd w) code = Some p"
    and "on_callback enc sha f api d cfg code oauth w = (w', r)"
  shows "login_take now code (snd w') = (AList.delete code (snd w'), Some r) \<and>
    login_take later code (AList.delete code (snd w')) = (AList.delete code (snd w'), None) \<and>
    (case r of Inl e \<Rightarrow> True
     | Inr c \<Rightarrow> (case discord_guild_id cfg of None \<Rightarrow> True
               | Some g \<Rightarrow> \<exists>tok. api_token api oauth = Inr tok \<and> api_guild_member api tok g = Inr True))"
proof -
  obtain db where c: "complete enc sha f api d cfg oauth (fst w) = (db, r)"
    and w': "snd w' = login_finish code r (snd w)"
    using assms(2) by (auto simp: on_callback_def split: prod.splits)
  have "map_of (snd w') code = Some (p\<lparr> outcome := Some r \<rparr>)"
    using assms(1) by (simp add: w' login_finish_def)
  then have "login_take now code (snd w') = (AList.delete code (snd w'), Some r)"
    "login_take later code (AList.delete code (snd w')) = (AList.delete code (snd w'), None)"
    by (simp_all add: login_take_def)
  moreover have "\<exists>tok. api_token api oauth = Inr tok \<and> api_guild_member api tok g = Inr True"
    if "r = Inr x" "discord_guild_id cfg = Some g" for x g
  proof -
    note r = that
    obtain me where "discord_profile_of api cfg oauth = Inr me"
      using c r(1) by (auto simp: complete_def split: sum.splits)
    then show ?thesis using login_guarded_by_guild r(2) by blast
  qed
  ultimately show ?thesis by (auto split: sum.splits option.splits)
qed

theorem callback_reaches_the_launcher_witness:
  "login_take 9 ''c'' [(''c'', \<lparr> started = 0, outcome = Some (Inl ''DISCORD_CLIENT_ID not set'') \<rparr>)]
     = ([], Some (Inl ''DISCORD_CLIENT_ID not set''))"
proof -
  let ?w = "(([], []), [(''c'', \<lparr> started = 0, outcome = None \<rparr>)]) :: (players \<times> secrets) \<times> login_store"
  let ?api = "\<lparr> api_token = (\<lambda>_. Inl []), api_me = (\<lambda>_. Inl []), api_guild_member = (\<lambda>_ _. Inl []) \<rparr>"
  let ?d = "\<lparr> ld_now = 0, ld_player_id = 2, ld_token_hash = [], ld_secret_id = 3, ld_secret_hex = [] \<rparr>"
  let ?cfg = "demo_cfg\<lparr> discord_client_id := None \<rparr>"
  let ?r = "Inl ''DISCORD_CLIENT_ID not set''"
  have m: "map_of (snd ?w) ''c'' = Some \<lparr> started = 0, outcome = None \<rparr>" by simp
  have "on_callback (\<lambda>_ _. Inl []) (\<lambda>s. s) demo_filter ?api ?d ?cfg ''c'' ''x'' ?w
     = ((([], []), login_finish ''c'' ?r (snd ?w)), ?r)"
    by (simp add: on_callback_def complete_def discord_profile_of_def required_settings_def)
  from callback_reaches_the_launcher [OF m this, of 9] show ?thesis
    by (simp add: login_finish_def)
qed

end
