(* ===== verification/Fifo.thy ===== *)
theory Fifo
  imports Prelude
begin

text \<open>
  The contract of the two bounded queues of the server, the signal mailboxes
  (\<^verbatim>\<open>src/signal.rs\<close>) and the chat ring (\<^verbatim>\<open>src/ws_lobby.rs\<close>): appending to a full queue drops
  its oldest entry.  What a client relies on is that the queue always holds the last entries
  appended, in order.
\<close>

definition last_n :: "nat \<Rightarrow> 'a list \<Rightarrow> 'a list" where
  "last_n n xs = drop (length xs - n) xs"

lemma last_n_short [simp]: "length xs \<le> n \<Longrightarrow> last_n n xs = xs"
  by (simp add: last_n_def)

lemma length_last_n: "length (last_n n xs) = min n (length xs)"
  by (simp add: last_n_def)

lemma last_n_snoc: "0 < n \<Longrightarrow> last_n n (last_n n xs @ [x]) = last_n n (xs @ [x])"
proof (cases "length xs < n")
  case False
  assume "0 < n"
  then have "Suc (length xs) - n = Suc (length xs - n)" using False by simp
  then show ?thesis using False \<open>0 < n\<close> by (simp add: last_n_def drop_Suc tl_drop drop_append)
qed (simp add: last_n_def)

locale bounded_fifo =
  fixes push :: "'a \<Rightarrow> 'a list \<Rightarrow> 'a list"
    and cap :: nat
  assumes cap_pos: "0 < cap"
    and push_room: "length q < cap \<Longrightarrow> push x q = q @ [x]"
    and push_full: "length q = cap \<Longrightarrow> push x q = tl q @ [x]"
begin

lemma push_eq: "length q \<le> cap \<Longrightarrow> push x q = last_n cap (q @ [x])"
  using push_room [of q x] push_full [of q x] cap_pos
  by (cases "length q < cap") (auto simp: last_n_def drop_Suc)

lemma push_bounded: "length q \<le> cap \<Longrightarrow> length (push x q) \<le> cap"
  by (simp add: push_eq length_last_n)

lemma push_newest: "length q \<le> cap \<Longrightarrow> last (push x q) = x \<and> push x q \<noteq> []"
  by (cases "length q < cap") (auto simp: push_room push_full)

lemma push_subset: "length q \<le> cap \<Longrightarrow> set (push x q) \<subseteq> insert x (set q)"
  by (cases "length q < cap") (auto simp: push_room push_full intro: list.set_sel(2))

lemma push_all: "length q \<le> cap \<Longrightarrow> foldl (\<lambda>q x. push x q) q xs = last_n cap (q @ xs)"
proof (induction xs arbitrary: q)
  case Nil
  then show ?case by simp
next
  case (Cons x xs)
  have snoc: "foldl (\<lambda>q x. push x q) (last_n cap ys) zs = last_n cap (ys @ zs)" for ys zs
  proof (induction zs rule: rev_induct)
    case (snoc z zs)
    then show ?case using cap_pos
      by (simp add: push_eq length_last_n last_n_snoc flip: append_assoc)
  qed simp
  show ?case using snoc [of q "x # xs"] Cons.prems by simp
qed

lemma push_all_fits: "length q + length xs \<le> cap \<Longrightarrow> foldl (\<lambda>q x. push x q) q xs = q @ xs"
  by (simp add: push_all)

end

end
