(* ===== verification/Hub.thy ===== *)
theory Hub
  imports Lobby Auth Fifo "HOL-Library.List_Lexorder" "HOL-Library.Char_ord"
begin

text \<open>
  The WebSocket hub (\<^verbatim>\<open>src/ws_lobby.rs\<close>): connected clients, lobbies, the chat ring and the
  messages sent.  A handler is a function on \<open>Hub\<close>; where the source takes the hub lock
  several times within one handler, the model runs the whole handler at once.  \<open>h_out\<close> is
  the sequence of messages handed to the clients' channels, as JSON values with their
  receivers; what a call draws on (the clocks, fresh uuids, the salt, the hash, the JWT library,
  the player table, the configuration) is in \<open>HubEnv\<close>.
\<close>

subsection \<open>State\<close>

definition MAX_SLOTS :: nat where [rust_simps]: "MAX_SLOTS = 8"
definition MAX_LOBBIES :: nat where [rust_simps]: "MAX_LOBBIES = 64"
definition MAX_SPECTATORS :: nat where [rust_simps]: "MAX_SPECTATORS = 4"
definition SIGNAL_BURST :: rat where "SIGNAL_BURST = 60"
definition SIGNAL_PER_SEC :: rat where "SIGNAL_PER_SEC = 60"

record SignalBucket =
  bk_tokens :: rat
  bk_last :: "ns option"

definition new_bucket :: SignalBucket where
  "new_bucket = \<lparr> bk_tokens = SIGNAL_BURST, bk_last = None \<rparr>"

definition bucket_allow :: "ns \<Rightarrow> SignalBucket \<Rightarrow> SignalBucket \<times> bool" where
  "bucket_allow now b =
     (let tokens = (case bk_last b of
                      None \<Rightarrow> bk_tokens b
                    | Some t0 \<Rightarrow>
                        min (bk_tokens b + of_int (max (now - t0) 0) / 1000000000 * SIGNAL_PER_SEC) SIGNAL_BURST)
      in if tokens \<ge> 1 then (\<lparr> bk_tokens = tokens - 1, bk_last = Some now \<rparr>, True)
         else (\<lparr> bk_tokens = tokens, bk_last = Some now \<rparr>, False))"

record ClientMeta =
  cl_display :: string
  cl_account :: "Player option"
  cl_peer_ip :: string
  cl_country :: string
  cl_game :: string
  cl_lobby :: "string option"
  cl_pending_mod :: "string option"
  cl_blocks :: "string list"
  cl_probe_rtt :: int
  cl_bucket :: SignalBucket

record ChatLine =
  ch_id :: string
  ch_from_account :: string
  ch_from_name :: string
  ch_text :: string
  ch_scope :: string
  ch_lobby :: string
  ch_game :: string

record Hub =
  h_require_login :: bool
  h_clients :: "(string, ClientMeta) hashmap"
  h_lobbies :: "(string, Lobby) hashmap"
  h_next_session :: nat
  h_chat_ring :: "ChatLine list"
  h_next_chat_id :: nat
  h_probe_grants :: "(string \<times> string, ns) hashmap"
  h_out :: "(string \<times> json) list"

record HubEnv =
  e_now :: ns
  e_uuid :: "nat \<Rightarrow> string"
  e_salt :: string
  e_hash :: "string \<Rightarrow> string \<Rightarrow> string"
  e_json_len :: "json \<Rightarrow> nat"
  e_filter :: ChatFilter
  e_lower :: "string \<Rightarrow> string"
  e_config :: Config
  e_players :: players
  e_unix :: nat
  e_jwt :: "string \<Rightarrow> int \<Rightarrow> string \<Rightarrow> SessionClaims option"
  e_vars :: environment
  e_hmac :: "string \<Rightarrow> string \<Rightarrow> string"
  e_parse_uuid :: "string \<Rightarrow> nat option"

definition empty_hub :: "bool \<Rightarrow> Hub" where
  "empty_hub req = \<lparr> h_require_login = req, h_clients = [], h_lobbies = [], h_next_session = 1, h_chat_ring = [],
     h_next_chat_id = 1, h_probe_grants = [], h_out = [] \<rparr>"

definition account_id :: "ClientMeta \<Rightarrow> string" where
  "account_id c = (case cl_account c of Some p \<Rightarrow> uuid_text (pl_id p) | None \<Rightarrow> [])"

text \<open>Updates of one client and one lobby, the \<^verbatim>\<open>get_mut\<close>s of the source, and sending.\<close>

definition upd_client :: "string \<Rightarrow> (ClientMeta \<Rightarrow> ClientMeta) \<Rightarrow> Hub \<Rightarrow> Hub" where
  "upd_client p f g = g\<lparr> h_clients := modify p f (h_clients g) \<rparr>"

definition upd_lobby :: "string \<Rightarrow> (Lobby \<Rightarrow> Lobby) \<Rightarrow> Hub \<Rightarrow> Hub" where
  "upd_lobby lid f g = g\<lparr> h_lobbies := modify lid f (h_lobbies g) \<rparr>"

definition client :: "Hub \<Rightarrow> string \<Rightarrow> ClientMeta option" where
  "client g p = map_of (h_clients g) p"

definition lobby :: "Hub \<Rightarrow> string \<Rightarrow> Lobby option" where
  "lobby g lid = map_of (h_lobbies g) lid"

definition send_to :: "string \<Rightarrow> json \<Rightarrow> Hub \<Rightarrow> Hub" where
  "send_to p msg g = (if client g p = None then g else g\<lparr> h_out := h_out g @ [(p, msg)] \<rparr>)"

definition send_all :: "string list \<Rightarrow> json \<Rightarrow> Hub \<Rightarrow> Hub" where
  "send_all ps msg g = foldl (\<lambda>g p. send_to p msg g) g ps"

definition err_json :: "string \<Rightarrow> json" where
  "err_json code = JObj [(''op'', JStr ''error''), (''code'', JStr code), (''ok'', JBool False)]"

definition refuse :: "string \<Rightarrow> string \<Rightarrow> Hub \<Rightarrow> Hub" where
  "refuse p code = send_to p (err_json code)"

subsection \<open>The chat ring\<close>

definition CHAT_RING_MAX :: nat where [rust_simps]: "CHAT_RING_MAX = 1000"
definition CHAT_CONTEXT_LINES :: nat where [rust_simps]: "CHAT_CONTEXT_LINES = 6"

function pop_while :: "ChatLine list \<Rightarrow> ChatLine list" where
  "pop_while ring = (if length ring > CHAT_RING_MAX then pop_while (tl ring) else ring)"
  by pat_completeness auto
termination
  by (relation "measure length") (auto simp: CHAT_RING_MAX_def)

declare pop_while.simps [simp del]

definition ring_push :: "ChatLine \<Rightarrow> ChatLine list \<Rightarrow> ChatLine list" where
  "ring_push line ring = pop_while (ring @ [line])"

lemma pop_while_eq: "pop_while ring = last_n CHAT_RING_MAX ring"
proof (induction ring rule: pop_while.induct)
  case (1 ring)
  show ?case
  proof (cases "length ring > CHAT_RING_MAX")
    case True
    then have "Suc (length ring - 1 - CHAT_RING_MAX) = length ring - CHAT_RING_MAX" by linarith
    then have "last_n CHAT_RING_MAX (tl ring) = last_n CHAT_RING_MAX ring"
      by (simp add: last_n_def drop_Suc [symmetric])
    then show ?thesis using 1 True by (subst pop_while.simps) simp
  qed (subst pop_while.simps, simp)
qed

interpretation ring: bounded_fifo ring_push CHAT_RING_MAX
proof
  show "0 < CHAT_RING_MAX" by (simp add: CHAT_RING_MAX_def)
  fix q :: "ChatLine list" and x
  show "length q < CHAT_RING_MAX \<Longrightarrow> ring_push x q = q @ [x]"
    by (simp add: ring_push_def pop_while_eq)
  assume "length q = CHAT_RING_MAX"
  moreover have "q \<noteq> []" if "length q = CHAT_RING_MAX" using that by (auto simp: CHAT_RING_MAX_def)
  moreover have "Suc 0 - CHAT_RING_MAX = 0" by (simp add: CHAT_RING_MAX_def)
  ultimately show "ring_push x q = tl q @ [x]"
    by (simp add: ring_push_def pop_while_eq last_n_def drop_Suc)
qed

definition remember_chat ::
    "string \<Rightarrow> string \<Rightarrow> string \<Rightarrow> string \<Rightarrow> string \<Rightarrow> string \<Rightarrow> Hub \<Rightarrow> Hub \<times> string" where
  "remember_chat acct name text scope lid game g =
     (let i = show_hex (h_next_chat_id g)
      in (g\<lparr> h_next_chat_id := h_next_chat_id g + 1,
             h_chat_ring := ring_push \<lparr> ch_id = i, ch_from_account = acct, ch_from_name = name, ch_text = text,
                ch_scope = scope, ch_lobby = lid, ch_game = game \<rparr> (h_chat_ring g) \<rparr>, i))"


definition chat_with_context :: "string \<Rightarrow> Hub \<Rightarrow> (ChatLine \<times> string) option" where
  "chat_with_context mid g =
     (case position (\<lambda>l. ch_id l = mid) (h_chat_ring g) of
        None \<Rightarrow> None
      | Some i \<Rightarrow>
          let line = h_chat_ring g ! i;
              start = i - CHAT_CONTEXT_LINES;
              before = drop start (take i (h_chat_ring g))
          in Some (line,
               join_with [char_of (10::nat)] (map (\<lambda>l. ch_from_name l @ '': '' @ ch_text l)
                 (filter (\<lambda>l. ch_scope l = ch_scope line \<and> ch_lobby l = ch_lobby line) before))))"

subsection \<open>Blocks and scopes\<close>

definition blocked_between :: "Hub \<Rightarrow> string \<Rightarrow> string \<Rightarrow> bool" where
  "blocked_between g a b =
     (case (client g a, client g b) of
        (Some ca, Some cb) \<Rightarrow>
          account_id cb \<noteq> [] \<and> account_id cb \<in> set (cl_blocks ca) \<or>
          account_id ca \<noteq> [] \<and> account_id ca \<in> set (cl_blocks cb)
      | _ \<Rightarrow> False)"

definition account_of :: "Hub \<Rightarrow> string \<Rightarrow> string" where
  "account_of g p = (case client g p of Some c \<Rightarrow> account_id c | None \<Rightarrow> [])"

definition game_scope_for :: "Hub \<Rightarrow> string \<Rightarrow> string" where
  "game_scope_for g p =
     (case client g p of
        None \<Rightarrow> []
      | Some c \<Rightarrow>
          if cl_game c \<noteq> [] then cl_game c
          else (case Option.bind (cl_lobby c) (lobby g) of Some l \<Rightarrow> lb_game l | None \<Rightarrow> []))"

lemma blocked_between_sym: "blocked_between g a b = blocked_between g b a"
  by (auto simp: blocked_between_def split: option.splits)

subsection \<open>What is sent\<close>

definition jfield :: "string \<Rightarrow> json option \<Rightarrow> (string \<times> json) list" where
  "jfield k v = (case v of None \<Rightarrow> [] | Some x \<Rightarrow> [(k, x)])"

definition slot_json :: "ns \<Rightarrow> nat \<Rightarrow> Slot \<Rightarrow> string \<Rightarrow> json" where
  "slot_json now i s acct = JObj
     ([(''slot'', jnat i), (''player_id'', JStr (sl_player s)), (''account'', JStr acct),
       (''display_name'', JStr (sl_display s)), (''ready'', JBool (sl_ready s))] @
      jfield ''bios_offer'' (sl_bios s) @ jfield ''mod_offer'' (sl_mod s) @ jfield ''memcard_offer'' (sl_memcard s) @
      (if sl_country s \<noteq> [] then [(''country'', JStr (sl_country s))] else []) @
      (case sl_ice_path s of None \<Rightarrow> []
       | Some path \<Rightarrow> [(''path'', JStr path), (''path_fresh'', JBool (path_fresh now s))]))"

definition seats_json :: "ns \<Rightarrow> Hub \<Rightarrow> (nat \<Rightarrow> nat) \<Rightarrow> Slot option list \<Rightarrow> json" where
  "seats_json now g number xs = JArr (List.map_filter
     (\<lambda>(i, s). map_option (\<lambda>s. slot_json now (number i) s (account_of g (sl_player s))) s) (enumerate 0 xs))"

definition lobby_row_shown :: "string option \<Rightarrow> string option \<Rightarrow> Lobby \<Rightarrow> bool" where
  "lobby_row_shown fgame fversion l \<longleftrightarrow>
     \<not> lb_automatch l \<and>
     (case fgame of Some q \<Rightarrow> q = [] \<or> lb_game l = q | None \<Rightarrow> True) \<and>
     (case fversion of Some v \<Rightarrow> v = [] \<or> lb_version l = v | None \<Rightarrow> True)"

definition lobby_row :: "Hub \<Rightarrow> Lobby \<Rightarrow> json" where
  "lobby_row g l = JObj
     [(''lobby_id'', JStr (lb_id l)), (''name'', JStr (lb_name l)), (''game_name'', JStr (lb_game l)),
      (''game_version'', JStr (lb_version l)), (''player_count'', jnat (player_count l)),
      (''max_slots'', jnat (lb_max_slots l)), (''has_password'', JBool (lb_password_hash l \<noteq> None)),
      (''lobby_kind'', JInt (unwrap_or (Option.bind (lb_match_caps l) (field as_i64 ''lobby_kind'')) 0)),
      (''host_endpoint'', JStr (lb_host_endpoint l)), (''lan_endpoints'', JArr (map JStr (lb_lan_endpoints l))),
      (''host_country'', JStr (case slot_of_player l (lb_host l) of Some s \<Rightarrow> sl_country s | None \<Rightarrow> [])),
      (''allow_spectators'', JBool (lb_allow_spectators l)), (''max_spectators'', jnat (length (lb_spectators l))),
      (''spectator_count'', jnat (spectator_count l)),
      (''host_rtt_ms'', JInt (case client g (lb_host l) of Some c \<Rightarrow> cl_probe_rtt c | None \<Rightarrow> -1))]"

definition player_tag :: "string \<Rightarrow> string" where
  "player_tag p = of_chars (take 8 (chars p))"

definition player_row :: "Hub \<Rightarrow> string \<times> ClientMeta \<Rightarrow> json" where
  "player_row g pc =
     (let (p, c) = pc; l = Option.bind (cl_lobby c) (lobby g) in JObj
        [(''display_name'', JStr (cl_display c)), (''country'', JStr (cl_country c)),
         (''lobby_id'', JStr (case l of Some l \<Rightarrow> lb_id l | None \<Rightarrow> [])),
         (''lobby_name'', JStr (case l of Some l \<Rightarrow> lb_name l | None \<Rightarrow> [])),
         (''hosting'', JBool (case l of Some l \<Rightarrow> lb_host l = p | None \<Rightarrow> False)),
         (''tag'', JStr (player_tag p)), (''account'', JStr (account_id c)), (''game_name'', JStr (cl_game c))])"

definition shown_players :: "HubEnv \<Rightarrow> Hub \<Rightarrow> string option \<Rightarrow> (string \<times> ClientMeta) list" where
  "shown_players e g fgame =
     sort_key (\<lambda>(p, c). e_lower e (cl_display c))
       (filter (\<lambda>(p, c). (h_require_login g \<longrightarrow> cl_account c \<noteq> None) \<and>
          (case fgame of Some q \<Rightarrow> q = [] \<or> cl_game c = q | None \<Rightarrow> True)) (h_clients g))"

definition list_message :: "Hub \<Rightarrow> Lobby list \<Rightarrow> (string \<times> ClientMeta) list \<Rightarrow> json" where
  "list_message g ls ps = JObj
     [(''op'', JStr ''lobby_list''), (''lobbies'', JArr (map (lobby_row g) ls)), (''players'', JArr (map (player_row g) ps))]"

definition lobby_list_json_filtered :: "HubEnv \<Rightarrow> Hub \<Rightarrow> string option \<Rightarrow> string option \<Rightarrow> json" where
  "lobby_list_json_filtered e g fgame fversion =
     list_message g (filter (lobby_row_shown fgame fversion) (vals (h_lobbies g))) (shown_players e g fgame)"

definition scope_filter :: "string \<Rightarrow> string option" where
  "scope_filter scope = (if scope = [] then None else Some scope)"

text \<open>The list one client is pushed each second: without the rooms of hosts, and without the
  players, on either side of a block.  The source filters the rows of the finished message by
  the ids they carry; the model filters what the rows are made from.\<close>

definition hidden_player :: "Hub \<Rightarrow> string \<Rightarrow> string \<Rightarrow> bool" where
  "hidden_player g me tag \<longleftrightarrow>
     \<not> (client g me \<noteq> None \<and> take (length tag) me = tag) \<and>
     (case List.find (\<lambda>(k, c). take (length tag) k = tag) (h_clients g) of
        None \<Rightarrow> False | Some (other, _) \<Rightarrow> blocked_between g me other)"

definition hidden_lobby :: "Hub \<Rightarrow> string \<Rightarrow> Lobby \<Rightarrow> bool" where
  "hidden_lobby g me l \<longleftrightarrow>
     (case lobby g (lb_id l) of None \<Rightarrow> False | Some l' \<Rightarrow> blocked_between g me (lb_host l'))"

definition lobby_list_json_for :: "HubEnv \<Rightarrow> Hub \<Rightarrow> string \<Rightarrow> json" where
  "lobby_list_json_for e g me =
     (let fgame = scope_filter (game_scope_for g me)
      in list_message g (filter (\<lambda>l. \<not> hidden_lobby g me l) (filter (lobby_row_shown fgame None) (vals (h_lobbies g))))
           (filter (\<lambda>(p, c). \<not> hidden_player g me (player_tag p)) (shown_players e g fgame)))"

definition broadcast_list :: "HubEnv \<Rightarrow> Hub \<Rightarrow> Hub" where
  "broadcast_list e g =
     foldl (\<lambda>h (p, c). if h_require_login g \<and> cl_account c = None then h
              else send_to p (lobby_list_json_filtered e g (scope_filter (game_scope_for g p)) None) h) g (h_clients g)"

definition all_ready :: "Lobby \<Rightarrow> bool" where
  "all_ready l \<longleftrightarrow> list_all sl_ready (somes (lb_slots l)) \<and> player_count l \<ge> 2"

definition lobby_update_json :: "ns \<Rightarrow> Hub \<Rightarrow> Lobby \<Rightarrow> json" where
  "lobby_update_json now g l = JObj
     ([(''op'', JStr ''lobby_update''), (''lobby_id'', JStr (lb_id l)), (''session_id'', jnat (lb_session_id l)),
       (''host_endpoint'', JStr (lb_host_endpoint l)), (''lan_endpoints'', JArr (map JStr (lb_lan_endpoints l))),
       (''guest_endpoint'', JStr (lb_guest_endpoint l)), (''player_count'', jnat (player_count l)),
       (''max_slots'', jnat (lb_max_slots l)), (''host_player_id'', JStr (lb_host l)),
       (''all_ready'', JBool (all_ready l)), (''slots'', seats_json now g (\<lambda>i. i) (lb_slots l)),
       (''allow_spectators'', JBool (lb_allow_spectators l)), (''max_spectators'', jnat (length (lb_spectators l))),
       (''spectator_count'', jnat (spectator_count l)), (''spectator_slot_base'', jnat SPECTATOR_SLOT_BASE),
       (''spectators'', seats_json now g spectator_seat (lb_spectators l))] @
      jfield ''match_caps'' (lb_match_caps l))"

definition emit_lobby_update :: "HubEnv \<Rightarrow> string \<Rightarrow> Hub \<Rightarrow> Hub" where
  "emit_lobby_update e lid g =
     (case lobby g lid of None \<Rightarrow> g | Some l \<Rightarrow> send_all (member_ids l) (lobby_update_json (e_now e) g l) g)"

definition lobby_count :: "Hub \<Rightarrow> nat" where
  "lobby_count g = length (h_lobbies g)"

definition match_count :: "Hub \<Rightarrow> nat" where
  "match_count g = length (filter lb_started (vals (h_lobbies g)))"

subsection \<open>The rate limit\<close>

text \<open>\<open>run_bucket\<close> counts the calls a bucket allows at the given times.\<close>

fun run_bucket :: "ns list \<Rightarrow> SignalBucket \<Rightarrow> nat" where
  "run_bucket [] b = 0"
| "run_bucket (t # ts) b = (case bucket_allow t b of (b', ok) \<Rightarrow> (if ok then 1 else 0) + run_bucket ts b')"

definition bucket_ok :: "SignalBucket \<Rightarrow> bool" where
  "bucket_ok b \<longleftrightarrow> 0 \<le> bk_tokens b \<and> bk_tokens b \<le> SIGNAL_BURST"

definition refill :: "ns \<Rightarrow> ns \<Rightarrow> rat" where
  "refill a b = of_int (b - a) / 1000000000 * SIGNAL_PER_SEC"

lemma bucket_allow_ok:
  assumes "bucket_ok b" "bucket_allow t b = (b', ok)"
  shows "bucket_ok b' \<and> bk_last b' = Some t \<and>
    (\<forall>t0. bk_last b = Some t0 \<longrightarrow> t0 \<le> t \<longrightarrow> bk_tokens b' + (if ok then 1 else 0) \<le> bk_tokens b + refill t0 t) \<and>
    (bk_last b = None \<longrightarrow> bk_tokens b' + (if ok then 1 else 0) \<le> bk_tokens b)"
proof (cases "bk_last b")
  case None
  then show ?thesis using assms by (auto simp: bucket_ok_def bucket_allow_def Let_def split: if_splits)
next
  case (Some t0)
  define r where "r = of_int (max (t - t0) 0) / 1000000000 * SIGNAL_PER_SEC"
  have "0 \<le> r" by (simp add: r_def SIGNAL_PER_SEC_def)
  moreover have "t0 \<le> t \<Longrightarrow> r = refill t0 t" by (simp add: r_def refill_def)
  moreover have "bucket_allow t b = (let tokens = min (bk_tokens b + r) SIGNAL_BURST in
      if tokens \<ge> 1 then (\<lparr> bk_tokens = tokens - 1, bk_last = Some t \<rparr>, True)
      else (\<lparr> bk_tokens = tokens, bk_last = Some t \<rparr>, False))"
    unfolding bucket_allow_def r_def Some by simp
  ultimately show ?thesis using assms Some
    by (auto simp: bucket_ok_def SIGNAL_BURST_def Let_def min_def split: if_splits)
qed

lemma run_bucket_bound:
  "bucket_ok b \<Longrightarrow> bk_last b = Some t0 \<Longrightarrow> sorted (t0 # ts) \<Longrightarrow>
   of_nat (run_bucket ts b) \<le> bk_tokens b + refill t0 (last (t0 # ts))"
proof (induction ts arbitrary: b t0)
  case Nil
  then show ?case by (simp add: bucket_ok_def refill_def)
next
  case (Cons t ts)
  obtain b' ok where a: "bucket_allow t b = (b', ok)" by force
  have le: "t0 \<le> t" using Cons.prems(3) by simp
  note ba = bucket_allow_ok [OF Cons.prems(1) a]
  have "of_nat (run_bucket ts b') \<le> bk_tokens b' + refill t (last (t # ts))"
    using Cons ba by simp
  moreover have "bk_tokens b' + (if ok then 1 else 0) \<le> bk_tokens b + refill t0 t"
    using ba Cons.prems(2) le by blast
  moreover have "refill t0 t + refill t (last (t # ts)) = refill t0 (last (t # ts))"
    by (simp add: refill_def diff_divide_distrib add_divide_distrib algebra_simps)
  ultimately show ?case by (auto simp: a)
qed



end
