(* ===== verification/Room_Edits.thy ===== *)
theory Room_Edits
  imports Lobby
begin

text \<open>
  What the room operations of \<^verbatim>\<open>src/ws_lobby.rs\<close> do to one lobby, without the messages:
  moving and swapping seats, readiness and offers, path reports, endpoints, caps, and taking a
  player in or out.  An operation that may be refused is a function into \<open>string + Lobby\<close>.
  \<open>lobby_ok\<close> is the invariant of a lobby, and the locale \<open>roster_op\<close> the contract of the
  operations that leave everybody in the room.
\<close>

subsection \<open>Seats\<close>

definition occupant :: "Lobby \<Rightarrow> nat \<Rightarrow> Slot option" where
  "occupant l n = (case seat l n of Some x \<Rightarrow> x | None \<Rightarrow> None)"

text \<open>The two take/put sequences: \<open>swap_seats\<close> exchanges two seats, \<open>put_in_seat\<close> moves one.\<close>

definition swap_seats :: "nat \<Rightarrow> nat \<Rightarrow> Lobby \<Rightarrow> Lobby" where
  "swap_seats i j l =
     (let a = occupant l i; l1 = set_seat i None l;
          b = occupant l1 j; l2 = set_seat j None l1
      in set_seat i b (set_seat j a l2))"

definition put_in_seat :: "nat \<Rightarrow> nat \<Rightarrow> Lobby \<Rightarrow> Lobby" where
  "put_in_seat i j l = (let a = occupant l i in set_seat j a (set_seat i None l))"

text \<open>The loops over the players' seats alone.\<close>

definition map_players :: "(Slot \<Rightarrow> Slot) \<Rightarrow> Lobby \<Rightarrow> Lobby" where
  "map_players f l = l\<lparr> lb_slots := map (map_option f) (lb_slots l) \<rparr>"

definition unready_players :: "Lobby \<Rightarrow> Lobby" where
  "unready_players = map_players (\<lambda>s. s\<lparr> sl_ready := False \<rparr>)"

text \<open>The loops that stop at the first seat of a player, in both tables or in the players'.\<close>

fun upd_first :: "string \<Rightarrow> (Slot \<Rightarrow> Slot) \<Rightarrow> Slot option list \<Rightarrow> Slot option list" where
  "upd_first p f [] = []"
| "upd_first p f (s # xs) = (if occupied_by p s then map_option f s # xs else s # upd_first p f xs)"

definition upd_member :: "string \<Rightarrow> (Slot \<Rightarrow> Slot) \<Rightarrow> Lobby \<Rightarrow> Lobby" where
  "upd_member p f l =
     (if list_ex (occupied_by p) (lb_slots l) then l\<lparr> lb_slots := upd_first p f (lb_slots l) \<rparr>
      else l\<lparr> lb_spectators := upd_first p f (lb_spectators l) \<rparr>)"

subsection \<open>The operations\<close>

definition move_op :: "string \<Rightarrow> nat \<Rightarrow> nat \<Rightarrow> Lobby \<Rightarrow> string + Lobby" where
  "move_op p i j l =
     (if lb_host l \<noteq> p then Inl ''not_host''
      else if seat l i = None \<or> seat l j = None then Inl ''bad_slot''
      else if occupant l i = None then Inl ''empty_slot''
      else Inr (clear_ice_paths (unready_players (swap_seats i j l))))"

definition seat_move_op :: "string \<Rightarrow> nat \<Rightarrow> Lobby \<Rightarrow> string + Lobby" where
  "seat_move_op p j l =
     (case seat_of l p of
        None \<Rightarrow> Inl ''not_seated''
      | Some i \<Rightarrow>
          if seat l j = None \<or> i = j then Inl ''bad_slot''
          else if occupant l j \<noteq> None then Inl ''slot_taken''
          else Inr (clear_ice_paths (unready_players (put_in_seat i j l))))"

definition swap_op :: "nat \<Rightarrow> nat \<Rightarrow> Lobby \<Rightarrow> Lobby" where
  "swap_op mine theirs l =
     (let l1 = unready_players (swap_seats mine theirs l)
      in if is_spectator_seat mine \<noteq> is_spectator_seat theirs then clear_ice_paths l1 else l1)"

definition answer_op :: "string \<Rightarrow> string \<Rightarrow> bool \<Rightarrow> Lobby \<Rightarrow> unit + Lobby" where
  "answer_op p asker accept l =
     (case (seat_of l p, seat_of l asker) of
        (Some mine, Some theirs) \<Rightarrow> if \<not> accept \<or> mine = theirs then Inl () else Inr (swap_op mine theirs l)
      | _ \<Rightarrow> Inl ())"

definition ready_op ::
    "string \<Rightarrow> bool \<Rightarrow> json option \<Rightarrow> json option \<Rightarrow> json option \<Rightarrow> Lobby \<Rightarrow> string + Lobby" where
  "ready_op p ready bios mods memcard l =
     (let is_player = (case seat_of l p of Some n \<Rightarrow> \<not> is_spectator_seat n | None \<Rightarrow> True)
      in Inr (upd_member p (\<lambda>s. s\<lparr> sl_ready := (if is_player then ready else sl_ready s),
             sl_bios := or_option bios (sl_bios s), sl_mod := or_option mods (sl_mod s),
             sl_memcard := or_option memcard (sl_memcard s) \<rparr>) l))"

definition path_op :: "ns \<Rightarrow> string \<Rightarrow> string \<Rightarrow> Lobby \<Rightarrow> string + Lobby" where
  "path_op now p kind l =
     (if list_ex (occupied_by p) (lb_slots l)
      then Inr (l\<lparr> lb_slots := upd_first p (\<lambda>s. s\<lparr> sl_ice_path := Some kind, sl_ice_path_at := Some now \<rparr>) (lb_slots l) \<rparr>)
      else Inl ''not_in_lobby'')"

definition endpoint_op :: "string \<Rightarrow> string \<Rightarrow> string list option \<Rightarrow> Lobby \<Rightarrow> string + Lobby" where
  "endpoint_op p endpoint lan l =
     (if lb_host l \<noteq> p then Inl ''not_host''
      else let l1 = (if lb_host_endpoint l \<noteq> endpoint \<and> \<not> caps_relay_via_ice (lb_match_caps l)
                     then map_players (\<lambda>s. s\<lparr> sl_ice_path := None, sl_ice_path_at := None \<rparr>) l else l)
           in Inr (l1\<lparr> lb_host_endpoint := endpoint, lb_lan_endpoints := sanitize_lan_endpoints lan \<rparr>))"

definition caps_op :: "string \<Rightarrow> json option \<Rightarrow> Lobby \<Rightarrow> string + Lobby" where
  "caps_op p caps l = (if lb_host l \<noteq> p then Inl ''not_host'' else Inr (l\<lparr> lb_match_caps := caps \<rparr>))"

text \<open>The commit of a start, and a rename of one member.\<close>

definition start_commit :: "json option \<Rightarrow> nat \<Rightarrow> Lobby \<Rightarrow> Lobby" where
  "start_commit fresh sid l =
     unready_players (l\<lparr> lb_match_caps := or_option fresh (lb_match_caps l), lb_session_id := sid, lb_started := True \<rparr>)"

definition rename_op :: "string \<Rightarrow> string \<Rightarrow> Lobby \<Rightarrow> Lobby" where
  "rename_op p name l = upd_member p (\<lambda>s. s\<lparr> sl_display := name \<rparr>) l"

text \<open>Seating a joiner, and emptying the seats of one who leaves or is kicked.\<close>

definition players_full :: "Lobby \<Rightarrow> bool" where
  "players_full l \<longleftrightarrow> player_count l \<ge> lb_max_slots l \<or> list_all (\<lambda>s. s \<noteq> None) (lb_slots l)"

definition free_seat :: "Lobby \<Rightarrow> nat option" where
  "free_seat l =
     (if \<not> players_full l then position (\<lambda>s. s = None) (lb_slots l)
      else map_option spectator_seat (position (\<lambda>s. s = None) (lb_spectators l)))"

definition new_slot :: "string \<Rightarrow> string \<Rightarrow> string \<Rightarrow> Slot" where
  "new_slot p name country = \<lparr> sl_player = p, sl_display = name, sl_ready = False, sl_bios = None, sl_mod = None,
     sl_memcard = None, sl_country = country, sl_ice_path = None, sl_ice_path_at = None \<rparr>"

definition seat_joiner :: "nat \<Rightarrow> string \<Rightarrow> string \<Rightarrow> string \<Rightarrow> string \<Rightarrow> Lobby \<Rightarrow> Lobby" where
  "seat_joiner n p name country guest l =
     (clear_ice_paths (unready_players (set_seat n (Some (new_slot p name country)) l)))\<lparr> lb_guest_endpoint := guest \<rparr>"

definition vacate :: "string \<Rightarrow> Slot option \<Rightarrow> Slot option" where
  "vacate p s = (if occupied_by p s then None else s)"

definition leave_op :: "string \<Rightarrow> Lobby \<Rightarrow> Lobby" where
  "leave_op p l = clear_ice_paths (l\<lparr> lb_slots := map (vacate p) (lb_slots l),
     lb_spectators := map (vacate p) (lb_spectators l), lb_guest_endpoint := [] \<rparr>)"

definition kick_op :: "nat \<Rightarrow> Lobby \<Rightarrow> Lobby" where
  "kick_op n l = clear_ice_paths (unready_players ((set_seat n None l)\<lparr> lb_guest_endpoint := [] \<rparr>))"

subsection \<open>The invariant\<close>

definition roster :: "Lobby \<Rightarrow> (string \<times> string) multiset" where
  "roster l = mset (map (\<lambda>s. (sl_player s, sl_display s)) (everyone l))"

definition lobby_ok :: "Lobby \<Rightarrow> bool" where
  "lobby_ok l \<longleftrightarrow>
     length (lb_slots l) = lb_max_slots l \<and> 2 \<le> lb_max_slots l \<and> lb_max_slots l \<le> 8 \<and>
     length (lb_spectators l) \<le> 4 \<and>
     distinct (member_ids l) \<and> distinct (map sl_display (everyone l)) \<and>
     (lb_automatch l \<or> lb_host l \<in> set (member_ids l))"

definition same_shape :: "Lobby \<Rightarrow> Lobby \<Rightarrow> bool" where
  "same_shape l l' \<longleftrightarrow>
     lb_id l' = lb_id l \<and> lb_host l' = lb_host l \<and> lb_automatch l' = lb_automatch l \<and> lb_max_slots l' = lb_max_slots l \<and>
     length (lb_slots l') = length (lb_slots l) \<and> length (lb_spectators l') = length (lb_spectators l)"

definition same_roster :: "Lobby \<Rightarrow> Lobby \<Rightarrow> bool" where
  "same_roster l l' \<longleftrightarrow> same_shape l l' \<and> roster l' = roster l"

lemma same_roster_trans: "same_roster a b \<Longrightarrow> same_roster b c \<Longrightarrow> same_roster a c"
  by (simp add: same_roster_def same_shape_def)

lemma same_roster_refl [simp]: "same_roster l l"
  by (simp add: same_roster_def same_shape_def)

lemma mset_member_ids: "mset (member_ids l) = image_mset fst (roster l)"
  by (simp add: member_ids_def roster_def multiset.map_comp o_def)

lemma mset_displays: "mset (map sl_display (everyone l)) = image_mset snd (roster l)"
  by (simp add: roster_def multiset.map_comp o_def)

lemma roster_eqD:
  assumes "roster l' = roster l"
  shows "set (member_ids l') = set (member_ids l)" "distinct (member_ids l') = distinct (member_ids l)"
    "distinct (map sl_display (everyone l')) = distinct (map sl_display (everyone l))"
proof -
  have m: "mset (member_ids l') = mset (member_ids l)"
    and d: "mset (map sl_display (everyone l')) = mset (map sl_display (everyone l))"
    by (simp_all only: mset_member_ids mset_displays assms)
  show "set (member_ids l') = set (member_ids l)" by (rule mset_eq_setD [OF m])
  show "distinct (member_ids l') = distinct (member_ids l)" by (rule mset_eq_imp_distinct_iff [OF m])
  show "distinct (map sl_display (everyone l')) = distinct (map sl_display (everyone l))"
    by (rule mset_eq_imp_distinct_iff [OF d])
qed

lemma lobby_ok_same_roster:
  assumes "lobby_ok l" "same_roster l l'"
  shows "lobby_ok l'"
proof -
  have "roster l' = roster l" using assms(2) by (simp add: same_roster_def)
  note r = roster_eqD [OF this]
  show ?thesis using assms unfolding lobby_ok_def same_roster_def same_shape_def r by simp
qed

text \<open>The contract of an operation that neither adds nor removes a member.\<close>

locale roster_op =
  fixes op :: "Lobby \<Rightarrow> 'e + Lobby"
  assumes keeps_roster: "lobby_ok l \<Longrightarrow> op l = Inr l' \<Longrightarrow> same_roster l l'"
begin

lemma keeps_ok: "lobby_ok l \<Longrightarrow> op l = Inr l' \<Longrightarrow> lobby_ok l'"
  by (rule lobby_ok_same_roster [OF _ keeps_roster])

lemma keeps_members: "lobby_ok l \<Longrightarrow> op l = Inr l' \<Longrightarrow> set (member_ids l') = set (member_ids l)"
  by (rule roster_eqD(1)) (drule (1) keeps_roster, simp add: same_roster_def)

lemma keeps_identity:
  "lobby_ok l \<Longrightarrow> op l = Inr l' \<Longrightarrow> lb_id l' = lb_id l \<and> lb_host l' = lb_host l \<and> lb_automatch l' = lb_automatch l"
  by (drule (1) keeps_roster) (simp add: same_roster_def same_shape_def)

end

subsection \<open>The operations meet the contract\<close>

definition opt_mset :: "'a option \<Rightarrow> 'a multiset" where
  "opt_mset x = (case x of None \<Rightarrow> {#} | Some s \<Rightarrow> {#s#})"

lemma somes_update:
  "i < length xs \<Longrightarrow> mset (somes (xs[i := y])) + opt_mset (xs ! i) = mset (somes xs) + opt_mset y"
proof (induction xs arbitrary: i rule: somes.induct)
  case (2 xs)
  then show ?case by (cases i) (auto simp: opt_mset_def split: option.splits)
next
  case (3 x xs)
  then show ?case by (cases i) (auto simp: opt_mset_def split: option.splits)
qed simp

lemma everyone_set_seat:
  "seat l n = Some old \<Longrightarrow> mset (everyone (set_seat n x l)) + opt_mset old = mset (everyone l) + opt_mset x"
  using somes_update [of "n - SPECTATOR_SLOT_BASE" "lb_spectators l" x] somes_update [of n "lb_slots l" x]
  by (auto simp: seat_def set_seat_def everyone_def Let_def split: if_splits)

lemma seat_in_everyone: "seat l n = Some (Some s) \<Longrightarrow> s \<in> set (everyone l)"
  unfolding in_everyone seat_def Let_def by (metis nth_mem option.inject option.distinct(1))

lemma seat_set_seat:
  "seat (set_seat n x l) m = (if m = n \<and> seat l n \<noteq> None then Some x else seat l m)"
  by (auto simp: seat_def set_seat_def is_spectator_seat_def Let_def nth_list_update)

lemma occupant_eq: "seat l n = Some (occupant l n) \<or> seat l n = None \<and> occupant l n = None"
  by (auto simp: occupant_def split: option.splits)

lemma occupant_set_seat:
  "occupant (set_seat n x l) m = (if m = n \<and> seat l n \<noteq> None then x else occupant l m)"
  by (auto simp: occupant_def seat_set_seat)

lemma same_shape_set_seat [simp]: "same_shape l (set_seat n x l)"
  by (simp add: same_shape_def set_seat_def)

lemma same_shape_trans: "same_shape a b \<Longrightarrow> same_shape b c \<Longrightarrow> same_shape a c"
  by (simp add: same_shape_def)

lemma roster_image: "roster l = image_mset (\<lambda>s. (sl_player s, sl_display s)) (mset (everyone l))"
  by (simp add: roster_def)

lemma same_rosterI: "same_shape l l' \<Longrightarrow> mset (everyone l') = mset (everyone l) \<Longrightarrow> same_roster l l'"
  by (simp add: same_roster_def roster_image)

lemma everyone_swap:
  assumes "seat l i \<noteq> None" "seat l j \<noteq> None" "i \<noteq> j"
  shows "mset (everyone (swap_seats i j l)) = mset (everyone l)"
proof -
  let ?a = "occupant l i" and ?b = "occupant l j"
  let ?l1 = "set_seat i None l"
  let ?l2 = "set_seat j None ?l1"
  let ?l3 = "set_seat j ?a ?l2"
  have s: "seat l i = Some ?a" "seat ?l1 j = Some ?b" "seat ?l2 j = Some None" "seat ?l3 i = Some None"
    using assms occupant_eq [of l i] occupant_eq [of l j] by (auto simp: seat_set_seat)
  have b: "occupant ?l1 j = ?b" using assms by (simp add: occupant_set_seat)
  have "mset (everyone (set_seat i ?b ?l3)) = mset (everyone ?l3) + opt_mset ?b"
    using everyone_set_seat [OF s(4), of ?b] by (simp add: opt_mset_def)
  also have "mset (everyone ?l3) = mset (everyone ?l2) + opt_mset ?a"
    using everyone_set_seat [OF s(3), of ?a] by (simp add: opt_mset_def)
  also have "mset (everyone ?l2) + opt_mset ?a + opt_mset ?b = mset (everyone ?l1) + opt_mset ?a"
    using everyone_set_seat [OF s(2), of None] by (simp add: opt_mset_def add.assoc add.commute)
  also have "\<dots> = mset (everyone l)"
    using everyone_set_seat [OF s(1), of None] by (simp add: opt_mset_def)
  finally show ?thesis by (simp add: swap_seats_def Let_def b)
qed

lemma everyone_put:
  assumes "seat l i \<noteq> None" "seat l j = Some None" "i \<noteq> j"
  shows "mset (everyone (put_in_seat i j l)) = mset (everyone l)"
proof -
  let ?a = "occupant l i" and ?l1 = "set_seat i None l"
  have s: "seat l i = Some ?a" "seat ?l1 j = Some None"
    using assms occupant_eq [of l i] by (auto simp: seat_set_seat)
  show ?thesis
    using everyone_set_seat [OF s(1), of None] everyone_set_seat [OF s(2), of ?a]
    by (simp add: put_in_seat_def Let_def opt_mset_def)
qed

lemma same_shape_swap [simp]: "same_shape l (swap_seats i j l)"
  unfolding swap_seats_def Let_def by (meson same_shape_set_seat same_shape_trans)

lemma same_shape_put [simp]: "same_shape l (put_in_seat i j l)"
  unfolding put_in_seat_def Let_def by (meson same_shape_set_seat same_shape_trans)

text \<open>Updates that keep player and name in every seat.\<close>

lemma same_roster_map_everyone:
  "(\<And>s. sl_player (f s) = sl_player s) \<Longrightarrow> (\<And>s. sl_display (f s) = sl_display s) \<Longrightarrow> same_roster l (map_everyone f l)"
  by (simp add: same_roster_def same_shape_def roster_def map_everyone_def everyone_def multiset.map_comp o_def)

lemma same_roster_map_players:
  "(\<And>s. sl_player (f s) = sl_player s) \<Longrightarrow> (\<And>s. sl_display (f s) = sl_display s) \<Longrightarrow> same_roster l (map_players f l)"
  by (simp add: same_roster_def same_shape_def roster_def map_players_def everyone_def multiset.map_comp o_def)

lemma same_roster_clear_ice [simp]: "same_roster l (clear_ice_paths l)"
  unfolding clear_ice_paths_def by (rule same_roster_map_everyone) simp_all

lemma same_roster_unready [simp]: "same_roster l (unready_players l)"
  unfolding unready_players_def by (rule same_roster_map_players) simp_all

lemma upd_first_map:
  assumes "\<And>s. sl_player s = p \<Longrightarrow> g (f s) = g s"
  shows "length (upd_first p f xs) = length xs" "map g (somes (upd_first p f xs)) = map g (somes xs)"
proof -
  show "length (upd_first p f xs) = length xs" by (induction xs) auto
  show "map g (somes (upd_first p f xs)) = map g (somes xs)"
  proof (induction xs)
    case (Cons s xs)
    then show ?case using assms by (cases s) (auto simp: occupied_by_def)
  qed simp
qed

lemma same_roster_upd_member:
  assumes "\<And>s. sl_player (f s) = sl_player s" "\<And>s. sl_display (f s) = sl_display s"
  shows "same_roster l (upd_member p f l)"
proof -
  let ?g = "\<lambda>s. (sl_player s, sl_display s)"
  have m: "map ?g (somes (upd_first p f xs)) = map ?g (somes xs)" for xs
    by (rule upd_first_map) (simp add: assms)
  have "length (upd_first p f xs) = length xs" for xs
    by (rule upd_first_map [where g = sl_player]) (simp add: assms)
  then show ?thesis
    by (simp add: same_roster_def same_shape_def roster_def upd_member_def everyone_def m del: mset_map)
qed

lemma seat_of_valid: "lobby_ok l \<Longrightarrow> seat_of l p = Some n \<Longrightarrow> \<exists>s. seat l n = Some (Some s) \<and> sl_player s = p"
  by (rule seat_of_Some) (auto simp: lobby_ok_def SPECTATOR_SLOT_BASE_def)

lemma move_roster_op: "i \<noteq> j \<Longrightarrow> roster_op (move_op p i j)"
proof
  fix l l'
  assume "i \<noteq> j" "move_op p i j l = Inr l'"
  then have l': "l' = clear_ice_paths (unready_players (swap_seats i j l))"
    and s: "seat l i \<noteq> None" "seat l j \<noteq> None" by (auto simp: move_op_def split: if_splits)
  have "same_roster l (swap_seats i j l)"
    by (rule same_rosterI) (simp_all add: everyone_swap s \<open>i \<noteq> j\<close>)
  then show "same_roster l l'" unfolding l' by (meson same_roster_trans same_roster_unready same_roster_clear_ice)
qed

interpretation seat_move: roster_op "seat_move_op p j" for p j
proof
  fix l l'
  assume ok: "lobby_ok l" and op: "seat_move_op p j l = Inr l'"
  then obtain i where i: "seat_of l p = Some i" "seat l j \<noteq> None" "i \<noteq> j" "occupant l j = None"
    and l': "l' = clear_ice_paths (unready_players (put_in_seat i j l))"
    by (auto simp: seat_move_op_def split: if_splits option.splits)
  have "same_roster l (put_in_seat i j l)"
    using i occupant_eq [of l j] seat_of_valid [OF ok i(1)] by (intro same_rosterI everyone_put) auto
  then show "same_roster l l'" unfolding l' by (meson same_roster_trans same_roster_unready same_roster_clear_ice)
qed

interpretation answer: roster_op "answer_op p asker accept" for p asker accept
proof
  fix l l'
  assume ok: "lobby_ok l" and op: "answer_op p asker accept l = Inr l'"
  then obtain i j where ij: "seat_of l p = Some i" "seat_of l asker = Some j" "i \<noteq> j" "l' = swap_op i j l"
    by (auto simp: answer_op_def split: if_splits option.splits)
  have "same_roster l (swap_seats i j l)"
    using seat_of_valid [OF ok ij(1)] seat_of_valid [OF ok ij(2)] ij(3)
    by (intro same_rosterI everyone_swap) auto
  then show "same_roster l l'" unfolding ij(4) swap_op_def Let_def
    by (cases "is_spectator_seat i \<noteq> is_spectator_seat j")
       (auto intro: same_roster_trans [OF _ same_roster_unready]
         same_roster_trans [OF same_roster_trans [OF _ same_roster_unready] same_roster_clear_ice])
qed

interpretation ready: roster_op "ready_op p r b m c" for p r b m c
  by standard (auto simp: ready_op_def Let_def intro!: same_roster_upd_member)

interpretation path: roster_op "path_op now p kind" for now p kind
proof
  fix l l'
  assume "path_op now p kind l = Inr l'"
  then have "l' = upd_member p (\<lambda>s. s\<lparr> sl_ice_path := Some kind, sl_ice_path_at := Some now \<rparr>) l"
    by (auto simp: path_op_def upd_member_def split: if_splits)
  then show "same_roster l l'" by (simp add: same_roster_upd_member)
qed

interpretation endpoint: roster_op "endpoint_op p ep lan" for p ep lan
proof
  fix l l'
  let ?m = "map_players (\<lambda>s. s\<lparr> sl_ice_path := None, sl_ice_path_at := None \<rparr>) l"
  assume "endpoint_op p ep lan l = Inr l'"
  moreover have "same_roster l ?m" by (rule same_roster_map_players) simp_all
  ultimately show "same_roster l l'"
    by (auto simp: endpoint_op_def Let_def same_roster_def same_shape_def roster_def everyone_def split: if_splits)
qed

interpretation caps: roster_op "caps_op p c" for p c
  by standard (auto simp: caps_op_def same_roster_def same_shape_def roster_def everyone_def split: if_splits)

subsection \<open>Coming, going and renaming\<close>

lemma start_commit_same_roster: "same_roster l (start_commit fresh sid l)"
proof -
  have "same_roster l (l\<lparr> lb_match_caps := c, lb_session_id := sid, lb_started := True \<rparr>)" for c
    by (simp add: same_roster_def same_shape_def roster_def everyone_def)
  then show ?thesis unfolding start_commit_def by (rule same_roster_trans) (rule same_roster_unready)
qed

lemma not_full_has_free: "\<not> players_full l \<Longrightarrow> \<exists>i. position (\<lambda>s. s = None) (lb_slots l) = Some i"
  by (auto simp: players_full_def list_all_iff intro: position_ex)

lemma free_seat_empty:
  assumes "lobby_ok l" "free_seat l = Some n"
  shows "seat l n = Some None"
proof (cases "players_full l")
  case True
  then obtain i where "position (\<lambda>s. s = None) (lb_spectators l) = Some i" "n = spectator_seat i"
    using assms(2) by (auto simp: free_seat_def)
  then show ?thesis using position_Some [of "\<lambda>s. s = None" "lb_spectators l" i]
    by (auto simp: seat_def is_spectator_seat_def spectator_seat_def)
next
  case False
  then have "position (\<lambda>s. s = None) (lb_slots l) = Some n" using assms(2) by (simp add: free_seat_def)
  then show ?thesis using position_Some [of "\<lambda>s. s = None" "lb_slots l" n] assms(1)
    by (auto simp: seat_def is_spectator_seat_def SPECTATOR_SLOT_BASE_def lobby_ok_def)
qed

lemma free_seat_None:
  "free_seat l = None \<longleftrightarrow> players_full l \<and> None \<notin> set (lb_spectators l)"
proof (cases "players_full l")
  case True
  have "(\<forall>x \<in> set (lb_spectators l). x \<noteq> None) \<longleftrightarrow> None \<notin> set (lb_spectators l)" by metis
  then show ?thesis using True by (simp add: free_seat_def position_None)
next
  case False
  then show ?thesis using not_full_has_free [of l] by (auto simp: free_seat_def)
qed

lemma unready_clear_roster:
  "roster (clear_ice_paths (unready_players l)) = roster l \<and> same_shape l (clear_ice_paths (unready_players l))"
  using same_roster_trans [OF same_roster_unready same_roster_clear_ice] by (simp add: same_roster_def)

lemma roster_guest [simp]: "roster (l\<lparr> lb_guest_endpoint := x \<rparr>) = roster l"
  by (simp add: roster_def everyone_def)

lemma same_shape_guest [simp]: "same_shape l (l'\<lparr> lb_guest_endpoint := x \<rparr>) = same_shape l l'"
  by (simp add: same_shape_def)

lemma seat_joiner_roster:
  assumes "seat l n = Some None"
  shows "roster (seat_joiner n p name country guest l) = add_mset (p, name) (roster l)"
    and "same_shape l (seat_joiner n p name country guest l)"
proof -
  let ?l1 = "set_seat n (Some (new_slot p name country)) l"
  have e: "mset (everyone ?l1) = add_mset (new_slot p name country) (mset (everyone l))"
    using everyone_set_seat [OF assms, of "Some (new_slot p name country)"]
    by (simp add: opt_mset_def)
  show "roster (seat_joiner n p name country guest l) = add_mset (p, name) (roster l)"
    by (simp add: seat_joiner_def unready_clear_roster) (simp only: roster_image e, simp add: new_slot_def)
  have "same_shape l (clear_ice_paths (unready_players ?l1))"
    using unready_clear_roster [of ?l1] by (meson same_shape_set_seat same_shape_trans)
  then show "same_shape l (seat_joiner n p name country guest l)"
    by (simp add: seat_joiner_def)
qed

lemma in_member_ids: "p \<in> set (member_ids l) \<longleftrightarrow> p \<in> fst ` set_mset (roster l)"
  by (force simp: member_ids_def roster_def)

text \<open>Rosters related by adding, dropping or renaming one member.\<close>

lemma roster_addD:
  assumes "roster l' = add_mset (p, name) (roster l)"
  shows "set (member_ids l') = insert p (set (member_ids l))"
    "distinct (member_ids l') \<longleftrightarrow> p \<notin> set (member_ids l) \<and> distinct (member_ids l)"
    "distinct (map sl_display (everyone l')) \<longleftrightarrow>
      name \<notin> set (map sl_display (everyone l)) \<and> distinct (map sl_display (everyone l))"
proof -
  have m: "mset (member_ids l') = mset (p # member_ids l)" by (simp add: mset_member_ids assms)
  have d: "mset (map sl_display (everyone l')) = mset (name # map sl_display (everyone l))"
    by (simp only: mset_displays assms) (simp add: mset_displays [symmetric])
  show "set (member_ids l') = insert p (set (member_ids l))" using mset_eq_setD [OF m] by simp
  show "distinct (member_ids l') \<longleftrightarrow> p \<notin> set (member_ids l) \<and> distinct (member_ids l)"
    using mset_eq_imp_distinct_iff [OF m] by simp
  show "distinct (map sl_display (everyone l')) \<longleftrightarrow>
      name \<notin> set (map sl_display (everyone l)) \<and> distinct (map sl_display (everyone l))"
    using mset_eq_imp_distinct_iff [OF d] by simp
qed

lemma name_taken_None: "name_taken l (Some p) name \<longleftrightarrow> (\<exists>s \<in> set (everyone l). sl_player s \<noteq> p \<and> sl_display s = name)"
  by (auto simp: name_taken_def list_ex_iff)

lemma seat_joiner_ok:
  assumes ok: "lobby_ok l" and n: "free_seat l = Some n" and new: "p \<notin> set (member_ids l)"
    and name: "\<not> name_taken l (Some p) name"
  shows "lobby_ok (seat_joiner n p name country guest l)"
    "set (member_ids (seat_joiner n p name country guest l)) = insert p (set (member_ids l))"
proof -
  note seat = free_seat_empty [OF ok n]
  note r = roster_addD [OF seat_joiner_roster(1) [OF seat, of p name country guest]]
  have "name \<notin> set (map sl_display (everyone l))"
    using name new by (auto simp: name_taken_None member_ids_def)
  then show "lobby_ok (seat_joiner n p name country guest l)"
    using ok new seat_joiner_roster(2) [OF seat, of p name country guest] r
    by (auto simp: lobby_ok_def same_shape_def)
  show "set (member_ids (seat_joiner n p name country guest l)) = insert p (set (member_ids l))" by (rule r(1))
qed

lemma somes_vacate: "somes (map (vacate p) xs) = filter (\<lambda>s. sl_player s \<noteq> p) (somes xs)"
  by (induction xs rule: somes.induct) (auto simp: vacate_def occupied_by_def)

lemma everyone_clear_ice: "map sl_player (everyone (clear_ice_paths l)) = map sl_player (everyone l)"
  "map sl_display (everyone (clear_ice_paths l)) = map sl_display (everyone l)"
  by (simp_all add: clear_ice_paths_def)

lemma leave_op_ok:
  assumes ok: "lobby_ok l" and p: "p \<noteq> lb_host l"
  shows "lobby_ok (leave_op p l)" "set (member_ids (leave_op p l)) = set (member_ids l) - {p}"
    "same_shape l (leave_op p l)"
proof -
  let ?v = "l\<lparr> lb_slots := map (vacate p) (lb_slots l), lb_spectators := map (vacate p) (lb_spectators l), lb_guest_endpoint := [] \<rparr>"
  have e: "everyone ?v = filter (\<lambda>s. sl_player s \<noteq> p) (everyone l)"
    by (simp add: everyone_def somes_vacate)
  have m: "map sl_player (everyone (leave_op p l)) = map sl_player (filter (\<lambda>s. sl_player s \<noteq> p) (everyone l))"
    and d: "map sl_display (everyone (leave_op p l)) = map sl_display (filter (\<lambda>s. sl_player s \<noteq> p) (everyone l))"
    by (simp_all only: leave_op_def everyone_clear_ice e)
  show set: "set (member_ids (leave_op p l)) = set (member_ids l) - {p}"
    unfolding member_ids_def m by auto
  show shape: "same_shape l (leave_op p l)"
    by (simp add: leave_op_def clear_ice_paths_def map_everyone_def same_shape_def)
  have "distinct (member_ids (leave_op p l))" "distinct (map sl_display (everyone (leave_op p l)))"
    using ok unfolding member_ids_def m d by (auto simp: lobby_ok_def member_ids_def intro: distinct_map_filter)
  moreover have "lb_automatch l \<or> lb_host l \<in> set (member_ids (leave_op p l))"
    using ok p unfolding set by (auto simp: lobby_ok_def)
  ultimately show "lobby_ok (leave_op p l)"
    using ok shape by (simp add: lobby_ok_def same_shape_def)
qed

lemma kick_op_roster:
  assumes "seat l n = Some (Some s)"
  shows "add_mset (sl_player s, sl_display s) (roster (kick_op n l)) = roster l" "same_shape l (kick_op n l)"
proof -
  let ?l1 = "(set_seat n None l)\<lparr> lb_guest_endpoint := [] \<rparr>"
  have "mset (everyone l) = add_mset s (mset (everyone (set_seat n None l)))"
    using everyone_set_seat [OF assms, of None] by (simp add: opt_mset_def)
  then show "add_mset (sl_player s, sl_display s) (roster (kick_op n l)) = roster l"
    by (simp add: kick_op_def unready_clear_roster) (simp add: roster_image)
  have "same_shape l ?l1" by simp
  then show "same_shape l (kick_op n l)"
    unfolding kick_op_def using unready_clear_roster [of ?l1] by (blast intro: same_shape_trans)
qed

lemma kick_op_ok:
  assumes ok: "lobby_ok l" and s: "seat l n = Some (Some s)" and host: "sl_player s \<noteq> lb_host l"
  shows "lobby_ok (kick_op n l)" "set (member_ids (kick_op n l)) = set (member_ids l) - {sl_player s}"
proof -
  note k = kick_op_roster [OF s]
  note r = roster_addD [OF k(1) [symmetric]]
  have new: "sl_player s \<notin> set (member_ids (kick_op n l))" "distinct (member_ids (kick_op n l))"
    "distinct (map sl_display (everyone (kick_op n l)))"
    using ok r by (auto simp: lobby_ok_def)
  then show set: "set (member_ids (kick_op n l)) = set (member_ids l) - {sl_player s}" using r(1) by auto
  have "lb_automatch l \<or> lb_host l \<in> set (member_ids (kick_op n l))"
    using ok host unfolding set by (auto simp: lobby_ok_def)
  then show "lobby_ok (kick_op n l)"
    using ok k(2) new by (simp add: lobby_ok_def same_shape_def)
qed

lemma somes_upd_first:
  "map sl_player (somes (upd_first p (\<lambda>s. s\<lparr> sl_display := name \<rparr>) xs)) = map sl_player (somes xs)"
  by (rule upd_first_map) simp

lemma rename_members: "map sl_player (everyone (rename_op p name l)) = map sl_player (everyone l)"
  by (simp add: rename_op_def upd_member_def everyone_def somes_upd_first)

lemma rename_shape: "same_shape l (rename_op p name l)"
  using upd_first_map(1) [of p sl_player "\<lambda>s. s\<lparr> sl_display := name \<rparr>"]
  by (simp add: rename_op_def upd_member_def same_shape_def)

lemma upd_first_displays:
  "distinct (map sl_player (somes xs)) \<Longrightarrow>
   somes (upd_first p f xs) = map (\<lambda>s. if sl_player s = p then f s else s) (somes xs)"
proof (induction xs)
  case (Cons s xs)
  show ?case
  proof (cases "occupied_by p s")
    case True
    then obtain x where x: "s = Some x" "sl_player x = p" by (auto simp: occupied_by_def split: option.splits)
    then have "map (\<lambda>s. if sl_player s = p then f s else s) (somes xs) = somes xs"
      using Cons.prems x by (intro map_idI) (auto simp del: in_somes intro: image_eqI [OF sym])
    then show ?thesis using x by (simp add: occupied_by_def)
  next
    case False
    then show ?thesis using Cons by (cases s) (auto simp: occupied_by_def)
  qed
qed simp

lemma list_ex_occupied: "list_ex (occupied_by p) xs \<longleftrightarrow> p \<in> sl_player ` set (somes xs)"
  by (induction xs rule: somes.induct) (auto simp: occupied_by_def)

lemma everyone_rename:
  assumes "distinct (member_ids l)"
  shows "everyone (rename_op p name l) = map (\<lambda>s. if sl_player s = p then s\<lparr> sl_display := name \<rparr> else s) (everyone l)"
proof -
  let ?f = "\<lambda>s. s\<lparr> sl_display := name \<rparr>" and ?h = "\<lambda>s. if sl_player s = p then s\<lparr> sl_display := name \<rparr> else s"
  have d: "distinct (map sl_player (somes (lb_slots l)))" "distinct (map sl_player (somes (lb_spectators l)))"
    "sl_player ` set (somes (lb_slots l)) \<inter> sl_player ` set (somes (lb_spectators l)) = {}"
    using assms by (simp_all add: member_ids_def everyone_def)
  have idle: "map ?h (somes xs) = somes xs" if "p \<notin> sl_player ` set (somes xs)" for xs
    using that by (intro map_idI) auto
  show ?thesis
  proof (cases "list_ex (occupied_by p) (lb_slots l)")
    case True
    then have "p \<notin> sl_player ` set (somes (lb_spectators l))" using d(3) unfolding list_ex_occupied by blast
    then show ?thesis using True
      by (simp add: rename_op_def upd_member_def everyone_def upd_first_displays [OF d(1)] idle)
  next
    case False
    then have "p \<notin> sl_player ` set (somes (lb_slots l))" unfolding list_ex_occupied .
    then show ?thesis using False
      by (simp add: rename_op_def upd_member_def everyone_def upd_first_displays [OF d(2)] idle)
  qed
qed

lemma rename_op_ok:
  assumes ok: "lobby_ok l" and name: "\<not> name_taken l (Some p) name"
  shows "lobby_ok (rename_op p name l)" "set (member_ids (rename_op p name l)) = set (member_ids l)"
proof -
  have m: "member_ids (rename_op p name l) = member_ids l" by (simp add: member_ids_def rename_members)
  have d: "distinct (member_ids l)" "distinct (map sl_display (everyone l))"
    using ok by (simp_all add: lobby_ok_def)
  have "distinct (everyone l)" using d(1) by (simp add: member_ids_def distinct_map)
  have one: "inj_on sl_player (set (everyone l))" using d(1) by (simp add: member_ids_def distinct_map)
  have two: "inj_on sl_display (set (everyone l))" using d(2) by (simp add: distinct_map)
  have "map sl_display (everyone (rename_op p name l)) =
      map (\<lambda>s. if sl_player s = p then name else sl_display s) (everyone l)"
    by (simp add: everyone_rename [OF d(1)])
  moreover have "inj_on (\<lambda>s. if sl_player s = p then name else sl_display s) (set (everyone l))"
    using one two name unfolding name_taken_None inj_on_def by (metis (mono_tags))
  ultimately have "distinct (map sl_display (everyone (rename_op p name l)))"
    using \<open>distinct (everyone l)\<close> by (simp add: distinct_map)
  then show "lobby_ok (rename_op p name l)"
    using ok rename_shape [of l p name] by (simp add: lobby_ok_def same_shape_def m)
  show "set (member_ids (rename_op p name l)) = set (member_ids l)" by (simp add: m)
qed

lemma lobby_ok_few: "lobby_ok l \<Longrightarrow> length (everyone l) \<le> 12"
proof -
  assume ok: "lobby_ok l"
  have "length (somes xs) \<le> length xs" for xs :: "Slot option list"
    by (simp add: length_somes)
  from this [of "lb_slots l"] this [of "lb_spectators l"] ok show ?thesis
    by (simp add: everyone_def lobby_ok_def)
qed

end
