(* ===== verification/Hub_Rooms.thy ===== *)
theory Hub_Rooms
  imports Hub Room_Edits
begin

text \<open>
  The room operations of \<^verbatim>\<open>src/ws_lobby.rs\<close> on the hub: creating, joining, leaving,
  kicking, seats, readiness, endpoints, caps and start, each the whole handler with its
  replies.  \<^verbatim>\<open>Result<(), String>\<close> is \<open>string + Hub\<close>; an error is always returned before
  anything changed.  The invariant \<open>hub_ok\<close> ties the rooms to the clients.
\<close>

subsection \<open>Messages from clients\<close>

record InTitle =
  it_game :: string
  it_version :: string
  it_disc :: string
  it_ruleset :: string
  it_max_slots :: "nat option"

record InMsg =
  m_op :: string
  m_display_name :: "string option"
  m_session :: "string option"
  m_name :: "string option"
  m_game :: "string option"
  m_version :: "string option"
  m_disc_fp :: "string option"
  m_password :: "string option"
  m_max_slots :: "nat option"
  m_allow_spectators :: "bool option"
  m_host_bind :: "string option"
  m_host_endpoint :: "string option"
  m_ice_relay :: "bool option"
  m_lan :: "string list option"
  m_guest_bind :: "string option"
  m_lobby :: "string option"
  m_to :: "string option"
  m_type :: "int option"
  m_flag :: "int option"
  m_text :: "string option"
  m_ready :: "bool option"
  m_bios :: "json option"
  m_mods :: "json option"
  m_memcard :: "json option"
  m_caps :: "json option"
  m_slot :: "nat option"
  m_from_slot :: "nat option"
  m_target_slot :: "nat option"
  m_accept :: "bool option"
  m_asker :: "string option"
  m_to_slot :: "nat option"
  m_path :: "string option"
  m_error :: "string option"
  m_titles :: "InTitle list option"
  m_ruleset :: "string option"
  m_mods_enabled :: "bool option"
  m_mod_exempt :: "string list option"
  m_tick :: "int option"
  m_partition :: "string option"
  m_mine :: "string option"
  m_theirs :: "string option"
  m_role :: "string option"
  m_mod_exempt_text :: "string option"
  m_mid :: "string option"
  m_mids :: "string list option"
  m_accounts :: "string list option"
  m_report_game :: "string option"
  m_report_scope :: "string option"
  m_report_lobby :: "string option"
  m_server :: "string option"
  m_platform :: "string option"
  m_reason :: "string option"
  m_note :: "string option"
  m_match :: "string option"
  m_rtt :: "int option"

definition sanitize_in_place :: "ChatFilter \<Rightarrow> InMsg \<Rightarrow> InMsg \<times> string option" where
  "sanitize_in_place f msg =
     (let msg = msg\<lparr> m_display_name := sanitize (m_display_name msg), m_name := sanitize (m_name msg),
                     m_game := sanitize (m_game msg) \<rparr>
      in (msg,
          if (case m_display_name msg of Some n \<Rightarrow> is_refused f n | None \<Rightarrow> False) then Some ''name_rejected''
          else if (case m_name msg of Some n \<Rightarrow> is_refused f n | None \<Rightarrow> False) then Some ''lobby_name_rejected''
          else if (case m_password msg of Some pw \<Rightarrow> password_is_invalid pw | None \<Rightarrow> False) then Some ''password_invalid''
          else None))"

definition nonempty :: "string option \<Rightarrow> string option" where
  [rust_simps]: "nonempty s = filter_option (\<lambda>s. s \<noteq> []) s"

subsection \<open>Operations on the room a client sits in\<close>

definition room_of :: "Hub \<Rightarrow> string \<Rightarrow> string + (string \<times> Lobby)" where
  "room_of g p =
     (case Option.bind (client g p) cl_lobby of
        None \<Rightarrow> Inl ''not_in_lobby''
      | Some lid \<Rightarrow> (case lobby g lid of None \<Rightarrow> Inl ''gone'' | Some l \<Rightarrow> Inr (lid, l)))"

text \<open>The shape of the handlers that change one room: find it, apply the operation, refuse with
  its code or go on with \<open>k\<close>.\<close>

definition room_edit :: "string \<Rightarrow> (Lobby \<Rightarrow> string + Lobby) \<Rightarrow> (string \<Rightarrow> Hub \<Rightarrow> Hub) \<Rightarrow> Hub \<Rightarrow> Hub" where
  "room_edit p f k g =
     (case room_of g p of
        Inl c \<Rightarrow> refuse p c g
      | Inr (lid, l) \<Rightarrow>
          (case f l of Inl c \<Rightarrow> refuse p c g | Inr l' \<Rightarrow> k lid (upd_lobby lid (\<lambda>_. l') g)))"

definition handle_move :: "HubEnv \<Rightarrow> string \<Rightarrow> InMsg \<Rightarrow> Hub \<Rightarrow> Hub" where
  "handle_move e p msg g =
     (case (or_option (m_from_slot msg) (m_slot msg), m_to_slot msg) of
        (Some i, Some j) \<Rightarrow> if i = j then g else room_edit p (move_op p i j) (emit_lobby_update e) g
      | _ \<Rightarrow> refuse p ''bad_slot'' g)"

definition handle_seat_move :: "HubEnv \<Rightarrow> string \<Rightarrow> InMsg \<Rightarrow> Hub \<Rightarrow> Hub" where
  "handle_seat_move e p msg g =
     (case or_option (m_to_slot msg) (m_target_slot msg) of
        None \<Rightarrow> refuse p ''bad_slot'' g
      | Some j \<Rightarrow> room_edit p (seat_move_op p j) (emit_lobby_update e) g)"

definition handle_seat_swap_request :: "string \<Rightarrow> InMsg \<Rightarrow> Hub \<Rightarrow> Hub" where
  "handle_seat_swap_request p msg g =
     (case or_option (m_target_slot msg) (m_to_slot msg) of
        None \<Rightarrow> g
      | Some target \<Rightarrow>
          (case room_of g p of
             Inl _ \<Rightarrow> g
           | Inr (lid, l) \<Rightarrow>
               (case seat_of l p of
                  None \<Rightarrow> g
                | Some i \<Rightarrow>
                    if seat l target = None \<or> target = i then refuse p ''bad_slot'' g
                    else (case occupant l target of
                            None \<Rightarrow> refuse p ''empty_slot'' g
                          | Some occ \<Rightarrow> send_to (sl_player occ) (JObj
                              [(''op'', JStr ''seat_swap_ask''), (''asker_player_id'', JStr p),
                               (''asker_name'', JStr (case occupant l i of Some s \<Rightarrow> sl_display s | None \<Rightarrow> [])),
                               (''from_slot'', jnat i), (''target_slot'', jnat target)]) g))))"

definition swap_result :: "bool \<Rightarrow> json" where
  "swap_result b = JObj [(''op'', JStr ''seat_swap_result''), (''accept'', JBool b), (''ok'', JBool True)]"

definition handle_seat_swap_answer :: "HubEnv \<Rightarrow> string \<Rightarrow> InMsg \<Rightarrow> Hub \<Rightarrow> Hub" where
  "handle_seat_swap_answer e p msg g =
     (let accept = unwrap_or (m_accept msg) False; asker = unwrap_or (m_asker msg) []
      in if asker = [] then g
         else case room_of g p of
           Inl _ \<Rightarrow> g
         | Inr (lid, l) \<Rightarrow>
             (case answer_op p asker accept l of
                Inl _ \<Rightarrow> send_to asker (swap_result False) g
              | Inr l' \<Rightarrow> emit_lobby_update e lid (send_to asker (swap_result True) (upd_lobby lid (\<lambda>_. l') g))))"

definition handle_set_host_endpoint :: "HubEnv \<Rightarrow> string \<Rightarrow> string \<Rightarrow> InMsg \<Rightarrow> Hub \<Rightarrow> Hub" where
  "handle_set_host_endpoint e p ip msg g =
     (case filter_option (\<lambda>s. trim s \<noteq> []) (m_host_endpoint msg) of
        None \<Rightarrow> refuse p ''bad_host_endpoint'' g
      | Some raw \<Rightarrow>
          (case filter_option (\<lambda>ep. endpoint_is_clients_own ep ip) (parse_advertise_endpoint raw) of
             None \<Rightarrow> refuse p ''bad_host_endpoint'' g
           | Some ep \<Rightarrow>
               room_edit p (endpoint_op p ep (m_lan msg))
                 (\<lambda>lid h. send_to p (JObj [(''op'', JStr ''host_endpoint_ok''), (''ok'', JBool True)])
                    (broadcast_list e (emit_lobby_update e lid h))) g))"

definition handle_path_report :: "HubEnv \<Rightarrow> string \<Rightarrow> InMsg \<Rightarrow> Hub \<Rightarrow> Hub" where
  "handle_path_report e p msg g =
     (case Option.bind (m_path msg) normalize_ice_path of
        None \<Rightarrow> refuse p ''bad_path_report'' g
      | Some kind \<Rightarrow>
          room_edit p (path_op (e_now e) p kind)
            (\<lambda>lid. send_to p (JObj [(''op'', JStr ''path_report_ok''), (''ok'', JBool True), (''path'', JStr kind)])) g)"

definition handle_set_match_caps :: "HubEnv \<Rightarrow> string \<Rightarrow> InMsg \<Rightarrow> Hub \<Rightarrow> Hub" where
  "handle_set_match_caps e p msg g =
     (case sanitize_match_caps (e_json_len e) (m_caps msg) of
        None \<Rightarrow> refuse p ''bad_match_caps'' g
      | Some caps \<Rightarrow> room_edit p (caps_op p (Some caps)) (emit_lobby_update e) g)"

definition handle_set_ready :: "HubEnv \<Rightarrow> string \<Rightarrow> InMsg \<Rightarrow> Hub \<Rightarrow> Hub" where
  "handle_set_ready e p msg g =
     room_edit p (ready_op p (unwrap_or (m_ready msg) True) (sanitize_bios_offer (e_json_len e) (m_bios msg))
         (sanitize_mod_offer (e_json_len e) (m_mods msg)) (sanitize_memcard_offer (e_json_len e) (m_memcard msg)))
       (emit_lobby_update e) g"

subsection \<open>Start\<close>

definition host_spectates :: "string option \<Rightarrow> Lobby \<Rightarrow> bool" where
  "host_spectates initiator l =
     (case Option.bind initiator (seat_of l) of Some n \<Rightarrow> is_spectator_seat n | None \<Rightarrow> False)"

definition launch_json :: "ns \<Rightarrow> Hub \<Rightarrow> Lobby \<Rightarrow> bool \<Rightarrow> StartTransport \<Rightarrow> json" where
  "launch_json now g l spectates tr = JObj
     ([(''op'', JStr ''launch''), (''ok'', JBool True), (''lobby_id'', JStr (lb_id l)), (''session_id'', jnat (lb_session_id l)),
       (''host_endpoint'', JStr (lb_host_endpoint l)), (''guest_endpoint'', JStr (lb_guest_endpoint l)),
       (''player_count'', jnat (player_count l)), (''max_slots'', jnat (lb_max_slots l)),
       (''slots'', seats_json now g (\<lambda>i. i) (lb_slots l)), (''spectators'', seats_json now g spectator_seat (lb_spectators l)),
       (''spectator_count'', jnat (spectator_count l)), (''spectator_slot_base'', jnat SPECTATOR_SLOT_BASE),
       (''spectator_relay_base'', jnat (lb_max_slots l + (if spectates then 1 else 0))),
       (''host_spectates'', JBool spectates),
       (''transport'', JStr (case tr of HostTransport \<Rightarrow> ''host'' | IceTransport \<Rightarrow> ''ice''))] @
      (if tr = HostTransport then [(''relay_host_slot'', jopt jnat (position (occupied_by (relay_host l)) (lb_slots l)))] else []) @
      jfield ''match_caps'' (lb_match_caps l) @
      (if caps_relay_via_ice (lb_match_caps l) then [(''relay_via'', JStr ''ice'')] else []))"

definition saturating_inc :: "nat \<Rightarrow> nat" where
  [rust_simps]: "saturating_inc n = min (n + 1) 4294967295"

definition start_lobby :: "HubEnv \<Rightarrow> string \<Rightarrow> json option \<Rightarrow> string option \<Rightarrow> bool \<Rightarrow> Hub \<Rightarrow> string + Hub" where
  "start_lobby e lid raw initiator allow_ice g =
     (let fresh = sanitize_match_caps (e_json_len e) raw
      in case lobby g lid of
           None \<Rightarrow> Inl ''gone''
         | Some l \<Rightarrow>
             if player_count l < 2 then Inl ''need_players''
             else (case start_transport (e_now e) l (or_option fresh (lb_match_caps l)) allow_ice of
                     Inl why \<Rightarrow> Inl ''relay_unavailable''
                   | Inr (tr, why) \<Rightarrow>
                       let spectates = host_spectates initiator l;
                           l' = start_commit fresh (h_next_session g) l;
                           g1 = upd_lobby lid (\<lambda>_. l') (g\<lparr> h_next_session := saturating_inc (h_next_session g) \<rparr>)
                       in Inr (send_all (member_ids l') (launch_json (e_now e) g1 l' spectates tr) g1)))"

definition handle_start :: "HubEnv \<Rightarrow> string \<Rightarrow> InMsg \<Rightarrow> Hub \<Rightarrow> Hub" where
  "handle_start e p msg g =
     (case room_of g p of
        Inl c \<Rightarrow> refuse p c g
      | Inr (lid, l) \<Rightarrow>
          if lb_host l \<noteq> p then refuse p ''not_host'' g
          else (case start_lobby e lid (m_caps msg) (Some p) True g of
                  Inr g' \<Rightarrow> g'
                | Inl c \<Rightarrow>
                    (case (if c = ''relay_unavailable''
                           then Option.bind (lobby g lid) (\<lambda>l.
                             case start_transport (e_now e) l (or_option (sanitize_match_caps (e_json_len e) (m_caps msg)) (lb_match_caps l)) True of
                               Inl why \<Rightarrow> Some why | Inr _ \<Rightarrow> None)
                           else None) of
                       Some reason \<Rightarrow> send_to p (JObj [(''op'', JStr ''error''), (''code'', JStr c), (''ok'', JBool False), (''reason'', JStr reason)]) g
                     | None \<Rightarrow> refuse p c g)))"

subsection \<open>Leaving, closing and kicking\<close>

definition chat_system :: "string \<Rightarrow> string \<Rightarrow> Hub \<Rightarrow> Hub" where
  "chat_system lid text g =
     (case lobby g lid of
        None \<Rightarrow> g
      | Some l \<Rightarrow> send_all (member_ids l) (JObj
          [(''op'', JStr ''chat''), (''lobby_id'', JStr lid), (''from_player_id'', JStr []), (''from'', JStr []),
           (''system'', JBool True), (''text'', JStr text)]) g)"

definition unseat_client :: "string \<Rightarrow> Hub \<Rightarrow> Hub" where
  "unseat_client p = upd_client p (\<lambda>c. c\<lparr> cl_lobby := None \<rparr>)"

definition destroy_lobby :: "HubEnv \<Rightarrow> string \<Rightarrow> Hub \<Rightarrow> Hub" where
  "destroy_lobby e lid g =
     (case lobby g lid of
        None \<Rightarrow> g
      | Some l \<Rightarrow>
          let members = member_ids l;
              g1 = foldl (\<lambda>h p. unseat_client p h) (g\<lparr> h_lobbies := AList.delete lid (h_lobbies g) \<rparr>) members;
              note = JObj [(''op'', JStr ''lobby_closed''), (''lobby_id'', JStr lid), (''ok'', JBool True)]
          in broadcast_list e (send_all members note g1))"

definition client_leave :: "HubEnv \<Rightarrow> string \<Rightarrow> Hub \<Rightarrow> Hub" where
  "client_leave e p g =
     (case Option.bind (client g p) cl_lobby of
        None \<Rightarrow> g
      | Some lid \<Rightarrow>
          let g1 = unseat_client p g
          in case lobby g1 lid of
               None \<Rightarrow> g1
             | Some l \<Rightarrow>
                 if lb_host l = p \<or> lb_automatch l \<and> player_count l \<le> 2 then destroy_lobby e lid g1
                 else let name = (case slot_of_player l p of Some s \<Rightarrow> sl_display s | None \<Rightarrow> []);
                          g2 = broadcast_list e (emit_lobby_update e lid (upd_lobby lid (leave_op p) g1))
                      in if name = [] then g2 else chat_system lid (name @ '' has left.'') g2)"

definition handle_leave :: "HubEnv \<Rightarrow> string \<Rightarrow> Hub \<Rightarrow> Hub" where
  "handle_leave e p g = send_to p (JObj [(''op'', JStr ''left''), (''ok'', JBool True)]) (client_leave e p g)"

definition handle_close :: "HubEnv \<Rightarrow> string \<Rightarrow> Hub \<Rightarrow> Hub" where
  "handle_close e p g =
     (case room_of g p of Inr (lid, l) \<Rightarrow> if lb_host l = p then destroy_lobby e lid g else g | Inl _ \<Rightarrow> g)"

definition handle_kick :: "HubEnv \<Rightarrow> string \<Rightarrow> InMsg \<Rightarrow> Hub \<Rightarrow> string + Hub" where
  "handle_kick e p msg g =
     (case m_slot msg of
        None \<Rightarrow> Inl ''missing slot''
      | Some n \<Rightarrow>
          Inr (case room_of g p of
            Inl _ \<Rightarrow> g
          | Inr (lid, l) \<Rightarrow>
              if lb_host l \<noteq> p then refuse p ''not_host'' g
              else if seat l n = None then refuse p ''bad_slot'' g
              else (case occupant l n of
                      None \<Rightarrow> refuse p ''empty_slot'' g
                    | Some s \<Rightarrow>
                        let victim = sl_player s
                        in if victim = lb_host l \<or> victim = p then refuse p ''cannot_kick'' g
                           else let g1 = unseat_client victim (upd_lobby lid (kick_op n) g);
                                    g2 = send_to victim (JObj [(''op'', JStr ''kicked''), (''ok'', JBool True), (''lobby_id'', JStr lid)]) g1;
                                    g3 = broadcast_list e (emit_lobby_update e lid g2)
                                in if sl_display s = [] then g3 else chat_system lid (sl_display s @ '' was kicked.'') g3)))"

subsection \<open>Creating and joining\<close>

definition rename_client :: "string \<Rightarrow> string option \<Rightarrow> Hub \<Rightarrow> Hub" where
  "rename_client p name g =
     (case nonempty name of None \<Rightarrow> g | Some n \<Rightarrow> upd_client p (\<lambda>c. c\<lparr> cl_display := n \<rparr>) g)"

definition client_name :: "string \<Rightarrow> Hub \<Rightarrow> string \<Rightarrow> string" where
  "client_name p g d = (case client g p of Some c \<Rightarrow> cl_display c | None \<Rightarrow> d)"

definition client_country :: "string \<Rightarrow> Hub \<Rightarrow> string" where
  "client_country p g = (case client g p of Some c \<Rightarrow> cl_country c | None \<Rightarrow> [])"

definition clamp_slots :: "nat option \<Rightarrow> nat" where
  "clamp_slots n = min (max (unwrap_or n 2) 2) MAX_SLOTS"

definition new_lobby :: "HubEnv \<Rightarrow> string \<Rightarrow> string \<Rightarrow> InMsg \<Rightarrow> Hub \<Rightarrow> Lobby" where
  "new_lobby e p ip msg g =
     (let bind = unwrap_or (nonempty (m_host_bind msg)) ''0.0.0.0:7777'';
          slots = clamp_slots (m_max_slots msg);
          spec = unwrap_or (m_allow_spectators msg) False;
          pw = nonempty (m_password msg)
      in \<lparr> lb_id = e_uuid e 0, lb_name = unwrap_or (nonempty (m_name msg)) ''Lobby'',
           lb_game = unwrap_or (nonempty (m_game msg)) ''Unknown'', lb_version = normalize_game_version (m_version msg),
           lb_disc_fp = normalize_disc_fp (m_disc_fp msg), lb_host = p, lb_host_bind = bind,
           lb_host_endpoint = own_endpoint bind ip, lb_lan_endpoints = [], lb_guest_endpoint = [],
           lb_password_hash = map_option (\<lambda>pw. e_hash e pw (e_salt e)) pw, lb_password_salt = map_option (\<lambda>_. e_salt e) pw,
           lb_max_slots = slots, lb_session_id = h_next_session g,
           lb_slots = (replicate slots None)[0 := Some (new_slot p (client_name p g ''Host'') (client_country p g))],
           lb_allow_spectators = spec, lb_spectators = replicate (if spec then MAX_SPECTATORS else 0) None,
           lb_match_caps = sanitize_match_caps (e_json_len e) (m_caps msg), lb_relay_host = [], lb_started = False,
           lb_automatch = False \<rparr>)"

definition created_json :: "string \<Rightarrow> Lobby \<Rightarrow> string \<Rightarrow> json" where
  "created_json p l name = JObj
     ([(''op'', JStr ''created''), (''ok'', JBool True), (''lobby_id'', JStr (lb_id l)), (''session_id'', jnat (lb_session_id l)),
       (''local_slot'', jnat 0), (''host_endpoint'', JStr (lb_host_endpoint l)), (''guest_endpoint'', JStr []),
       (''host_player_id'', JStr p), (''player_count'', jnat 1), (''max_slots'', jnat (lb_max_slots l)),
       (''allow_spectators'', JBool (lb_allow_spectators l)),
       (''max_spectators'', jnat (if lb_allow_spectators l then MAX_SPECTATORS else 0)), (''spectator_count'', jnat 0),
       (''spectator_slot_base'', jnat SPECTATOR_SLOT_BASE), (''spectators'', JArr []),
       (''slots'', JArr [JObj [(''slot'', jnat 0), (''player_id'', JStr p), (''display_name'', JStr name), (''ready'', JBool False)]])] @
      jfield ''match_caps'' (lb_match_caps l))"

definition handle_create :: "HubEnv \<Rightarrow> string \<Rightarrow> string \<Rightarrow> InMsg \<Rightarrow> Hub \<Rightarrow> Hub" where
  "handle_create e p ip msg g =
     (if Option.bind (client g p) cl_lobby \<noteq> None then refuse p ''already_in_lobby'' g
      else if length (h_lobbies g) \<ge> MAX_LOBBIES then refuse p ''lobby_limit'' g
      else let g1 = rename_client p (m_display_name msg) g;
               l = new_lobby e p ip msg g1;
               g2 = upd_client p (\<lambda>c. c\<lparr> cl_lobby := Some (lb_id l), cl_game := lb_game l \<rparr>)
                      (g1\<lparr> h_next_session := saturating_inc (h_next_session g1),
                           h_lobbies := AList.update (lb_id l) l (h_lobbies g1) \<rparr>)
           in broadcast_list e (send_to p (created_json p l (client_name p g1 ''Host'')) g2))"

definition id_of :: "json \<Rightarrow> string option" where
  "id_of v = Option.bind (or_option (jget ''id'' v) (jget ''i'' v)) as_str"

definition ver_of :: "json \<Rightarrow> string option" where
  "ver_of v = Option.bind (or_option (jget ''ver'' v) (jget ''v'' v)) as_str"

definition required_mod_rows :: "json option \<Rightarrow> json list" where
  "required_mod_rows caps =
     (case Option.bind caps (field as_array ''mods'') of
        None \<Rightarrow> [] | Some arr \<Rightarrow> filter (\<lambda>v. nonempty (id_of v) \<noteq> None) arr)"

definition guest_has_pkg :: "json option \<Rightarrow> string \<Rightarrow> string \<Rightarrow> bool" where
  "guest_has_pkg offer i v =
     (case offer of
        None \<Rightarrow> False
      | Some off \<Rightarrow>
          (case Option.bind (or_option (jget ''pkgs'' off) (jget ''mods'' off)) as_array of
             None \<Rightarrow> False | Some arr \<Rightarrow> list_ex (\<lambda>p. id_of p = Some i \<and> ver_of p = Some v) arr))"

definition missing_mods :: "json option \<Rightarrow> json option \<Rightarrow> json list" where
  "missing_mods caps offer =
     filter (\<lambda>m. let i = unwrap_or (id_of m) []; v = unwrap_or (ver_of m) [] in i \<noteq> [] \<and> \<not> guest_has_pkg offer i v)
       (required_mod_rows caps)"

datatype SeatResult = SeatErr string | NeedMods "json list" | SeatOk nat Hub

definition password_error :: "HubEnv \<Rightarrow> Lobby \<Rightarrow> string option \<Rightarrow> string option" where
  "password_error e l password =
     (case (lb_password_hash l, lb_password_salt l) of
        (Some h, Some salt) \<Rightarrow>
          (case nonempty password of
             None \<Rightarrow> Some ''need_password''
           | Some pw \<Rightarrow> if e_hash e pw salt \<noteq> h then Some ''bad_password'' else None)
      | _ \<Rightarrow> None)"

definition seat_joiner_locked ::
    "HubEnv \<Rightarrow> string \<Rightarrow> string \<Rightarrow> string \<Rightarrow> string \<Rightarrow> string option \<Rightarrow> json option \<Rightarrow> Hub \<Rightarrow> SeatResult" where
  "seat_joiner_locked e lid p ip guest_bind password offer g =
     (let requested = client_name p g ''Guest''
      in case lobby g lid of
           None \<Rightarrow> SeatErr ''gone''
         | Some l \<Rightarrow>
             (case password_error e l password of
                Some code \<Rightarrow> SeatErr code
              | None \<Rightarrow>
                  let missing = missing_mods (lb_match_caps l) offer
                  in if missing \<noteq> [] then NeedMods missing
                     else (case free_seat l of
                       None \<Rightarrow> SeatErr ''full''
                     | Some n \<Rightarrow>
                         let name = unique_display_name (e_uuid e 0) l requested (Some p);
                             l' = seat_joiner n p name (client_country p g) (own_endpoint guest_bind ip) l
                         in SeatOk n (upd_client p (\<lambda>c. c\<lparr> cl_lobby := Some lid, cl_display := name,
                                cl_game := (if lb_game l \<noteq> [] then lb_game l else cl_game c) \<rparr>) (upd_lobby lid (\<lambda>_. l') g)))))"

definition joined_json :: "Lobby \<Rightarrow> nat \<Rightarrow> string \<Rightarrow> json" where
  "joined_json l n lid = JObj
     ([(''op'', JStr ''joined''), (''ok'', JBool True), (''lobby_id'', JStr lid), (''session_id'', jnat (lb_session_id l)),
       (''local_slot'', jnat n), (''spectator'', JBool (is_spectator_seat n)), (''spectator_slot_base'', jnat SPECTATOR_SLOT_BASE),
       (''host_endpoint'', JStr (lb_host_endpoint l)), (''guest_endpoint'', JStr (lb_guest_endpoint l))] @
      jfield ''match_caps'' (lb_match_caps l))"

text \<open>The checks before seating, in the order of the source: a block is answered before anything
  else about the room is said.\<close>

definition join_outcome :: "HubEnv \<Rightarrow> string \<Rightarrow> string \<Rightarrow> string \<Rightarrow> InMsg \<Rightarrow> Hub \<Rightarrow> SeatResult" where
  "join_outcome e lid p ip msg g =
     (case lobby g lid of
        None \<Rightarrow> SeatErr ''gone''
      | Some l \<Rightarrow>
          if lb_host l \<noteq> [] \<and> blocked_between g p (lb_host l) then SeatErr ''no_such_lobby''
          else if disc_fp_mismatch (lb_disc_fp l) (normalize_disc_fp (m_disc_fp msg)) then SeatErr ''disc_mismatch''
          else if (case nonempty (m_game msg) of Some want \<Rightarrow> lb_game l \<noteq> want | None \<Rightarrow> False) then SeatErr ''game_mismatch''
          else if lb_version l \<noteq> normalize_game_version (m_version msg) then SeatErr ''version_mismatch''
          else seat_joiner_locked e lid p ip (unwrap_or (nonempty (m_guest_bind msg)) ''0.0.0.0:7778'')
                 (m_password msg) (m_mods msg) g)"

definition handle_join :: "HubEnv \<Rightarrow> string \<Rightarrow> string \<Rightarrow> InMsg \<Rightarrow> Hub \<Rightarrow> string + Hub" where
  "handle_join e p ip msg g =
     (case nonempty (m_lobby msg) of
        None \<Rightarrow> Inl ''missing lobby_id''
      | Some lid \<Rightarrow>
          Inr (if Option.bind (client g p) cl_lobby \<noteq> None then refuse p ''already_in_lobby'' g
               else let g1 = rename_client p (m_display_name msg) g
                    in case join_outcome e lid p ip msg g1 of
                         SeatErr code \<Rightarrow> refuse p code g1
                       | NeedMods mods \<Rightarrow>
                           let g2 = upd_client p (\<lambda>c. c\<lparr> cl_pending_mod := Some lid \<rparr>) g1;
                               host = (case lobby g2 lid of Some l \<Rightarrow> lb_host l | None \<Rightarrow> [])
                           in send_to p (JObj [(''op'', JStr ''need_mods''), (''ok'', JBool False), (''code'', JStr ''need_mods''),
                                (''lobby_id'', JStr lid), (''host_player_id'', JStr host), (''mods'', JArr mods), (''can_transfer'', JBool True)]) g2
                       | SeatOk n g2 \<Rightarrow>
                           let g3 = upd_client p (\<lambda>c. c\<lparr> cl_pending_mod := None \<rparr>) g2;
                               g4 = (case lobby g3 lid of Some l \<Rightarrow> send_to p (joined_json l n lid) g3 | None \<Rightarrow> g3);
                               g5 = broadcast_list e (emit_lobby_update e lid g4)
                           in chat_system lid (client_name p g5 [] @
                                (if is_spectator_seat n then '' has joined as a spectator.'' else '' has joined.'')) g5))"

subsection \<open>Frames: sending changes nothing but the output\<close>

lemma send_to_frame [simp]:
  "h_clients (send_to p m g) = h_clients g" "h_lobbies (send_to p m g) = h_lobbies g"
  "h_next_session (send_to p m g) = h_next_session g" "h_chat_ring (send_to p m g) = h_chat_ring g"
  "h_next_chat_id (send_to p m g) = h_next_chat_id g" "h_probe_grants (send_to p m g) = h_probe_grants g"
  "h_require_login (send_to p m g) = h_require_login g"
  by (simp_all add: send_to_def)

lemma foldl_frame: "(\<And>h x. f (step h x) = f h) \<Longrightarrow> f (foldl step h xs) = f h"
  by (induction xs arbitrary: h) auto

lemma send_all_frame [simp]:
  "h_clients (send_all ps m g) = h_clients g" "h_lobbies (send_all ps m g) = h_lobbies g"
  "h_next_session (send_all ps m g) = h_next_session g" "h_chat_ring (send_all ps m g) = h_chat_ring g"
  "h_next_chat_id (send_all ps m g) = h_next_chat_id g" "h_probe_grants (send_all ps m g) = h_probe_grants g"
  "h_require_login (send_all ps m g) = h_require_login g"
  unfolding send_all_def by (rule foldl_frame, simp)+

lemma broadcast_frame [simp]:
  "h_clients (broadcast_list e g) = h_clients g" "h_lobbies (broadcast_list e g) = h_lobbies g"
  "h_next_session (broadcast_list e g) = h_next_session g" "h_chat_ring (broadcast_list e g) = h_chat_ring g"
  "h_next_chat_id (broadcast_list e g) = h_next_chat_id g" "h_probe_grants (broadcast_list e g) = h_probe_grants g"
  "h_require_login (broadcast_list e g) = h_require_login g"
  unfolding broadcast_list_def by (rule foldl_frame, simp split: prod.split)+

lemma refuse_frame [simp]:
  "h_clients (refuse p c g) = h_clients g" "h_lobbies (refuse p c g) = h_lobbies g"
  "h_next_session (refuse p c g) = h_next_session g" "h_chat_ring (refuse p c g) = h_chat_ring g"
  "h_next_chat_id (refuse p c g) = h_next_chat_id g" "h_probe_grants (refuse p c g) = h_probe_grants g"
  "h_require_login (refuse p c g) = h_require_login g"
  by (simp_all add: refuse_def)

lemma emit_frame [simp]:
  "h_clients (emit_lobby_update e lid g) = h_clients g" "h_lobbies (emit_lobby_update e lid g) = h_lobbies g"
  "h_next_session (emit_lobby_update e lid g) = h_next_session g" "h_chat_ring (emit_lobby_update e lid g) = h_chat_ring g"
  "h_next_chat_id (emit_lobby_update e lid g) = h_next_chat_id g" "h_probe_grants (emit_lobby_update e lid g) = h_probe_grants g"
  "h_require_login (emit_lobby_update e lid g) = h_require_login g"
  by (simp_all add: emit_lobby_update_def split: option.split)

lemma chat_system_frame [simp]:
  "h_clients (chat_system lid t g) = h_clients g" "h_lobbies (chat_system lid t g) = h_lobbies g"
  "h_next_session (chat_system lid t g) = h_next_session g" "h_chat_ring (chat_system lid t g) = h_chat_ring g"
  "h_next_chat_id (chat_system lid t g) = h_next_chat_id g" "h_probe_grants (chat_system lid t g) = h_probe_grants g"
  "h_require_login (chat_system lid t g) = h_require_login g"
  by (simp_all add: chat_system_def split: option.split)

lemma upd_frame [simp]:
  "h_lobbies (upd_client p f g) = h_lobbies g" "h_clients (upd_lobby lid k g) = h_clients g"
  "h_next_session (upd_client p f g) = h_next_session g" "h_next_session (upd_lobby lid k g) = h_next_session g"
  "h_require_login (upd_client p f g) = h_require_login g" "h_require_login (upd_lobby lid k g) = h_require_login g"
  by (simp_all add: upd_client_def upd_lobby_def)

subsection \<open>The invariant of the hub\<close>

definition home :: "Hub \<Rightarrow> string \<Rightarrow> string option" where
  "home g p = Option.bind (client g p) cl_lobby"

definition members :: "Hub \<Rightarrow> string \<Rightarrow> string set" where
  "members g lid = (case lobby g lid of Some l \<Rightarrow> set (member_ids l) | None \<Rightarrow> {})"

definition rooms_ok :: "Hub \<Rightarrow> bool" where
  "rooms_ok g \<longleftrightarrow> (\<forall>lid l. lobby g lid = Some l \<longrightarrow> lb_id l = lid \<and> lobby_ok l)"

definition hub_ok :: "Hub \<Rightarrow> bool" where
  "hub_ok g \<longleftrightarrow>
     distinct (map fst (h_clients g)) \<and> distinct (map fst (h_lobbies g)) \<and>
     length (h_lobbies g) \<le> MAX_LOBBIES \<and> rooms_ok g \<and>
     (\<forall>p lid. home g p = Some lid \<longleftrightarrow> p \<in> members g lid)"

lemma hub_ok_cong:
  "h_clients g' = h_clients g \<Longrightarrow> h_lobbies g' = h_lobbies g \<Longrightarrow> hub_ok g' = hub_ok g"
  by (simp add: hub_ok_def rooms_ok_def home_def members_def client_def lobby_def)

lemma client_cong: "h_clients g' = h_clients g \<Longrightarrow> client g' p = client g p"
  by (simp add: client_def)

lemma lobby_cong: "h_lobbies g' = h_lobbies g \<Longrightarrow> lobby g' lid = lobby g lid"
  by (simp add: lobby_def)

lemma sent_ok [simp]:
  "hub_ok (send_to p m g) = hub_ok g" "hub_ok (send_all ps m g) = hub_ok g" "hub_ok (broadcast_list e g) = hub_ok g"
  "hub_ok (refuse p c g) = hub_ok g" "hub_ok (emit_lobby_update e lid g) = hub_ok g" "hub_ok (chat_system lid t g) = hub_ok g"
  by (rule hub_ok_cong; simp)+

lemma client_upd: "client (upd_client p f g) q = (if q = p then map_option f (client g p) else client g q)"
  by (simp add: client_def upd_client_def)

lemma lobby_upd: "lobby (upd_lobby lid f g) k = (if k = lid then map_option f (lobby g lid) else lobby g k)"
  by (simp add: lobby_def upd_lobby_def)

lemma upd_other [simp]: "client (upd_lobby lid f g) p = client g p" "lobby (upd_client p h g) lid = lobby g lid"
  by (simp_all add: client_def lobby_def)

lemma home_upd_lobby [simp]: "home (upd_lobby lid f g) p = home g p"
  by (simp add: home_def)

lemma members_upd_client [simp]: "members (upd_client p f g) lid = members g lid"
  by (simp add: members_def)

lemma home_upd_client:
  "home (upd_client p f g) q = (if q = p then Option.bind (client g p) (\<lambda>c. cl_lobby (f c)) else home g q)"
  by (cases "client g p") (simp_all add: home_def client_upd)

lemma hub_okD:
  assumes "hub_ok g" "lobby g lid = Some l"
  shows "lb_id l = lid" "lobby_ok l" "members g lid = set (member_ids l)"
    "p \<in> set (member_ids l) \<longleftrightarrow> home g p = Some lid"
  using assms by (auto simp: hub_ok_def rooms_ok_def members_def)

lemma hub_ok_upd_client:
  "hub_ok g \<Longrightarrow> (\<And>c. cl_lobby (f c) = cl_lobby c) \<Longrightarrow> hub_ok (upd_client p f g)"
proof -
  assume ok: "hub_ok g" and f: "\<And>c. cl_lobby (f c) = cl_lobby c"
  have "home (upd_client p f g) q = home g q" for q
    by (simp add: home_upd_client f) (simp add: home_def)
  then show ?thesis using ok by (simp add: hub_ok_def rooms_ok_def) (simp add: upd_client_def)
qed

text \<open>Replacing one room by another of the same members.\<close>

lemma hub_ok_upd_lobby:
  assumes ok: "hub_ok g" and l: "lobby g lid = Some l"
    and l': "lb_id l' = lb_id l" "lobby_ok l'" "set (member_ids l') = set (member_ids l)"
  shows "hub_ok (upd_lobby lid (\<lambda>_. l') g)"
proof -
  have "members (upd_lobby lid (\<lambda>_. l') g) = members g"
    using l l'(3) by (auto simp: members_def lobby_upd fun_eq_iff)
  moreover have "rooms_ok (upd_lobby lid (\<lambda>_. l') g)"
    using ok l l'(1,2) hub_okD(1) [OF ok l] by (auto simp: hub_ok_def rooms_ok_def lobby_upd)
  ultimately show ?thesis using ok by (simp add: hub_ok_def) (simp add: upd_lobby_def)
qed

lemma room_ofD: "room_of g p = Inr (lid, l) \<Longrightarrow> home g p = Some lid \<and> lobby g lid = Some l"
  by (auto simp: room_of_def home_def split: option.splits)

text \<open>Every handler built from \<open>room_edit\<close> and an operation that keeps the roster keeps the
  invariant, whatever it sends afterwards.\<close>

context roster_op
begin

lemma same_identity: "lobby_ok l \<Longrightarrow> op l = Inr l' \<Longrightarrow> lb_id l' = lb_id l"
  by (drule (1) keeps_identity) (elim conjE)

lemma upd_ok:
  assumes ok: "hub_ok g" and l: "lobby g lid = Some l" and op: "op l = Inr l'"
  shows "hub_ok (upd_lobby lid (\<lambda>_. l') g)"
proof -
  note lok = hub_okD(2) [OF ok l]
  show ?thesis
    by (rule hub_ok_upd_lobby [OF ok l same_identity [OF lok op] keeps_ok [OF lok op] keeps_members [OF lok op]])
qed

end

lemma room_edit_ok:
  assumes "roster_op op" "hub_ok g" "\<And>lid h. hub_ok h \<Longrightarrow> hub_ok (k lid h)"
  shows "hub_ok (room_edit p op k g)"
proof (cases "room_of g p")
  case (Inr x)
  obtain lid l where x: "x = (lid, l)" by force
  have l: "lobby g lid = Some l" using room_ofD Inr x by blast
  show ?thesis
  proof (cases "op l")
    case (Inr l')
    have "hub_ok (upd_lobby lid (\<lambda>_. l') g)" by (rule roster_op.upd_ok [OF assms(1,2) l Inr])
    then show ?thesis using assms(3) \<open>room_of g p = Inr x\<close> Inr x by (simp add: room_edit_def)
  qed (use assms(2) Inr x in \<open>simp add: room_edit_def\<close>)
qed (use assms(2) in \<open>simp add: room_edit_def\<close>)

subsection \<open>The handlers keep the invariant\<close>

lemma room_edit_handlers_ok:
  assumes "hub_ok g"
  shows "hub_ok (handle_move e p msg g)" "hub_ok (handle_seat_move e p msg g)" "hub_ok (handle_set_match_caps e p msg g)"
    "hub_ok (handle_set_host_endpoint e p ip msg g)" "hub_ok (handle_path_report e p msg g)" "hub_ok (handle_set_ready e p msg g)"
proof -
  show "hub_ok (handle_move e p msg g)"
    using assms by (auto simp: handle_move_def intro!: room_edit_ok move_roster_op split: option.split)
  show "hub_ok (handle_seat_move e p msg g)"
    using assms by (auto simp: handle_seat_move_def intro!: room_edit_ok seat_move.roster_op_axioms split: option.split)
  show "hub_ok (handle_set_match_caps e p msg g)"
    using assms by (auto simp: handle_set_match_caps_def intro!: room_edit_ok caps.roster_op_axioms split: option.split)
  show "hub_ok (handle_set_host_endpoint e p ip msg g)"
    using assms by (auto simp: handle_set_host_endpoint_def intro!: room_edit_ok endpoint.roster_op_axioms split: option.split)
  show "hub_ok (handle_path_report e p msg g)"
    using assms by (auto simp: handle_path_report_def intro!: room_edit_ok path.roster_op_axioms split: option.split)
  show "hub_ok (handle_set_ready e p msg g)"
    using assms by (auto simp: handle_set_ready_def intro!: room_edit_ok ready.roster_op_axioms)
qed

lemma swap_handlers_ok:
  assumes ok: "hub_ok g"
  shows "hub_ok (handle_seat_swap_request p msg g)" "hub_ok (handle_seat_swap_answer e p msg g)"
proof -
  show "hub_ok (handle_seat_swap_request p msg g)"
    using ok by (simp add: handle_seat_swap_request_def split: option.split sum.split prod.split)
  have "hub_ok (upd_lobby lid (\<lambda>_. l') g)"
    if "room_of g p = Inr (lid, l)" "answer_op p asker accept l = Inr l'" for asker accept lid l l'
    using answer.upd_ok [OF ok _ that(2)] room_ofD [OF that(1)] by blast
  then show "hub_ok (handle_seat_swap_answer e p msg g)"
    using ok by (auto simp: handle_seat_swap_answer_def Let_def split: sum.split)
qed

lemma start_lobby_ok:
  assumes ok: "hub_ok g" and start: "start_lobby e lid raw initiator ice g = Inr g'"
  shows "hub_ok g'"
proof -
  let ?fresh = "sanitize_match_caps (e_json_len e) raw" and ?n = "h_next_session g"
  obtain l where l: "lobby g lid = Some l"
    using start by (auto simp: start_lobby_def Let_def split: option.splits)
  let ?l' = "start_commit ?fresh ?n l" and ?g = "g\<lparr> h_next_session := saturating_inc ?n \<rparr>"
  have same: "same_roster l ?l'" by (rule start_commit_same_roster)
  have g: "hub_ok ?g" "lobby ?g lid = Some l" using ok l hub_ok_cong [of ?g g] by (simp_all add: lobby_cong [of ?g g])
  have "lb_id ?l' = lb_id l" "lobby_ok ?l'" "set (member_ids ?l') = set (member_ids l)"
    using same lobby_ok_same_roster [OF hub_okD(2) [OF ok l] same] roster_eqD(1) [of ?l' l]
    by (simp_all add: same_roster_def same_shape_def)
  then have "hub_ok (upd_lobby lid (\<lambda>_. ?l') ?g)" by (rule hub_ok_upd_lobby [OF g])
  moreover obtain ps m where "g' = send_all ps m (upd_lobby lid (\<lambda>_. ?l') ?g)"
    using start l by (auto simp: start_lobby_def Let_def split: if_splits sum.splits)
  ultimately show ?thesis by simp
qed

lemma handle_start_ok: "hub_ok g \<Longrightarrow> hub_ok (handle_start e p msg g)"
  using start_lobby_ok [of g e]
  by (auto simp: handle_start_def split: sum.split prod.split option.split)

lemma client_unseat: "client (unseat_client p g) q = (if q = p then map_option (\<lambda>c. c\<lparr> cl_lobby := None \<rparr>) (client g p) else client g q)"
  by (simp add: unseat_client_def client_upd)

lemma unseat_frame [simp]:
  "h_lobbies (unseat_client p g) = h_lobbies g" "h_next_session (unseat_client p g) = h_next_session g"
  "map fst (h_clients (unseat_client p g)) = map fst (h_clients g)" "h_require_login (unseat_client p g) = h_require_login g"
  by (simp_all add: unseat_client_def) (simp add: upd_client_def)

lemma home_unseat: "home (unseat_client p g) q = (if q = p then None else home g q)"
  by (cases "client g p") (simp_all add: home_def client_unseat)

lemma unseat_all:
  "h_lobbies (foldl (\<lambda>h p. unseat_client p h) g ps) = h_lobbies g"
  "map fst (h_clients (foldl (\<lambda>h p. unseat_client p h) g ps)) = map fst (h_clients g)"
  "home (foldl (\<lambda>h p. unseat_client p h) g ps) q = (if q \<in> set ps then None else home g q)"
  by (induction ps arbitrary: g) (auto simp: home_unseat)

lemma destroy_lobby_ok:
  assumes keys: "distinct (map fst (h_clients g))" "distinct (map fst (h_lobbies g))"
    and few: "length (h_lobbies g) \<le> MAX_LOBBIES" and rooms: "rooms_ok g"
    and others: "\<And>p k. k \<noteq> lid \<Longrightarrow> home g p = Some k \<longleftrightarrow> p \<in> members g k"
    and here: "\<And>p. home g p = Some lid \<Longrightarrow> p \<in> members g lid"
      "\<And>p k. p \<in> members g lid \<Longrightarrow> home g p = Some k \<Longrightarrow> k = lid"
  shows "hub_ok (destroy_lobby e lid g)"
proof (cases "lobby g lid")
  case None
  then have "home g p = Some lid \<longleftrightarrow> p \<in> members g lid" for p using here(1) [of p] by (auto simp: members_def)
  then have "hub_ok g" using keys few rooms others unfolding hub_ok_def by metis
  then show ?thesis using None by (simp add: destroy_lobby_def)
next
  case (Some l)
  let ?g0 = "g\<lparr> h_lobbies := AList.delete lid (h_lobbies g) \<rparr>"
  let ?g1 = "foldl (\<lambda>h p. unseat_client p h) ?g0 (member_ids l)"
  have lob: "lobby ?g1 k = (if k = lid then None else lobby g k)" for k
    by (simp add: lobby_def unseat_all)
  have "home ?g0 p = home g p" for p by (simp add: home_def client_def)
  then have home: "home ?g1 p = (if p \<in> members g lid then None else home g p)" for p
    using Some by (simp add: unseat_all(3) members_def)
  have mem: "members ?g1 k = (if k = lid then {} else members g k)" for k
    by (simp add: members_def lob)
  have iff: "home ?g1 p = Some k \<longleftrightarrow> p \<in> members ?g1 k" for p k
    using here(1) [of p] here(2) [of p k] others [of k p] by (auto simp: home mem)
  have "rooms_ok ?g1" using rooms by (auto simp: rooms_ok_def lob)
  moreover have "distinct (map fst (h_clients ?g1))" "distinct (map fst (h_lobbies ?g1))"
    using keys by (simp_all add: unseat_all distinct_delete)
  moreover have "length (h_lobbies ?g1) \<le> MAX_LOBBIES"
    using few length_delete_le [of lid "h_lobbies g"] by (simp add: unseat_all)
  ultimately have "hub_ok ?g1" using iff unfolding hub_ok_def by blast
  then show ?thesis using Some by (simp add: destroy_lobby_def Let_def)
qed



lemma hub_ok_homeD: "hub_ok g \<Longrightarrow> home g p = Some lid \<longleftrightarrow> p \<in> members g lid"
  by (simp add: hub_ok_def)

lemma hub_ok_one: "hub_ok g \<Longrightarrow> p \<in> members g a \<Longrightarrow> p \<in> members g b \<Longrightarrow> a = b"
  by (metis hub_ok_homeD option.inject)

lemma destroy_ok: "hub_ok g \<Longrightarrow> hub_ok (destroy_lobby e lid g)"
  by (rule destroy_lobby_ok) (auto simp: hub_ok_homeD dest: hub_ok_one, auto simp: hub_ok_def)

lemma handle_close_ok: "hub_ok g \<Longrightarrow> hub_ok (handle_close e p g)"
  by (auto simp: handle_close_def destroy_ok split: sum.split)

text \<open>One client out of one room: the common part of leaving and being kicked.\<close>

lemma take_out_ok:
  assumes ok: "hub_ok g" and l: "lobby g lid = Some l" and p: "home g p = Some lid"
    and l': "lb_id l' = lb_id l" "lobby_ok l'" "set (member_ids l') = set (member_ids l) - {p}"
  shows "hub_ok (upd_lobby lid (\<lambda>_. l') (unseat_client p g))"
proof -
  let ?g = "upd_lobby lid (\<lambda>_. l') (unseat_client p g)"
  have lob: "lobby ?g k = (if k = lid then Some l' else lobby g k)" for k
    using l by (simp add: lobby_upd) (simp add: lobby_def)
  have "rooms_ok ?g" using ok l'(1,2) hub_okD(1) [OF ok l] by (auto simp: hub_ok_def rooms_ok_def lob)
  moreover have "home ?g q = Some k \<longleftrightarrow> q \<in> members ?g k" for q k
    using hub_ok_homeD [OF ok, of q k] hub_okD(3) [OF ok l] l'(3) p
    by (auto simp: home_unseat members_def lob split: option.splits)
  moreover have "distinct (map fst (h_clients ?g))" "distinct (map fst (h_lobbies ?g))" "length (h_lobbies ?g) \<le> MAX_LOBBIES"
    using ok by (simp_all add: hub_ok_def) (simp_all add: upd_lobby_def)
  ultimately show ?thesis unfolding hub_ok_def by blast
qed

lemma client_leave_ok:
  assumes ok: "hub_ok g"
  shows "hub_ok (client_leave e p g)"
proof (cases "Option.bind (client g p) cl_lobby")
  case None
  then show ?thesis using ok by (simp add: client_leave_def)
next
  case (Some lid)
  then have home: "home g p = Some lid" by (simp add: home_def)
  then have "p \<in> members g lid" using hub_ok_homeD [OF ok] by blast
  then obtain l where l: "lobby g lid = Some l" by (auto simp: members_def split: option.splits)
  have l1: "lobby (unseat_client p g) lid = Some l" using l by (simp add: lobby_def)
  show ?thesis
  proof (cases "lb_host l = p \<or> lb_automatch l \<and> player_count l \<le> 2")
    case True
    have mem: "members (unseat_client p g) k = members g k" for k by (simp add: members_def lobby_def)
    have "hub_ok (destroy_lobby e lid (unseat_client p g))"
    proof (rule destroy_lobby_ok)
      show "rooms_ok (unseat_client p g)" using ok by (simp add: hub_ok_def rooms_ok_def lobby_def)
      show "distinct (map fst (h_clients (unseat_client p g)))" "distinct (map fst (h_lobbies (unseat_client p g)))"
        "length (h_lobbies (unseat_client p g)) \<le> MAX_LOBBIES"
        using ok by (simp_all add: hub_ok_def)
      show "\<And>q k. k \<noteq> lid \<Longrightarrow> home (unseat_client p g) q = Some k \<longleftrightarrow> q \<in> members (unseat_client p g) k"
        using hub_ok_homeD [OF ok] home by (auto simp: home_unseat mem dest: hub_ok_one [OF ok])
      show "\<And>q. home (unseat_client p g) q = Some lid \<Longrightarrow> q \<in> members (unseat_client p g) lid"
        "\<And>q k. q \<in> members (unseat_client p g) lid \<Longrightarrow> home (unseat_client p g) q = Some k \<Longrightarrow> k = lid"
        using hub_ok_homeD [OF ok] by (auto simp: home_unseat mem split: if_splits dest: hub_ok_one [OF ok])
    qed
    then show ?thesis using Some l1 True by (simp add: client_leave_def Let_def)
  next
    case False
    then have "p \<noteq> lb_host l" by auto
    note lv = leave_op_ok [OF hub_okD(2) [OF ok l] this]
    have "lb_id (leave_op p l) = lb_id l" using lv(3) by (simp add: same_shape_def)
    then have "hub_ok (upd_lobby lid (\<lambda>_. leave_op p l) (unseat_client p g))"
      by (rule take_out_ok [OF ok l home _ lv(1,2)])
    moreover have "upd_lobby lid (leave_op p) (unseat_client p g) = upd_lobby lid (\<lambda>_. leave_op p l) (unseat_client p g)"
      using modify_same [OF l1 [unfolded lobby_def]] by (simp add: upd_lobby_def)
    ultimately show ?thesis using Some l1 False by (auto simp: client_leave_def Let_def)
  qed
qed

lemma handle_leave_ok: "hub_ok g \<Longrightarrow> hub_ok (handle_leave e p g)"
  by (simp add: handle_leave_def client_leave_ok)

lemma handle_kick_ok:
  assumes ok: "hub_ok g" and kick: "handle_kick e p msg g = Inr g'"
  shows "hub_ok g'"
proof -
  obtain n where n: "m_slot msg = Some n" using kick by (auto simp: handle_kick_def split: option.splits)
  show ?thesis
  proof (cases "room_of g p")
    case (Inr x)
    obtain lid l where x: "x = (lid, l)" by force
    have l: "lobby g lid = Some l" using room_ofD Inr x by blast
    have "hub_ok (unseat_client (sl_player s) (upd_lobby lid (kick_op n) g))"
      if s: "occupant l n = Some s" and host: "sl_player s \<noteq> lb_host l" for s
    proof -
      have seat: "seat l n = Some (Some s)" using s occupant_eq [of l n] by auto
      have "s \<in> set (everyone l)" by (rule seat_in_everyone [OF seat])
      then have home: "home g (sl_player s) = Some lid" using hub_okD(4) [OF ok l] by (auto simp: member_ids_def)
      note k = kick_op_ok [OF hub_okD(2) [OF ok l] seat host] kick_op_roster(2) [OF seat]
      have "lb_id (kick_op n l) = lb_id l" using k(3) by (simp add: same_shape_def)
      then have "hub_ok (upd_lobby lid (\<lambda>_. kick_op n l) (unseat_client (sl_player s) g))"
        by (rule take_out_ok [OF ok l home _ k(1,2)])
      moreover have "unseat_client (sl_player s) (upd_lobby lid (kick_op n) g) =
          upd_lobby lid (\<lambda>_. kick_op n l) (unseat_client (sl_player s) g)"
        using modify_same [OF l [unfolded lobby_def]] by (simp add: upd_lobby_def unseat_client_def upd_client_def)
      ultimately show ?thesis by simp
    qed
    then show ?thesis using kick n Inr x ok
      by (auto simp: handle_kick_def Let_def split: option.splits if_splits)
  qed (use kick n ok in \<open>simp add: handle_kick_def\<close>)
qed

lemma rename_client_frame [simp]:
  "h_lobbies (rename_client p n g) = h_lobbies g" "h_next_session (rename_client p n g) = h_next_session g"
  "h_require_login (rename_client p n g) = h_require_login g"
  by (simp_all add: rename_client_def split: option.split)

lemma rename_client_ok: "hub_ok g \<Longrightarrow> hub_ok (rename_client p n g)"
  by (simp add: rename_client_def hub_ok_upd_client split: option.split)

lemma client_rename_client [simp]: "client (rename_client p n g) q = None \<longleftrightarrow> client g q = None"
  by (cases "nonempty n") (auto simp: rename_client_def client_upd)

lemma home_rename_client [simp]: "home (rename_client p n g) q = home g q"
proof (cases "nonempty n")
  case (Some m)
  then show ?thesis by (simp add: rename_client_def home_upd_client) (simp add: home_def)
qed (simp add: rename_client_def)

lemma somes_replicate_None [simp]: "somes (replicate n None) = []"
  by (induction n) auto

lemma new_lobby_ok:
  "lobby_ok (new_lobby e p ip msg g)" "member_ids (new_lobby e p ip msg g) = [p]"
  "lb_id (new_lobby e p ip msg g) = e_uuid e 0" "lb_host (new_lobby e p ip msg g) = p"
proof -
  let ?l = "new_lobby e p ip msg g"
  have "clamp_slots (m_max_slots msg) \<ge> 2" by (simp add: clamp_slots_def MAX_SLOTS_def)
  then obtain n where n: "clamp_slots (m_max_slots msg) = Suc n" by (cases "clamp_slots (m_max_slots msg)") auto
  have "everyone ?l = [new_slot p (client_name p g ''Host'') (client_country p g)]"
    by (simp add: new_lobby_def everyone_def Let_def n)
  then show m: "member_ids ?l = [p]" and "lobby_ok ?l"
    by (simp_all add: member_ids_def new_slot_def lobby_ok_def)
      (simp add: new_lobby_def Let_def clamp_slots_def MAX_SLOTS_def MAX_SPECTATORS_def)
  show "lb_id ?l = e_uuid e 0" "lb_host ?l = p" by (simp_all add: new_lobby_def Let_def)
qed

text \<open>One client into one room: the common part of creating and joining.\<close>

lemma put_in_ok:
  assumes ok: "hub_ok g" and p: "client g p = Some c" "home g p = None"
    and g': "\<And>q. home g' q = (if q = p then Some lid else home g q)"
      "\<And>k. lobby g' k = (if k = lid then Some l' else lobby g k)"
      "distinct (map fst (h_clients g'))" "distinct (map fst (h_lobbies g'))" "length (h_lobbies g') \<le> MAX_LOBBIES"
    and l': "lb_id l' = lid" "lobby_ok l'" "set (member_ids l') = insert p (members g lid)"
  shows "hub_ok g'"
proof -
  have "rooms_ok g'" using ok l'(1,2) by (simp add: hub_ok_def rooms_ok_def g'(2))
  moreover have mem: "members g' k = (if k = lid then insert p (members g lid) else members g k)" for k
    by (simp add: members_def g'(2) l'(3))
  moreover have "home g' q = Some k \<longleftrightarrow> q \<in> members g' k" for q k
    using hub_ok_homeD [OF ok, of q k] p(2) by (auto simp: g'(1) mem)
  ultimately show ?thesis using g'(3-5) unfolding hub_ok_def by blast
qed

lemma handle_create_ok:
  assumes ok: "hub_ok g" and p: "client g p \<noteq> None" and fresh: "lobby g (e_uuid e 0) = None"
  shows "hub_ok (handle_create e p ip msg g)"
proof (cases "home g p = None \<and> length (h_lobbies g) < MAX_LOBBIES")
  case False
  then show ?thesis using ok by (auto simp: handle_create_def home_def)
next
  case True
  let ?g1 = "rename_client p (m_display_name msg) g"
  let ?l = "new_lobby e p ip msg ?g1"
  let ?g2 = "?g1\<lparr> h_next_session := saturating_inc (h_next_session ?g1), h_lobbies := AList.update (lb_id ?l) ?l (h_lobbies ?g1) \<rparr>"
  let ?g3 = "upd_client p (\<lambda>c. c\<lparr> cl_lobby := Some (lb_id ?l), cl_game := lb_game ?l \<rparr>) ?g2"
  have ok1: "hub_ok ?g1" by (rule rename_client_ok [OF ok])
  have "client ?g1 p \<noteq> None" using p by simp
  then obtain c where c: "client ?g1 p = Some c" by blast
  have c2: "client ?g2 p = Some c" "home ?g2 q = home ?g1 q" for q using c by (simp_all add: client_def home_def)
  have "hub_ok ?g3"
  proof (rule put_in_ok [OF ok1 c])
    show "home ?g1 p = None" using True by simp
    show "home ?g3 q = (if q = p then Some (lb_id ?l) else home ?g1 q)" for q
      using c2 by (simp add: home_upd_client)
    show "lobby ?g3 k = (if k = lb_id ?l then Some ?l else lobby ?g1 k)" for k
      by (simp add: lobby_def)
    show "distinct (map fst (h_clients ?g3))" "distinct (map fst (h_lobbies ?g3))"
      using ok1 by (simp_all add: hub_ok_def upd_client_def distinct_update)
    have "map_of (h_lobbies ?g1) (lb_id ?l) = None" using fresh by (simp add: new_lobby_ok(3) lobby_def)
    then show "length (h_lobbies ?g3) \<le> MAX_LOBBIES"
      using True by (simp add: upd_client_def length_update_new)
    have "members ?g1 (lb_id ?l) = {}" using fresh by (simp add: members_def new_lobby_ok(3) lobby_def)
    then show "set (member_ids ?l) = insert p (members ?g1 (lb_id ?l))" by (simp add: new_lobby_ok(2))
  qed (simp_all add: new_lobby_ok)
  then show ?thesis using True by (simp add: handle_create_def home_def Let_def)
qed

lemma seat_joiner_locked_ok:
  assumes ok: "hub_ok g" and p: "client g p \<noteq> None" "home g p = None"
    and seat: "seat_joiner_locked e lid p ip gb pw offer g = SeatOk n g'"
  shows "hub_ok g'"
proof -
  obtain l where l: "lobby g lid = Some l" and free: "free_seat l = Some n"
    and g': "g' = (let name = unique_display_name (e_uuid e 0) l (client_name p g ''Guest'') (Some p);
          l' = seat_joiner n p name (client_country p g) (own_endpoint gb ip) l
        in upd_client p (\<lambda>c. c\<lparr> cl_lobby := Some lid, cl_display := name,
             cl_game := (if lb_game l \<noteq> [] then lb_game l else cl_game c) \<rparr>) (upd_lobby lid (\<lambda>_. l') g))"
    using seat by (auto simp: seat_joiner_locked_def Let_def split: option.splits if_splits)
  let ?name = "unique_display_name (e_uuid e 0) l (client_name p g ''Guest'') (Some p)"
  let ?l' = "seat_joiner n p ?name (client_country p g) (own_endpoint gb ip) l"
  obtain c where c: "client g p = Some c" using p(1) by blast
  note lok = hub_okD(2) [OF ok l]
  have new: "p \<notin> set (member_ids l)" using hub_okD(4) [OF ok l] p(2) by simp
  have name: "\<not> name_taken l (Some p) ?name"
    by (rule conjunct1 [OF unique_name_cases]) (use lobby_ok_few [OF lok] in simp)
  note j = seat_joiner_ok [OF lok free new name]
  have shape: "lb_id ?l' = lb_id l"
    using seat_joiner_roster(2) [OF free_seat_empty [OF lok free]] by (simp add: same_shape_def)
  show ?thesis
  proof (rule put_in_ok [OF ok c p(2)])
    show "home g' q = (if q = p then Some lid else home g q)" for q
      using c by (simp add: g' Let_def home_upd_client)
    show "lobby g' k = (if k = lid then Some ?l' else lobby g k)" for k
      using l by (simp add: g' Let_def lobby_upd)
    show "distinct (map fst (h_clients g'))" "distinct (map fst (h_lobbies g'))" "length (h_lobbies g') \<le> MAX_LOBBIES"
      using ok by (simp_all add: g' Let_def hub_ok_def upd_client_def upd_lobby_def)
    show "lb_id ?l' = lid" using shape hub_okD(1) [OF ok l] by simp
    show "lobby_ok ?l'" by (rule j(1))
    show "set (member_ids ?l') = insert p (members g lid)" using j(2) hub_okD(3) [OF ok l] by simp
  qed
qed

lemma join_outcome_ok:
  assumes "hub_ok g" "client g p \<noteq> None" "home g p = None" "join_outcome e lid p ip msg g = SeatOk n g'"
  shows "hub_ok g'"
  using assms(4) seat_joiner_locked_ok [OF assms(1-3)]
  by (auto simp: join_outcome_def split: option.splits if_splits)

lemma handle_join_ok:
  assumes ok: "hub_ok g" and p: "client g p \<noteq> None" and join: "handle_join e p ip msg g = Inr g'"
  shows "hub_ok g'"
proof -
  obtain lid where lid: "nonempty (m_lobby msg) = Some lid"
    using join by (auto simp: handle_join_def split: option.splits)
  let ?g1 = "rename_client p (m_display_name msg) g"
  have ok1: "hub_ok ?g1" by (rule rename_client_ok [OF ok])
  have c: "client ?g1 p \<noteq> None" using p by simp
  show ?thesis
  proof (cases "home g p")
    case None
    then have "hub_ok g2" if "join_outcome e lid p ip msg ?g1 = SeatOk n g2" for n g2
      using join_outcome_ok [OF ok1 c _ that] by simp
    then show ?thesis using join lid None ok1
      by (auto simp: handle_join_def Let_def home_def hub_ok_upd_client split: SeatResult.splits option.splits)
  qed (use join lid ok in \<open>auto simp: handle_join_def home_def\<close>)
qed

subsection \<open>What a start needs, and what a joiner is told\<close>

lemma spectator_counted: "lobby_ok l \<Longrightarrow> seat_of l p = Some n \<Longrightarrow> is_spectator_seat n \<Longrightarrow> spectator_count l > 0"
proof -
  assume ok: "lobby_ok l" and n: "seat_of l p = Some n" "is_spectator_seat n"
  obtain s where "seat l n = Some (Some s)" using seat_of_valid [OF ok n(1)] by blast
  then have "Some s \<in> set (lb_spectators l)"
    using n(2) by (auto simp: seat_def Let_def split: if_splits) (metis nth_mem)
  then have "filter (\<lambda>s. s \<noteq> None) (lb_spectators l) \<noteq> []" by (auto simp: filter_empty_conv)
  then show "spectator_count l > 0" by (simp add: spectator_count_def)
qed

lemma start_transport_Inr:
  assumes "start_transport now l caps ice = Inr (tr, why)"
  shows "spectator_count l = 0 \<and>
    (player_count l = 2 \<longrightarrow> \<not> ice \<longrightarrow>
       list_all (\<lambda>s. sl_player s = relay_host l \<or> sl_ice_path s = Some ''direct'' \<and> path_fresh now s) (somes (lb_slots l))) \<and>
    (tr = IceTransport \<longrightarrow> ice \<and> player_count l = 2)"
  using assms by (auto simp: start_transport_def host_relay_decision_def list_ex_iff list_all_iff split: sum.splits if_splits)

lemma map_players_ready: "list_all (\<lambda>s. \<not> sl_ready s) (somes (lb_slots (unready_players l)))"
  by (simp add: unready_players_def map_players_def list_all_iff)

lemma start_lobby_Inr:
  assumes "start_lobby e lid raw init ice g = Inr g'"
  obtains l tr why where "lobby g lid = Some l" "2 \<le> player_count l"
    "start_transport (e_now e) l (or_option (sanitize_match_caps (e_json_len e) raw) (lb_match_caps l)) ice = Inr (tr, why)"
    "lobby g' lid = Some (start_commit (sanitize_match_caps (e_json_len e) raw) (h_next_session g) l)"
    "h_next_session g' = saturating_inc (h_next_session g)"
proof -
  let ?fresh = "sanitize_match_caps (e_json_len e) raw" and ?n = "h_next_session g"
  obtain l where l: "lobby g lid = Some l" "2 \<le> player_count l"
    using assms by (auto simp: start_lobby_def Let_def split: option.splits if_splits)
  obtain tr why where t: "start_transport (e_now e) l (or_option ?fresh (lb_match_caps l)) ice = Inr (tr, why)"
    using assms l by (auto simp: start_lobby_def Let_def split: sum.splits)
  let ?g1 = "upd_lobby lid (\<lambda>_. start_commit ?fresh ?n l) (g\<lparr> h_next_session := saturating_inc ?n \<rparr>)"
  have g1: "lobby ?g1 lid = Some (start_commit ?fresh ?n l)"
    using l by (simp add: lobby_upd) (simp add: lobby_def)
  have "\<exists>ps m. g' = send_all ps m ?g1"
    using assms l t unfolding start_lobby_def Let_def by auto
  then have "h_lobbies g' = h_lobbies ?g1" "h_next_session g' = h_next_session ?g1" by auto
  then show ?thesis using that [OF l t] g1 lobby_cong [of g' ?g1 lid] by simp
qed


definition demo_client :: ClientMeta where
  "demo_client = \<lparr> cl_display = ''Ann'', cl_account = None, cl_peer_ip = ''1.1.1.1'', cl_country = [], cl_game = [],
     cl_lobby = Some ''L1'', cl_pending_mod = None, cl_blocks = [], cl_probe_rtt = -1, cl_bucket = new_bucket \<rparr>"

definition demo_hub :: Hub where
  "demo_hub = (empty_hub False)\<lparr> h_clients := [(''a'', demo_client), (''b'', demo_client)],
     h_lobbies := [(''L1'', demo_lobby\<lparr> lb_spectators := [None] \<rparr>)] \<rparr>"

definition demo_hub_env :: HubEnv where
  "demo_hub_env = \<lparr> e_now = 0, e_uuid = (\<lambda>n. ''R1''), e_salt = [], e_hash = (\<lambda>pw salt. pw), e_json_len = (\<lambda>_. 0),
     e_filter = demo_filter, e_lower = (\<lambda>s. s), e_config = demo_cfg, e_players = [], e_unix = 0, e_jwt = (\<lambda>_ _ _. None),
     e_vars = (\<lambda>_. None), e_hmac = (\<lambda>_ _. []), e_parse_uuid = (\<lambda>_. None) \<rparr>"

lemma demo_hub_ok: "hub_ok demo_hub"
  by (auto simp: hub_ok_def demo_hub_def empty_hub_def rooms_ok_def home_def members_def client_def lobby_def demo_client_def
      MAX_LOBBIES_def lobby_ok_def demo_lobby_def member_ids_def everyone_def demo_seat_def split: if_splits)


lemma seat_joiner_codes:
  assumes "seat_joiner_locked e lid p ip gb pw offer g = SeatErr c" "lobby g lid = Some l"
  shows "c = ''need_password'' \<or> c = ''bad_password'' \<or> c = ''full''"
  using assms
  by (auto simp: seat_joiner_locked_def password_error_def Let_def split: option.splits if_splits)

text \<open>
  What a blocked joiner is told.  The reply \<open>no_such_lobby\<close> is given exactly to joiners of an
  existing room whose host blocks them or is blocked by them, whatever else is wrong with the
  request, and the reply \<open>gone\<close> exactly when the room does not exist: the two can be told apart.
\<close>
theorem blocked_joiners_are_told_apart:
  "(join_outcome e lid p ip msg g = SeatErr ''no_such_lobby'' \<longleftrightarrow>
      (case lobby g lid of Some l \<Rightarrow> lb_host l \<noteq> [] \<and> blocked_between g p (lb_host l) | None \<Rightarrow> False)) \<and>
   (join_outcome e lid p ip msg g = SeatErr ''gone'' \<longleftrightarrow> lobby g lid = None)"
proof (cases "lobby g lid")
  case None
  then show ?thesis by (simp add: join_outcome_def)
next
  case (Some l)
  have "seat_joiner_locked e lid p ip gb pw offer g \<noteq> SeatErr ''no_such_lobby''"
    "seat_joiner_locked e lid p ip gb pw offer g \<noteq> SeatErr ''gone''" for gb pw offer
    using seat_joiner_codes [OF _ Some, of e p ip gb pw offer] by fastforce+
  then show ?thesis using Some by (simp add: join_outcome_def split: option.split)
qed

end
