(* ===== verification/Hub_Talk.thy ===== *)
theory Hub_Talk
  imports Hub_Rooms
begin

text \<open>
  The messages of \<^verbatim>\<open>src/ws_lobby.rs\<close> that leave everybody where they are: chat, signalling
  between members, latency probes, the transfer of missing mods, blocks, identity, the list
  and TURN credentials.
\<close>

subsection \<open>Chat\<close>

definition CHAT_MAX_CHARS :: nat where "CHAT_MAX_CHARS = 240"
definition MAX_BLOCKS :: nat where "MAX_BLOCKS = 256"

definition chat_text :: "string option \<Rightarrow> string" where
  "chat_text t = trim (of_chars (take CHAT_MAX_CHARS (filter (\<lambda>c. \<not> is_control c) (chars (unwrap_or t [])))))"

definition client_game :: "string \<Rightarrow> Hub \<Rightarrow> string" where
  "client_game p g = (case client g p of Some c \<Rightarrow> cl_game c | None \<Rightarrow> [])"

definition handle_chat :: "HubEnv \<Rightarrow> string \<Rightarrow> InMsg \<Rightarrow> Hub \<Rightarrow> Hub" where
  "handle_chat e p msg g =
     (let raw = chat_text (m_text msg)
      in if raw = [] then g
         else let text = mask (e_filter e) raw
              in case Option.bind (client g p) cl_lobby of
                   None \<Rightarrow> refuse p ''not_in_lobby'' g
                 | Some lid \<Rightarrow>
                     (case lobby g lid of
                        None \<Rightarrow> g
                      | Some l \<Rightarrow>
                          (case slot_of_player l p of
                             None \<Rightarrow> g
                           | Some s \<Rightarrow>
                               let acct = account_of g p;
                                   (g1, mid) = remember_chat acct (sl_display s) text ''lobby'' lid (client_game p g) g
                               in send_all (member_ids l) (JObj
                                    [(''op'', JStr ''chat''), (''lobby_id'', JStr lid), (''mid'', JStr mid), (''from_player_id'', JStr p),
                                     (''from_account'', JStr acct), (''from'', JStr (sl_display s)), (''text'', JStr text)]) g1)))"

definition set_game :: "string \<Rightarrow> string option \<Rightarrow> Hub \<Rightarrow> Hub" where
  "set_game p game g = (case game of None \<Rightarrow> g | Some gn \<Rightarrow> upd_client p (\<lambda>c. c\<lparr> cl_game := gn \<rparr>) g)"

definition server_audience :: "Hub \<Rightarrow> string \<Rightarrow> string list" where
  "server_audience g scope = filter (\<lambda>q. game_scope_for g q = scope) (keys (h_clients g))"

definition handle_server_chat :: "HubEnv \<Rightarrow> string \<Rightarrow> InMsg \<Rightarrow> Hub \<Rightarrow> Hub" where
  "handle_server_chat e p msg g =
     (let raw = chat_text (m_text msg)
      in if raw = [] then g
         else let text = mask (e_filter e) raw;
                  g1 = set_game p (nonempty (m_game msg)) g;
                  scope = game_scope_for g1 p
              in if scope = [] then refuse p ''no_game'' g1
                 else let g2 = upd_client p (\<lambda>c. c\<lparr> cl_game := (if cl_game c = [] then scope else cl_game c) \<rparr>) g1
                      in case client g2 p of
                           None \<Rightarrow> g2
                         | Some c \<Rightarrow>
                             let targets = server_audience g2 scope;
                                 (g3, mid) = remember_chat (account_id c) (cl_display c) text ''server'' [] scope g2
                             in send_all targets (JObj
                                  [(''op'', JStr ''server_chat''), (''game_name'', JStr scope), (''mid'', JStr mid),
                                   (''from_player_id'', JStr p), (''from_account'', JStr (account_id c)),
                                   (''from'', JStr (cl_display c)), (''country'', JStr (cl_country c)), (''text'', JStr text)]) g3)"

definition handle_set_blocks :: "string \<Rightarrow> InMsg \<Rightarrow> Hub \<Rightarrow> Hub" where
  "handle_set_blocks p msg g =
     upd_client p (\<lambda>c. c\<lparr> cl_blocks := take MAX_BLOCKS (filter (\<lambda>s. trim s \<noteq> []) (unwrap_or (m_accounts msg) [])) \<rparr>) g"

subsection \<open>Signals and probes\<close>

definition SIGNAL_TEXT_MAX :: nat where "SIGNAL_TEXT_MAX = 4096"
definition ICE_SIGNAL :: "int \<Rightarrow> bool" where "ICE_SIGNAL ty \<longleftrightarrow> 130 \<le> ty \<and> ty \<le> 136"
definition PROBE_SIGNAL :: "int \<Rightarrow> bool" where "PROBE_SIGNAL ty \<longleftrightarrow> 1 \<le> ty \<and> ty \<le> 6"
definition PROBE_GRANT_TTL :: ns where "PROBE_GRANT_TTL = 20000000000"
definition PROBE_GRANTS_PER_CLIENT :: nat where "PROBE_GRANTS_PER_CLIENT = 32"

text \<open>\<^verbatim>\<open>signal_bucket.allow(now)\<close> of a client: \<open>False\<close> for one that is gone.\<close>

definition within_rate :: "ns \<Rightarrow> string \<Rightarrow> Hub \<Rightarrow> Hub \<times> bool" where
  "within_rate now p g =
     (case client g p of
        None \<Rightarrow> (g, False)
      | Some c \<Rightarrow>
          (case bucket_allow now (cl_bucket c) of (b, ok) \<Rightarrow> (upd_client p (\<lambda>c. c\<lparr> cl_bucket := b \<rparr>) g, ok)))"

definition signal_json :: "string \<Rightarrow> string \<Rightarrow> string \<Rightarrow> InMsg \<Rightarrow> json" where
  "signal_json op lid p msg = JObj
     [(''op'', JStr op), (''lobby_id'', JStr lid), (''from_player_id'', JStr p), (''type'', JInt (unwrap_or (m_type msg) 0)),
      (''flag'', JInt (unwrap_or (m_flag msg) 0)), (''text'', JStr (unwrap_or (m_text msg) []))]"

definition may_signal :: "Lobby \<Rightarrow> string \<Rightarrow> int \<Rightarrow> bool" where
  "may_signal l p ty = (case seat_of l p of Some n \<Rightarrow> \<not> (is_spectator_seat n \<and> ICE_SIGNAL ty) | None \<Rightarrow> False)"

definition handle_signal :: "HubEnv \<Rightarrow> string \<Rightarrow> InMsg \<Rightarrow> Hub \<Rightarrow> string + Hub" where
  "handle_signal e p msg g =
     (case or_option (m_lobby msg) (Option.bind (client g p) cl_lobby) of
        None \<Rightarrow> Inl ''no lobby''
      | Some lid \<Rightarrow>
          Inr (case lobby g lid of
            None \<Rightarrow> g
          | Some l \<Rightarrow>
              if \<not> may_signal l p (unwrap_or (m_type msg) 0) then g
              else if length (unwrap_or (m_text msg) []) > SIGNAL_TEXT_MAX then g
              else (case within_rate (e_now e) p g of
                      (g1, ok) \<Rightarrow>
                        if \<not> ok then g1
                        else let to = unwrap_or (m_to msg) [];
                                 targets = filter (\<lambda>q. to = [] \<or> q = to) (filter (\<lambda>q. q \<noteq> p) (member_ids l))
                             in send_all targets (signal_json ''signal'' lid p msg) g1)))"

definition probeable :: "Hub \<Rightarrow> Lobby \<Rightarrow> string \<Rightarrow> bool" where
  "probeable g l p \<longleftrightarrow>
     \<not> (lb_automatch l \<or> lb_started l \<or> lb_password_hash l \<noteq> None \<or> seat_of l p \<noteq> None) \<and>
     \<not> blocked_between g p (lb_host l)"

definition handle_probe_signal :: "HubEnv \<Rightarrow> string \<Rightarrow> InMsg \<Rightarrow> Hub \<Rightarrow> Hub" where
  "handle_probe_signal e p msg g =
     (case nonempty (m_lobby msg) of
        None \<Rightarrow> g
      | Some lid \<Rightarrow>
          if \<not> PROBE_SIGNAL (unwrap_or (m_type msg) 0) \<or> length (unwrap_or (m_text msg) []) > SIGNAL_TEXT_MAX then g
          else (case within_rate (e_now e) p g of
            (g1, ok) \<Rightarrow>
              if \<not> ok then g1
              else let g2 = g1\<lparr> h_probe_grants :=
                              filter (\<lambda>(k, t). max (e_now e - t) 0 < PROBE_GRANT_TTL) (h_probe_grants g1) \<rparr>
                   in case lobby g2 lid of
                        None \<Rightarrow> g2
                      | Some l \<Rightarrow>
                          if lb_host l = p
                          then let to = unwrap_or (m_to msg) []
                               in if map_of (h_probe_grants g2) (to, lid) = None then g2
                                  else send_to to (signal_json ''probe_signal'' lid p msg) g2
                          else let at_cap = map_of (h_probe_grants g2) (p, lid) = None \<and>
                                     length (filter (\<lambda>(b, _). b = p) (keys (h_probe_grants g2))) \<ge> PROBE_GRANTS_PER_CLIENT
                               in if at_cap \<or> \<not> probeable g2 l p then g2
                                  else send_to (lb_host l) (signal_json ''probe_signal'' lid p msg)
                                         (g2\<lparr> h_probe_grants := AList.update (p, lid) (e_now e) (h_probe_grants g2) \<rparr>)))"

subsection \<open>Transfer of missing mods\<close>

definition pending_of :: "string \<Rightarrow> Hub \<Rightarrow> string option" where
  "pending_of p g = Option.bind (client g p) cl_pending_mod"

definition handle_mod_xfer_start :: "string \<Rightarrow> InMsg \<Rightarrow> Hub \<Rightarrow> Hub" where
  "handle_mod_xfer_start p msg g =
     (let lid = unwrap_or (m_lobby msg) []
      in if lid = [] then refuse p ''gone'' g
         else if pending_of p g \<noteq> Some lid then refuse p ''need_mods'' g
         else (case lobby g lid of
                 None \<Rightarrow> refuse p ''gone'' g
               | Some l \<Rightarrow> send_to (lb_host l) (JObj
                   [(''op'', JStr ''mod_xfer_pull''), (''from_player_id'', JStr p), (''lobby_id'', JStr lid),
                    (''mods'', JArr (required_mod_rows (lb_match_caps l)))]) g))"

definition handle_mod_xfer_cancel :: "string \<Rightarrow> Hub \<Rightarrow> Hub" where
  "handle_mod_xfer_cancel p g = upd_client p (\<lambda>c. c\<lparr> cl_pending_mod := None \<rparr>) g"

definition xfer_relay_ok :: "Hub \<Rightarrow> string \<Rightarrow> string \<Rightarrow> string + string" where
  "xfer_relay_ok g from_id to_id =
     (case client g to_id of
        None \<Rightarrow> Inl ''gone''
      | Some to \<Rightarrow>
          (case cl_pending_mod to of
             None \<Rightarrow> Inl ''need_mods''
           | Some lid \<Rightarrow>
               (case lobby g lid of
                  None \<Rightarrow> Inl ''gone''
                | Some l \<Rightarrow> if lb_host l \<noteq> from_id then Inl ''not_host'' else Inr to_id)))"

definition handle_mod_signal :: "string \<Rightarrow> InMsg \<Rightarrow> Hub \<Rightarrow> string + Hub" where
  "handle_mod_signal p msg g =
     (case client g p of
        None \<Rightarrow> Inl ''gone''
      | Some c \<Rightarrow>
          (case or_option (or_option (m_lobby msg) (cl_pending_mod c)) (cl_lobby c) of
             None \<Rightarrow> Inl ''no lobby''
           | Some lid \<Rightarrow>
               Inr (case lobby g lid of
                 None \<Rightarrow> g
               | Some l \<Rightarrow>
                   let pending = cl_pending_mod c = Some lid; to = unwrap_or (m_to msg) []
                   in if \<not> pending \<and> lb_host l \<noteq> p then g
                      else if pending then send_to (lb_host l) (signal_json ''mod_signal'' lid p msg) g
                      else if to = [] \<or> pending_of to g \<noteq> Some lid then g
                      else send_to to (signal_json ''mod_signal'' lid p msg) g)))"

definition handle_mod_xfer_fail :: "string \<Rightarrow> InMsg \<Rightarrow> Hub \<Rightarrow> Hub" where
  "handle_mod_xfer_fail p msg g =
     (let dest = (case xfer_relay_ok g p (unwrap_or (m_to msg) []) of
                    Inr d \<Rightarrow> Some d
                  | Inl _ \<Rightarrow> Option.bind (pending_of p g) (\<lambda>lid. map_option lb_host (lobby g lid)))
      in case dest of
           None \<Rightarrow> g
         | Some d \<Rightarrow> send_to d (JObj [(''op'', JStr ''mod_xfer_fail''),
                        (''error'', JStr (unwrap_or (m_error msg) ''export failed''))]) g)"

subsection \<open>Identity, list, TURN credentials\<close>

definition apply_identity :: "HubEnv \<Rightarrow> string \<Rightarrow> string option \<Rightarrow> string option \<Rightarrow> Hub \<Rightarrow> Hub \<times> string \<times> string option" where
  "apply_identity e p name game g =
     (let g1 = upd_client p (\<lambda>c. c\<lparr> cl_display := unwrap_or name (cl_display c), cl_game := unwrap_or game (cl_game c) \<rparr>) g;
          (g2, renamed) =
            (case name of
               None \<Rightarrow> (g1, None)
             | Some n \<Rightarrow>
                 (case room_of g1 p of
                    Inl _ \<Rightarrow> (g1, None)
                  | Inr (lid, l) \<Rightarrow>
                      let unique = unique_display_name (e_uuid e 0) l n (Some p);
                          changes = (case slot_of_player l p of Some s \<Rightarrow> sl_display s \<noteq> unique | None \<Rightarrow> False)
                      in (upd_client p (\<lambda>c. c\<lparr> cl_display := unique \<rparr>)
                            (if changes then upd_lobby lid (\<lambda>_. rename_op p unique l) g1 else g1),
                          if changes then Some lid else None)))
      in (g2, client_name p g2 [], renamed))"

definition session_account :: "HubEnv \<Rightarrow> string \<Rightarrow> unit + Player option" where
  "session_account e tok =
     (case verify_session_token (e_jwt e) (int (e_unix e)) (e_config e) tok of
        Inl _ \<Rightarrow> Inl () | Inr c \<Rightarrow> Inr (load_player (e_players e) (sub c)))"

definition signed_in :: "string \<Rightarrow> Hub \<Rightarrow> bool" where
  "signed_in p g = (case client g p of Some c \<Rightarrow> cl_account c \<noteq> None | None \<Rightarrow> False)"

definition handle_hello :: "HubEnv \<Rightarrow> string \<Rightarrow> InMsg \<Rightarrow> Hub \<Rightarrow> Hub" where
  "handle_hello e p msg g =
     (let (g1, name) =
            (case nonempty (m_session msg) of
               None \<Rightarrow> (g, nonempty (m_display_name msg))
             | Some tok \<Rightarrow>
                 (case session_account e tok of
                    Inr (Some player) \<Rightarrow> (upd_client p (\<lambda>c. c\<lparr> cl_account := Some player \<rparr>) g, Some (pl_handle player))
                  | Inr None \<Rightarrow> (g, nonempty (m_display_name msg))
                  | Inl _ \<Rightarrow> (refuse p ''session_invalid'' g, nonempty (m_display_name msg))));
          (g2, accepted, renamed) = apply_identity e p name (nonempty (m_game msg)) g1
      in if h_require_login g2 \<and> \<not> signed_in p g2 then refuse p ''login_required'' g2
         else let g3 = send_to p (JObj [(''op'', JStr ''hello_ok''), (''ok'', JBool True), (''display_name'', JStr accepted)]) g2
              in case renamed of Some lid \<Rightarrow> emit_lobby_update e lid g3 | None \<Rightarrow> g3)"

definition handle_list :: "HubEnv \<Rightarrow> string \<Rightarrow> InMsg \<Rightarrow> Hub \<Rightarrow> Hub" where
  "handle_list e p msg g =
     (let g1 = set_game p (nonempty (m_game msg)) g
      in send_to p (lobby_list_json_filtered e g1 (nonempty (m_game msg)) (nonempty (map_option trim (m_version msg)))) g1)"

definition turn_error :: "string \<Rightarrow> json" where
  "turn_error code = JObj [(''op'', JStr ''turn_credentials''), (''ok'', JBool False), (''error'', JStr code)]"

definition handle_get_turn_credentials :: "HubEnv \<Rightarrow> string \<Rightarrow> Hub \<Rightarrow> Hub" where
  "handle_get_turn_credentials e p g =
     (case e_parse_uuid e p of
        None \<Rightarrow> send_to p (turn_error ''bad_player_id'') g
      | Some u \<Rightarrow>
          (case turn_from_env (e_vars e) of
             None \<Rightarrow> send_to p (turn_error ''coturn_unconfigured'') g
           | Some cfg \<Rightarrow>
               (case issue_credentials (e_hmac e) uuid_text (e_unix e) cfg u of
                  (username, password) \<Rightarrow> send_to p (JObj
                    [(''op'', JStr ''turn_credentials''), (''ok'', JBool True), (''stun_host'', JStr (stun_host cfg)),
                     (''stun_port'', jnat (stun_port cfg)), (''turn_host'', JStr (turn_host cfg)), (''turn_port'', jnat (turn_port cfg)),
                     (''turns_port'', jnat (turns_port cfg)), (''realm'', JStr (turn_realm cfg)), (''username'', JStr username),
                     (''password'', JStr password), (''ttl_secs'', jnat (turn_ttl_secs cfg))]) g)))"

subsection \<open>They keep the invariant of the hub\<close>

lemma remember_chat_frame [simp]:
  "h_clients (fst (remember_chat a n t s l gm g)) = h_clients g" "h_lobbies (fst (remember_chat a n t s l gm g)) = h_lobbies g"
  by (simp_all add: remember_chat_def Let_def)

lemma remember_chat_ok: "remember_chat a n t s l gm g = (g1, mid) \<Longrightarrow> hub_ok g1 = hub_ok g"
  by (rule hub_ok_cong) (auto simp: remember_chat_def Let_def)

lemma chat_handlers_ok:
  assumes ok: "hub_ok g"
  shows "hub_ok (handle_chat e p msg g)" "hub_ok (handle_server_chat e p msg g)" "hub_ok (handle_set_blocks p msg g)"
    "hub_ok (set_game p gm g)" "hub_ok (handle_list e p msg g)"
proof -
  show game: "hub_ok (set_game p gm g)" for gm
    using ok by (simp add: set_game_def hub_ok_upd_client split: option.split)
  show "hub_ok (handle_chat e p msg g)"
    using ok by (auto simp: handle_chat_def Let_def dest: remember_chat_ok split: option.split prod.split)
  show "hub_ok (handle_server_chat e p msg g)"
    using game [of "nonempty (m_game msg)"] ok
    by (auto simp: handle_server_chat_def Let_def hub_ok_upd_client dest: remember_chat_ok split: option.split prod.split if_split)
  show "hub_ok (handle_set_blocks p msg g)"
    using ok by (simp add: handle_set_blocks_def hub_ok_upd_client)
  show "hub_ok (handle_list e p msg g)" using game by (simp add: handle_list_def Let_def)
qed

lemma within_rate_ok: "hub_ok g \<Longrightarrow> within_rate now p g = (g1, b) \<Longrightarrow> hub_ok g1"
  by (auto simp: within_rate_def hub_ok_upd_client split: option.splits prod.splits)

lemma hub_ok_grants [simp]: "hub_ok (g\<lparr> h_probe_grants := x \<rparr>) = hub_ok g"
  by (rule hub_ok_cong) simp_all

lemma handle_signal_ok: "hub_ok g \<Longrightarrow> handle_signal e p msg g = Inr g' \<Longrightarrow> hub_ok g'"
  by (auto simp: handle_signal_def Let_def dest: within_rate_ok split: option.splits prod.splits if_splits)

lemma handle_probe_signal_ok: "hub_ok g \<Longrightarrow> hub_ok (handle_probe_signal e p msg g)"
  by (auto simp: handle_probe_signal_def Let_def dest: within_rate_ok split: option.split prod.split)

lemma mod_handlers_ok:
  assumes ok: "hub_ok g"
  shows "hub_ok (handle_mod_xfer_start p msg g)" "hub_ok (handle_mod_xfer_cancel p g)"
    "handle_mod_signal p msg g = Inr g' \<Longrightarrow> hub_ok g'" "hub_ok (handle_mod_xfer_fail p msg g)"
    "hub_ok (handle_get_turn_credentials e p g)"
proof -
  show "hub_ok (handle_mod_xfer_start p msg g)"
    using ok by (simp add: handle_mod_xfer_start_def Let_def split: option.split)
  show "hub_ok (handle_mod_xfer_cancel p g)" using ok by (simp add: handle_mod_xfer_cancel_def hub_ok_upd_client)
  show "handle_mod_signal p msg g = Inr g' \<Longrightarrow> hub_ok g'"
    using ok by (auto simp: handle_mod_signal_def Let_def split: option.splits if_splits)
  show "hub_ok (handle_mod_xfer_fail p msg g)"
    using ok by (simp add: handle_mod_xfer_fail_def Let_def split: option.split)
  show "hub_ok (handle_get_turn_credentials e p g)"
    using ok by (simp add: handle_get_turn_credentials_def split: option.split prod.split)
qed

lemma rename_room_ok:
  assumes ok: "hub_ok g" and l: "lobby g lid = Some l"
  shows "hub_ok (upd_lobby lid (\<lambda>_. rename_op p (unique_display_name fresh l n (Some p)) l) g)"
proof -
  note lok = hub_okD(2) [OF ok l]
  have "\<not> name_taken l (Some p) (unique_display_name fresh l n (Some p))"
    by (rule conjunct1 [OF unique_name_cases]) (use lobby_ok_few [OF lok] in simp)
  note r = rename_op_ok [OF lok this]
  show ?thesis
    by (rule hub_ok_upd_lobby [OF ok l _ r]) (use rename_shape in \<open>simp add: same_shape_def\<close>)
qed

lemma apply_identity_ok:
  assumes ok: "hub_ok g" and a: "apply_identity e p name game g = (g', acc, r)"
  shows "hub_ok g'"
proof -
  define g1 where "g1 = upd_client p (\<lambda>c. c\<lparr> cl_display := unwrap_or name (cl_display c), cl_game := unwrap_or game (cl_game c) \<rparr>) g"
  have ok1: "hub_ok g1" by (simp add: g1_def hub_ok_upd_client ok)
  note a' = a [unfolded apply_identity_def g1_def [symmetric] Let_def]
  show ?thesis
  proof (cases name)
    case None
    then show ?thesis using a' ok1 by simp
  next
    case (Some n)
    show ?thesis
    proof (cases "room_of g1 p")
      case (Inl c)
      then show ?thesis using a' ok1 Some by simp
    next
      case (Inr x)
      obtain lid l where x: "x = (lid, l)" by force
      have l: "lobby g1 lid = Some l" using room_ofD Inr x by blast
      have both: "hub_ok (upd_client p (\<lambda>c. c\<lparr> cl_display := u \<rparr>)
          (if b then upd_lobby lid (\<lambda>_. rename_op p (unique_display_name (e_uuid e 0) l n (Some p)) l) g1 else g1))" for b u
        using rename_room_ok [OF ok1 l] ok1 by (simp add: hub_ok_upd_client)
      show ?thesis using a' both unfolding Some Inr x by (simp del: if_split) blast
    qed
  qed
qed

lemma handle_hello_ok:
  assumes ok: "hub_ok g"
  shows "hub_ok (handle_hello e p msg g)"
proof -
  define a where "a = (case nonempty (m_session msg) of
               None \<Rightarrow> (g, nonempty (m_display_name msg))
             | Some tok \<Rightarrow>
                 (case session_account e tok of
                    Inr (Some player) \<Rightarrow> (upd_client p (\<lambda>c. c\<lparr> cl_account := Some player \<rparr>) g, Some (pl_handle player))
                  | Inr None \<Rightarrow> (g, nonempty (m_display_name msg))
                  | Inl _ \<Rightarrow> (refuse p ''session_invalid'' g, nonempty (m_display_name msg))))"
  obtain g1 name where a1: "a = (g1, name)" by force
  have ok1: "hub_ok g1"
    using a1 ok unfolding a_def by (auto simp: hub_ok_upd_client split: option.splits sum.splits)
  obtain g2 acc r where i: "apply_identity e p name (nonempty (m_game msg)) g1 = (g2, acc, r)" by (metis surj_pair)
  note apply_identity_ok [OF ok1 i]
  then show ?thesis
    unfolding handle_hello_def a_def [symmetric] a1 Let_def by (simp add: i split: option.split)
qed

end
