(* ===== verification/Rulesets.thy ===== *)
theory Rulesets
  imports Json_Value
begin

text \<open>
  Automatch queue types (\<^verbatim>\<open>src/automatch.rs\<close>, first half): loading and resolving rulesets, the
  delay floor two measured round trips impose, and the check of cosmetic exemptions.  Reading
  and parsing the TOML file is left out: \<open>load\<close> takes the parsed entries, or \<open>None\<close> when the
  file could not be read or parsed.  The length of a serialised value is the parameter
  \<open>json_len\<close>.  \<^verbatim>\<open>f64\<close> is idealised as \<^typ>\<open>rat\<close>; \<^verbatim>\<open>u32\<close> and \<^verbatim>\<open>i32\<close> values are numbers
  with the wrap-around and saturation of the source written out.
\<close>

definition u32_max :: nat where
  [rust_simps]: "u32_max = 4294967295"

definition wrap32 :: "nat \<Rightarrow> nat" where
  [rust_simps]: "wrap32 n = n mod 4294967296"

definition clamp_val :: "'a::linorder \<Rightarrow> 'a \<Rightarrow> 'a \<Rightarrow> 'a" where
  [rust_simps]: "clamp_val lo hi n = (if n < lo then lo else if n > hi then hi else n)"

subsection \<open>Rulesets\<close>

definition MAX_CAPS_BYTES :: nat where
  "MAX_CAPS_BYTES = 4096"

definition DEFAULT_FRAME_MS :: rat where
  "DEFAULT_FRAME_MS = 1000 / 60"

record Ruleset =
  rs_id :: string
  rs_label :: string
  rs_game_name :: string
  rs_game_version :: string
  rs_max_slots :: nat
  rs_match_caps :: json
  rs_caps_summary :: string
  rs_frame_ms :: rat

record RulesetEntry =
  re_id :: string
  re_label :: string
  re_game_name :: string
  re_game_version :: string
  re_max_slots :: nat
  re_match_caps :: json
  re_frame_ms :: "rat option"

type_synonym Rulesets = "(string, Ruleset list) hashmap"

definition for_game :: "Rulesets \<Rightarrow> string \<Rightarrow> Ruleset list" where
  "for_game rs g = unwrap_or (map_of rs g) []"

definition resolve :: "Rulesets \<Rightarrow> string \<Rightarrow> string \<Rightarrow> Ruleset option" where
  "resolve rs g i =
     (let l = for_game rs g
      in if i = [] then (case l of [] \<Rightarrow> None | r # _ \<Rightarrow> Some r) else List.find (\<lambda>r. rs_id r = i) l)"

definition validate :: "(json \<Rightarrow> nat) \<Rightarrow> RulesetEntry \<Rightarrow> (string \<times> string) list \<Rightarrow> string option" where
  "validate json_len e seen =
     (if trim (re_id e) = [] then Some ''empty id''
      else if trim (re_game_name e) = [] then Some ''empty game_name''
      else if list_ex (\<lambda>(g, i). g = re_game_name e \<and> i = re_id e) seen then Some ''duplicate (game_name, id)''
      else if re_max_slots e \<noteq> 2 then Some ''max_slots must be 2 in v1''
      else if \<not> is_null (re_match_caps e) \<and> \<not> is_object (re_match_caps e) then Some ''match_caps must be a table''
      else if jget ''mods'' (re_match_caps e) \<noteq> None then Some ''match_caps.mods is not supported in v1 (vanilla only)''
      else if json_len (re_match_caps e) > MAX_CAPS_BYTES then Some ''match_caps too large''
      else None)"

definition show_int :: "int \<Rightarrow> string" where
  "show_int n = (if n < 0 then ''-'' @ show_nat (nat (- n)) else show_nat (nat n))"

definition summarize :: "json \<Rightarrow> string" where
  "summarize caps = join_with '' - ''
     ((case field as_i64 ''input_delay'' caps of Some d \<Rightarrow> [''Delay '' @ show_int d @ ''+''] | None \<Rightarrow> [''Delay auto'']) @
      (case field as_bool ''rollback'' caps of
         Some True \<Rightarrow> [''Rollback on''] | Some False \<Rightarrow> [''Rollback off''] | None \<Rightarrow> []) @
      (if field as_bool ''turbo_loads'' caps = Some True then [''Turbo loads''] else []))"

definition ruleset_of :: "RulesetEntry \<Rightarrow> Ruleset" where
  "ruleset_of e =
     \<lparr> rs_id = re_id e, rs_label = (if re_label e = [] then re_id e else re_label e),
       rs_game_name = re_game_name e, rs_game_version = re_game_version e, rs_max_slots = re_max_slots e,
       rs_match_caps = re_match_caps e, rs_caps_summary = summarize (re_match_caps e),
       rs_frame_ms = unwrap_or (filter_option (\<lambda>f. f > 0) (re_frame_ms e)) DEFAULT_FRAME_MS \<rparr>"

definition load_entry ::
    "(json \<Rightarrow> nat) \<Rightarrow> Rulesets \<times> (string \<times> string) list \<Rightarrow> RulesetEntry \<Rightarrow> Rulesets \<times> (string \<times> string) list" where
  "load_entry json_len st e =
     (case validate json_len e (snd st) of
        Some why \<Rightarrow> st
      | None \<Rightarrow> (AList.update (re_game_name e) (for_game (fst st) (re_game_name e) @ [ruleset_of e]) (fst st),
                 snd st @ [(re_game_name e, re_id e)]))"

definition load :: "(json \<Rightarrow> nat) \<Rightarrow> RulesetEntry list option \<Rightarrow> Rulesets" where
  "load json_len parsed =
     (case parsed of None \<Rightarrow> [] | Some es \<Rightarrow> fst (foldl (load_entry json_len) ([], []) es))"

definition rulesets_json :: "Rulesets \<Rightarrow> string \<Rightarrow> json" where
  "rulesets_json rs g =
     JObj [(''op'', JStr ''automatch_rulesets_ok''), (''ok'', JBool True),
       (''rulesets'', JArr (map (\<lambda>r. JObj
          [(''id'', JStr (rs_id r)), (''label'', JStr (rs_label r)), (''caps_summary'', JStr (rs_caps_summary r)),
           (''game_version'', JStr (rs_game_version r)), (''max_slots'', jnat (rs_max_slots r)),
           (''match_caps'', rs_match_caps r)]) (for_game rs g)))]"

text \<open>A ruleset a queue can be opened on: two seats, no mods, a positive frame.\<close>

definition playable :: "Ruleset \<Rightarrow> bool" where
  "playable r \<longleftrightarrow> trim (rs_id r) \<noteq> [] \<and> trim (rs_game_name r) \<noteq> [] \<and> rs_max_slots r = 2 \<and>
     (is_null (rs_match_caps r) \<or> is_object (rs_match_caps r)) \<and> jget ''mods'' (rs_match_caps r) = None \<and>
     rs_frame_ms r > 0 \<and> rs_label r \<noteq> []"

definition rulesets_inv :: "Rulesets \<times> (string \<times> string) list \<Rightarrow> bool" where
  "rulesets_inv st \<longleftrightarrow>
     (\<forall>g. list_all (\<lambda>r. playable r \<and> rs_game_name r = g) (for_game (fst st) g)) \<and>
     (\<forall>g. distinct (map rs_id (for_game (fst st) g))) \<and>
     (\<forall>g. set (map rs_id (for_game (fst st) g)) = {i. (g, i) \<in> set (snd st)})"

lemma validate_None:
  assumes "validate json_len e seen = None"
  shows "playable (ruleset_of e) \<and> (re_game_name e, re_id e) \<notin> set seen"
proof -
  have "re_id e \<noteq> []" using assms by (auto simp: validate_def trim_def trim_chars_def chars_def)
  then show ?thesis using assms
    by (auto simp: validate_def playable_def ruleset_of_def list_ex_iff DEFAULT_FRAME_MS_def unwrap_or_def
        filter_option_def split: if_splits option.splits)
qed

lemma load_entry_inv: "rulesets_inv st \<Longrightarrow> rulesets_inv (load_entry json_len st e)"
proof (cases "validate json_len e (snd st)")
  case None
  assume inv: "rulesets_inv st"
  let ?g = "re_game_name e" and ?i = "re_id e"
  have ok: "playable (ruleset_of e)" "(?g, ?i) \<notin> set (snd st)" using validate_None [OF None] by auto
  have fg: "for_game (fst (load_entry json_len st e)) g
      = (if g = ?g then for_game (fst st) g @ [ruleset_of e] else for_game (fst st) g)" for g
    by (simp add: load_entry_def None for_game_def)
  have names: "rs_game_name (ruleset_of e) = ?g" "rs_id (ruleset_of e) = ?i" by (simp_all add: ruleset_of_def)
  have seen: "snd (load_entry json_len st e) = snd st @ [(?g, ?i)]" by (simp add: load_entry_def None)
  have ids: "set (map rs_id (for_game (fst st) g)) = {i. (g, i) \<in> set (snd st)}" for g
    using inv by (simp add: rulesets_inv_def)
  then have "?i \<notin> set (map rs_id (for_game (fst st) ?g))" using ok(2) by auto
  then show ?thesis using inv ok names ids
    unfolding rulesets_inv_def fg seen by (auto simp del: set_map)
qed (simp add: load_entry_def)

lemma foldl_inv: "(\<And>s x. P s \<Longrightarrow> P (f s x)) \<Longrightarrow> P s \<Longrightarrow> P (foldl f s xs)"
  by (induction xs arbitrary: s) auto

lemma load_inv: "\<exists>seen. rulesets_inv (load json_len parsed, seen)"
proof (cases parsed)
  case None
  then show ?thesis by (auto simp: load_def rulesets_inv_def for_game_def intro!: exI [of _ "[]"])
next
  case (Some es)
  have "rulesets_inv (foldl (load_entry json_len) ([], []) es)"
    by (rule foldl_inv) (simp_all add: load_entry_inv, simp add: rulesets_inv_def for_game_def)
  then show ?thesis by (auto simp: load_def Some prod.collapse intro!: exI [of _ "snd (foldl (load_entry json_len) ([], []) es)"])
qed

text \<open>
  C39: whatever the rulesets file says, a queue type the server offers can be played: it is for
  two players, vanilla, with a positive frame time, listed under its own game, and its id is
  unique there, so that asking for an id resolves to the one ruleset of that game with that id.
\<close>
theorem loaded_rulesets_are_playable:
  "list_all (\<lambda>r. playable r \<and> rs_game_name r = g) (for_game (load json_len parsed) g) \<and>
   distinct (map rs_id (for_game (load json_len parsed) g)) \<and>
   (r \<in> set (for_game (load json_len parsed) g) \<longleftrightarrow> resolve (load json_len parsed) g (rs_id r) = Some r)"
proof -
  let ?l = "for_game (load json_len parsed) g"
  obtain seen where "rulesets_inv (load json_len parsed, seen)" using load_inv by blast
  then have pl: "list_all (\<lambda>r. playable r \<and> rs_game_name r = g) ?l" and d: "distinct (map rs_id ?l)"
    by (simp_all add: rulesets_inv_def)
  have "resolve (load json_len parsed) g (rs_id r) = Some r" if r: "r \<in> set ?l"
  proof -
    have "rs_id r \<noteq> []"
      using pl r by (auto simp: list_all_iff playable_def trim_def trim_chars_def chars_def)
    obtain i where i: "i < length ?l" "?l ! i = r" using r by (auto simp: in_set_conv_nth)
    have "List.find (\<lambda>x. rs_id x = rs_id r) ?l = Some r"
      unfolding find_Some_iff
    proof (intro exI [of _ i] conjI allI impI)
      fix j assume "j < i"
      then show "rs_id (?l ! j) \<noteq> rs_id r"
        using d i by (metis (no_types, lifting) distinct_conv_nth length_map less_trans nat_neq_iff nth_map)
    qed (use i in auto)
    then show ?thesis using \<open>rs_id r \<noteq> []\<close> by (simp add: resolve_def Let_def)
  qed
  moreover have "r \<in> set ?l" if "resolve (load json_len parsed) g (rs_id r) = Some r"
    using that by (auto simp: resolve_def Let_def find_Some_iff split: if_splits list.splits)
  ultimately show ?thesis using pl d by blast
qed


subsection \<open>Cosmetic exemptions\<close>

definition split_pin :: "string \<Rightarrow> string \<times> string" where
  "split_pin s = (case split_once (CHR ''#'') s of Some (n, d) \<Rightarrow> (trim n, trim d) | None \<Rightarrow> (s, []))"

text \<open>The loop over the entries of the allow list, with its \<^verbatim>\<open>continue\<close>s and \<^verbatim>\<open>break\<close>s.\<close>

fun entry_allows :: "string \<times> string \<Rightarrow> string list \<Rightarrow> bool" where
  "entry_allows c [] = False"
| "entry_allows c (entry # es) =
     (let e = trim entry
      in if e = [] then entry_allows c es
         else if \<not> eq_ignore_ascii_case (fst (split_pin e)) (fst c) then entry_allows c es
         else if snd (split_pin e) = [] then True
         else if snd c \<noteq> [] \<and> eq_ignore_ascii_case (snd (split_pin e)) (snd c) then True
         else entry_allows c es)"

fun first_unapproved :: "string \<Rightarrow> string list \<Rightarrow> string option" where
  "first_unapproved allow [] = None"
| "first_unapproved allow (claim # claims) =
     (let c = trim claim
      in if c = [] then first_unapproved allow claims
         else if entry_allows (split_pin c) (split_on (CHR '';'') allow) then first_unapproved allow claims
         else Some c)"

definition unapproved_exemption :: "json \<Rightarrow> string list \<Rightarrow> string option" where
  "unapproved_exemption caps claims =
     (if claims = [] then None
      else first_unapproved (unwrap_or (field as_str ''mod_cosmetic_allow'' caps) []) claims)"

text \<open>What approval means: some entry names the package, and if it pins a digest the claim
  carries that digest.\<close>

definition approves :: "string \<Rightarrow> string \<Rightarrow> bool" where
  "approves entry claim \<longleftrightarrow>
     trim entry \<noteq> [] \<and>
     eq_ignore_ascii_case (fst (split_pin (trim entry))) (fst (split_pin claim)) \<and>
     (snd (split_pin (trim entry)) = [] \<or>
      snd (split_pin claim) \<noteq> [] \<and> eq_ignore_ascii_case (snd (split_pin (trim entry))) (snd (split_pin claim)))"

lemma entry_allows_iff: "entry_allows (split_pin c) es \<longleftrightarrow> list_ex (\<lambda>e. approves e c) es"
  by (induction es) (auto simp: approves_def Let_def)

lemma first_unapproved_eq:
  "first_unapproved allow claims =
     List.find (\<lambda>c. c \<noteq> [] \<and> \<not> list_ex (\<lambda>e. approves e c) (split_on (CHR '';'') allow)) (map trim claims)"
  by (induction claims) (auto simp: Let_def entry_allows_iff)

text \<open>
  The exemption check fails closed and finds the first offender.  It returns the first
  claim, blank ones aside, that no entry of the match's allow list approves, and nothing when
  every claim is approved; with no allow list in the caps every claim is refused, and a claim
  without a digest is never approved by an entry that pins one.
\<close>
theorem exemption_check_fails_closed:
  "unapproved_exemption caps claims =
     List.find (\<lambda>c. c \<noteq> [] \<and>
        \<not> list_ex (\<lambda>e. approves e c) (split_on (CHR '';'') (unwrap_or (field as_str ''mod_cosmetic_allow'' caps) [])))
       (map trim claims) \<and>
   (field as_str ''mod_cosmetic_allow'' caps = None \<longrightarrow>
      unapproved_exemption caps claims = List.find (\<lambda>c. c \<noteq> []) (map trim claims)) \<and>
   (snd (split_pin (trim entry)) \<noteq> [] \<and> snd (split_pin claim) = [] \<longrightarrow> \<not> approves entry claim)"
proof -
  have "\<not> approves [] c" for c by (simp add: approves_def trim_def trim_chars_def chars_def)
  then show ?thesis
    by (auto simp: unapproved_exemption_def first_unapproved_eq approves_def)
qed

theorem exemption_check_fails_closed_witness:
  "unapproved_exemption (JObj [(''rollback'', JBool True)]) ['' '', ''hd-hud@2#ab''] = Some ''hd-hud@2#ab''"
proof -
  have "field as_str ''mod_cosmetic_allow'' (JObj [(''rollback'', JBool True)]) = None"
    by (simp add: field_def)
  then have "unapproved_exemption (JObj [(''rollback'', JBool True)]) ['' '', ''hd-hud@2#ab'']
      = List.find (\<lambda>c. c \<noteq> []) (map trim ['' '', ''hd-hud@2#ab''])"
    using exemption_check_fails_closed
      [of "JObj [(''rollback'', JBool True)]" "['' '', ''hd-hud@2#ab'']" "[]" "[]"] by blast
  also have "\<dots> = Some ''hd-hud@2#ab''" by code_simp
  finally show ?thesis .
qed

subsection \<open>Delay floors\<close>

definition JITTER_MARGIN_FRAMES :: nat where [rust_simps]: "JITTER_MARGIN_FRAMES = 1"
definition MIN_DELAY :: nat where [rust_simps]: "MIN_DELAY = 2"
definition MAX_DELAY :: nat where [rust_simps]: "MAX_DELAY = 20"
definition MIN_PREDICTION :: nat where [rust_simps]: "MIN_PREDICTION = 2"
definition MAX_PREDICTION :: nat where [rust_simps]: "MAX_PREDICTION = 16"
definition MAX_REPORTED_RTT_MS :: int where [rust_simps]: "MAX_REPORTED_RTT_MS = 2000"

definition frames_needed :: "int \<Rightarrow> int \<Rightarrow> rat \<Rightarrow> nat" where
  "frames_needed rtt_a rtt_b frame_ms =
     (if rtt_a < 0 \<or> rtt_b < 0 \<or> frame_ms \<le> 0 then 0
      else wrap32 (min u32_max (nat \<lceil>(of_int rtt_a + of_int rtt_b) / 2 / frame_ms\<rceil>) + JITTER_MARGIN_FRAMES))"

definition hosted_rollback_delay :: "int \<Rightarrow> nat" where
  "hosted_rollback_delay rtt_ms =
     (let rtt = max rtt_ms 0
      in clamp_val 3 12 (if rtt < 50 then 3 else if rtt < 80 then 4 else if rtt < 120 then 6
           else if rtt < 160 then 7 else if rtt < 200 then 8 else if rtt < 260 then 9 else 10))"

definition hosted_rollback_prediction :: "nat \<Rightarrow> nat" where
  "hosted_rollback_prediction delay = clamp_val 6 MAX_PREDICTION (wrap32 (4 + max delay 2))"

definition wrap_i32 :: "int \<Rightarrow> int" where
  [rust_simps]: "wrap_i32 n = (n + 2147483648) mod 4294967296 - 2147483648"

definition hosted_delay_only :: "int \<Rightarrow> nat" where
  "hosted_delay_only rtt_ms =
     (let rtt = max rtt_ms 0;
          s = wrap_i32 (rtt + 32);
          one_way = nat (max (if s < 0 then - (- s div 33) else s div 33) 1)
      in clamp_val 3 MAX_DELAY (one_way + 3))"

definition saturating_add_i32 :: "int \<Rightarrow> int \<Rightarrow> int" where
  [rust_simps]: "saturating_add_i32 a b = clamp_val (- 2147483648) 2147483647 (a + b)"

record DelayFloor =
  input_delay :: nat
  input_prediction :: nat
  needed :: nat

definition delay_floor :: "json \<Rightarrow> int \<Rightarrow> int \<Rightarrow> rat \<Rightarrow> DelayFloor" where
  "delay_floor caps rtt_a rtt_b frame_ms =
     (let base_d = wrap32 (unwrap_or (field as_u64 ''input_delay'' caps) MIN_DELAY);
          base_p = wrap32 (unwrap_or (field as_u64 ''input_prediction'' caps) MIN_PREDICTION);
          rollback = unwrap_or (field as_bool ''rollback'' caps) False;
          need = frames_needed rtt_a rtt_b frame_ms
      in if need = 0
         then \<lparr> input_delay = clamp_val MIN_DELAY MAX_DELAY base_d,
                input_prediction = clamp_val MIN_PREDICTION MAX_PREDICTION base_p, needed = 0 \<rparr>
         else
           let pair_rtt = saturating_add_i32 rtt_a rtt_b;
               (d, p) =
                 (if rollback then
                    let d = max (hosted_rollback_delay pair_rtt) base_d;
                        p = max (hosted_rollback_prediction d) base_p;
                        shortfall = need - wrap32 (d + p)
                    in if shortfall = 0 then (d, p)
                       else let d2 = wrap32 (d + shortfall) in (d2, max (hosted_rollback_prediction d2) base_p)
                  else (max (max (hosted_delay_only pair_rtt) need) base_d, base_p))
           in \<lparr> input_delay = clamp_val MIN_DELAY MAX_DELAY d,
                input_prediction = clamp_val MIN_PREDICTION MAX_PREDICTION p, needed = need \<rparr>)"

definition caps_with_floor :: "json \<Rightarrow> DelayFloor \<Rightarrow> json" where
  "caps_with_floor caps fl =
     (let out = (if is_object caps then caps else JObj []);
          out1 = jset ''input_delay'' (jnat (input_delay fl)) out
      in if unwrap_or (field as_bool ''rollback'' out1) False
         then jset ''input_prediction'' (jnat (input_prediction fl)) out1 else out1)"

definition sanitize_rtt :: "int \<Rightarrow> int" where
  "sanitize_rtt raw = (if raw < 0 then -1 else min raw MAX_REPORTED_RTT_MS)"

lemma clamp_val_bounds: "lo \<le> hi \<Longrightarrow> lo \<le> clamp_val lo hi n \<and> clamp_val lo hi n \<le> hi"
  by (auto simp: clamp_val_def)

lemma sanitize_rtt_bounds: "-1 \<le> sanitize_rtt raw \<and> sanitize_rtt raw \<le> 2000"
  by (simp add: sanitize_rtt_def MAX_REPORTED_RTT_MS_def)

lemma frames_needed_bound:
  assumes "rtt_a \<le> 2000" "rtt_b \<le> 2000" "1 \<le> frame_ms"
  shows "frames_needed rtt_a rtt_b frame_ms \<le> 2001"
proof (cases "rtt_a < 0 \<or> rtt_b < 0")
  case False
  have "(of_int rtt_a + of_int rtt_b) / 2 / frame_ms \<le> ((of_int rtt_a + of_int rtt_b) / 2 :: rat)"
  proof -
    have "x / frame_ms \<le> x" if "0 \<le> x" for x using assms(3) that
      by (simp add: divide_le_eq mult_le_cancel_left1)
    moreover have "0 \<le> ((of_int rtt_a + of_int rtt_b) / 2 :: rat)" using False by simp
    ultimately show ?thesis by blast
  qed
  also have "\<dots> \<le> 2000" using assms(1,2) by (simp flip: of_int_add)
  finally have "\<lceil>(of_int rtt_a + of_int rtt_b) / 2 / frame_ms\<rceil> \<le> 2000" by (simp add: ceiling_le_iff)
  then have "nat \<lceil>(of_int rtt_a + of_int rtt_b) / 2 / frame_ms\<rceil> \<le> 2000" by linarith
  then show ?thesis unfolding frames_needed_def wrap32_def JITTER_MARGIN_FRAMES_def
    by (auto intro: le_trans [OF mod_less_eq_dividend])
qed (auto simp: frames_needed_def)

lemma hosted_rollback_delay_bounds: "3 \<le> hosted_rollback_delay r \<and> hosted_rollback_delay r \<le> 10"
  by (simp add: hosted_rollback_delay_def clamp_val_def Let_def)

lemma hosted_prediction_small:
  "d \<le> 100000 \<Longrightarrow> hosted_rollback_prediction d = (if d \<le> 2 then 6 else if d \<ge> 12 then 16 else 4 + d)"
  by (simp add: hosted_rollback_prediction_def rust_simps)


text \<open>The two regimes of \<open>delay_floor\<close> for numbers in range, without the wrap-around.\<close>

lemma rollback_floor:
  assumes "base_d \<le> (20::nat)" "base_p \<le> 16" "need \<le> 2001" "need \<noteq> 0"
    and "h = hosted_rollback_delay pair"
    and "d = max h base_d" "p = max (hosted_rollback_prediction d) base_p"
    and "s = need - wrap32 (d + p)" "d2 = wrap32 (d + s)"
    and "(d', p') = (if s = 0 then (d, p) else (d2, max (hosted_rollback_prediction d2) base_p))"
  shows "min need 36 \<le> clamp_val MIN_DELAY MAX_DELAY d' + clamp_val MIN_PREDICTION MAX_PREDICTION p' \<and>
    base_d \<le> clamp_val MIN_DELAY MAX_DELAY d' \<and> base_p \<le> clamp_val MIN_PREDICTION MAX_PREDICTION p'"
proof -
  have d: "3 \<le> d" "d \<le> 20" "base_d \<le> d" using assms(1,5,6) hosted_rollback_delay_bounds [of pair] by auto
  have p: "p = max (if d \<ge> 12 then 16 else 4 + d) base_p"
    using assms(7) hosted_prediction_small [of d] d by auto
  have s: "s = need - (d + p)" using assms(2,8) d p by (simp add: wrap32_def)
  have d2: "d2 = d + s" using assms(3,9) d s by (simp add: wrap32_def)
  have p2: "hosted_rollback_prediction d2 = (if d2 \<ge> 12 then 16 else 4 + d2)"
    using hosted_prediction_small [of d2] assms(3) d d2 s by auto
  show ?thesis
  proof (cases "s = 0")
    case True
    then have "d' = d" "p' = p" "need \<le> d + p" using assms(10) s by auto
    then show ?thesis using d p assms(2) by (auto simp: clamp_val_def MIN_DELAY_def MAX_DELAY_def
          MIN_PREDICTION_def MAX_PREDICTION_def)
  next
    case False
    then have "d' = d2" "p' = max (if d2 \<ge> 12 then 16 else 4 + d2) base_p" "need = d2 + p" "d \<le> d2"
      using assms(10) p2 d2 s by auto
    then show ?thesis using d p assms(2) by (auto simp: clamp_val_def MIN_DELAY_def MAX_DELAY_def
          MIN_PREDICTION_def MAX_PREDICTION_def)
  qed
qed

lemma delay_only_floor:
  assumes "base_d \<le> (20::nat)" "base_p \<le> (16::nat)"
    and "d = max (max h need) base_d"
  shows "min need 20 \<le> clamp_val MIN_DELAY MAX_DELAY d \<and>
    base_d \<le> clamp_val MIN_DELAY MAX_DELAY d \<and> base_p \<le> clamp_val MIN_PREDICTION MAX_PREDICTION base_p"
  using assms by (auto simp: clamp_val_def MIN_DELAY_def MAX_DELAY_def MIN_PREDICTION_def MAX_PREDICTION_def)

lemma delay_floor_range:
  "2 \<le> input_delay (delay_floor caps a b fr) \<and> input_delay (delay_floor caps a b fr) \<le> 20 \<and>
   2 \<le> input_prediction (delay_floor caps a b fr) \<and> input_prediction (delay_floor caps a b fr) \<le> 16 \<and>
   needed (delay_floor caps a b fr) = frames_needed a b fr"
proof -
  have "2 \<le> clamp_val MIN_DELAY MAX_DELAY n \<and> clamp_val MIN_DELAY MAX_DELAY n \<le> 20" for n
    by (auto simp: clamp_val_def MIN_DELAY_def MAX_DELAY_def)
  moreover have "2 \<le> clamp_val MIN_PREDICTION MAX_PREDICTION n \<and> clamp_val MIN_PREDICTION MAX_PREDICTION n \<le> 16" for n
    by (auto simp: clamp_val_def MIN_PREDICTION_def MAX_PREDICTION_def)
  ultimately show ?thesis unfolding delay_floor_def Let_def by (auto split: prod.split)
qed

text \<open>
  C26: the floor covers the link.  Input delay stays within 2 to 20 frames and prediction within
  2 to 16, whatever the ruleset or the clients say.  For values the ruleset authored within
  those bounds and round trips a client may report, the delay alone (without rollback), or
  delay and prediction together (with it), cover the frames the pair's one-way trip needs, up
  to what the bounds allow, and never fall below what the ruleset authored.
\<close>
theorem delay_floor_covers_the_link:
  assumes "rtt_a \<le> MAX_REPORTED_RTT_MS" "rtt_b \<le> MAX_REPORTED_RTT_MS" "1 \<le> frame_ms"
    and "base_d = unwrap_or (field as_u64 ''input_delay'' caps) MIN_DELAY" "base_d \<le> 20"
    and "base_p = unwrap_or (field as_u64 ''input_prediction'' caps) MIN_PREDICTION" "base_p \<le> 16"
  shows "let fl = delay_floor caps rtt_a rtt_b frame_ms; need = frames_needed rtt_a rtt_b frame_ms in
    2 \<le> input_delay fl \<and> input_delay fl \<le> 20 \<and> 2 \<le> input_prediction fl \<and> input_prediction fl \<le> 16 \<and>
    base_d \<le> input_delay fl \<and> base_p \<le> input_prediction fl \<and>
    (if unwrap_or (field as_bool ''rollback'' caps) False
     then min need 36 \<le> input_delay fl + input_prediction fl else min need 20 \<le> input_delay fl)"
proof -
  let ?need = "frames_needed rtt_a rtt_b frame_ms" and ?pair = "saturating_add_i32 rtt_a rtt_b"
  let ?fl = "delay_floor caps rtt_a rtt_b frame_ms"
  let ?rb = "unwrap_or (field as_bool ''rollback'' caps) False"
  have need: "?need \<le> 2001" using frames_needed_bound assms(1-3) by (simp add: MAX_REPORTED_RTT_MS_def)
  have base: "wrap32 (unwrap_or (field as_u64 ''input_delay'' caps) MIN_DELAY) = base_d"
    "wrap32 (unwrap_or (field as_u64 ''input_prediction'' caps) MIN_PREDICTION) = base_p"
    using assms(4-7) by (simp_all add: wrap32_def)
  note fl = delay_floor_def [of caps rtt_a rtt_b frame_ms, unfolded base Let_def]
  have main: "base_d \<le> input_delay ?fl \<and> base_p \<le> input_prediction ?fl \<and>
    (if ?rb then min ?need 36 \<le> input_delay ?fl + input_prediction ?fl else min ?need 20 \<le> input_delay ?fl)"
  proof (cases "?need = 0")
    case True
    then show ?thesis using delay_only_floor [OF assms(5,7) refl, of 0 0] by (simp add: fl)
  next
    case need0: False
    show ?thesis
    proof (cases ?rb)
      case True
      obtain d' p' where dp: "(d', p') = (let d = max (hosted_rollback_delay ?pair) base_d;
          p = max (hosted_rollback_prediction d) base_p; s = ?need - wrap32 (d + p)
        in if s = 0 then (d, p)
           else (wrap32 (d + s), max (hosted_rollback_prediction (wrap32 (d + s))) base_p))" by (metis surj_pair)
      have "input_delay ?fl = clamp_val MIN_DELAY MAX_DELAY d'"
        "input_prediction ?fl = clamp_val MIN_PREDICTION MAX_PREDICTION p'"
        using need0 True dp [symmetric] by (simp_all add: fl Let_def)
      then show ?thesis
        using rollback_floor [OF assms(5,7) need need0 refl refl refl refl refl dp [unfolded Let_def]] True by simp
    next
      case False
      then show ?thesis using need0 delay_only_floor [OF assms(5,7) refl, where need = ?need and h = "hosted_delay_only ?pair"]
        by (simp add: fl)
    qed
  qed
  then show ?thesis using delay_floor_range [of caps rtt_a rtt_b frame_ms] by (simp add: Let_def)
qed

definition demo_caps :: json where
  "demo_caps = JObj [(''rollback'', JBool True), (''input_delay'', JInt 2)]"

theorem delay_floor_covers_the_link_witness:
  "min (frames_needed 900 700 16) 36 \<le> input_delay (delay_floor demo_caps 900 700 16)
     + input_prediction (delay_floor demo_caps 900 700 16)"
proof -
  have f: "field as_u64 ''input_delay'' demo_caps = Some 2" "field as_u64 ''input_prediction'' demo_caps = None"
    "field as_bool ''rollback'' demo_caps = Some True"
    by (simp_all add: demo_caps_def field_def as_u64_def)
  have "let fl = delay_floor demo_caps 900 700 16; need = frames_needed 900 700 16 in
    2 \<le> input_delay fl \<and> input_delay fl \<le> 20 \<and> 2 \<le> input_prediction fl \<and> input_prediction fl \<le> 16 \<and>
    (2::nat) \<le> input_delay fl \<and> (2::nat) \<le> input_prediction fl \<and>
    (if unwrap_or (field as_bool ''rollback'' demo_caps) False
     then min need 36 \<le> input_delay fl + input_prediction fl else min need 20 \<le> input_delay fl)"
    by (rule delay_floor_covers_the_link) (simp_all add: f MAX_REPORTED_RTT_MS_def MIN_PREDICTION_def)
  then show ?thesis unfolding Let_def f unwrap_or_simps if_True by (elim conjE)
qed

end
