(* ===== verification/Match_Queue.thy ===== *)
theory Match_Queue
  imports Rulesets
begin

text \<open>
  The automatch queue (\<^verbatim>\<open>src/automatch.rs\<close>, second half): tickets, offers, pairing, answers
  and deadlines.  Every operation takes the lock once, so it is one function on the state.
  Instants are whole nanoseconds; \<open>now\<close> is the clock reading of the call and \<open>mint\<close>
  gives the match ids it draws.
\<close>

type_synonym time = int

definition secs_since :: "time \<Rightarrow> time \<Rightarrow> nat" where
  "secs_since now t = nat ((now - t) div 1000000000)"

record MatchKey =
  mk_game_name :: string
  mk_game_version :: string
  mk_disc_fp :: string
  mk_ruleset_id :: string
  mk_max_slots :: nat

record Ticket =
  tk_player :: string
  tk_account :: string
  tk_handle :: string
  tk_username :: string
  tk_country :: string
  tk_keys :: "MatchKey list"
  tk_host_bind :: string
  tk_guest_bind :: string
  tk_relay_endpoint :: "string option"
  tk_ice_relay :: bool
  tk_queued_at :: time
  tk_rtt :: int
  tk_blocks :: "string list"

record Pending =
  pn_match_id :: string
  pn_key :: MatchKey
  pn_a :: Ticket
  pn_b :: Ticket
  a_accept :: "bool option"
  b_accept :: "bool option"
  offered_at :: time

record QueueInner =
  tickets :: "Ticket list"
  pending :: "Pending list"
  recent :: "(string \<times> string \<times> time) list"

definition waited :: "time \<Rightarrow> Ticket \<Rightarrow> nat" where
  "waited now t = secs_since now (tk_queued_at t)"

subsection \<open>Offers\<close>

definition is_ice :: "Pending \<Rightarrow> bool" where
  "is_ice p \<longleftrightarrow> tk_ice_relay (pn_a p) \<and> tk_ice_relay (pn_b p)"

definition rtt_pick :: "Pending \<Rightarrow> bool" where
  "rtt_pick p \<longleftrightarrow>
     \<not> (tk_rtt (pn_a p) \<ge> 0 \<and> tk_rtt (pn_b p) \<ge> 0 \<and> tk_rtt (pn_b p) < tk_rtt (pn_a p))"

definition relay_host_is_a :: "Pending \<Rightarrow> bool option" where
  "relay_host_is_a p =
     (if is_ice p then Some (rtt_pick p)
      else case (tk_relay_endpoint (pn_a p), tk_relay_endpoint (pn_b p)) of
             (Some _, None) \<Rightarrow> Some True
           | (None, Some _) \<Rightarrow> Some False
           | (None, None) \<Rightarrow> None
           | (Some _, Some _) \<Rightarrow> Some (rtt_pick p))"

definition side :: "Pending \<Rightarrow> string \<Rightarrow> bool option" where
  "side p player =
     (if tk_player (pn_a p) = player then Some True
      else if tk_player (pn_b p) = player then Some False else None)"

definition answered :: "Pending \<Rightarrow> bool" where
  "answered p \<longleftrightarrow> a_accept p = Some False \<or> b_accept p = Some False \<or> a_accept p \<noteq> None \<and> b_accept p \<noteq> None"

definition both_yes :: "Pending \<Rightarrow> bool" where
  "both_yes p \<longleftrightarrow> a_accept p = Some True \<and> b_accept p = Some True"

subsection \<open>The queue\<close>

definition is_queued_account :: "string \<Rightarrow> QueueInner \<Rightarrow> bool" where
  "is_queued_account acct g \<longleftrightarrow>
     list_ex (\<lambda>t. tk_account t = acct) (tickets g) \<or>
     list_ex (\<lambda>p. tk_account (pn_a p) = acct \<or> tk_account (pn_b p) = acct) (pending g)"

definition waiting :: "QueueInner \<Rightarrow> nat" where
  "waiting g = length (tickets g)"

definition pool_for :: "MatchKey \<Rightarrow> string \<Rightarrow> QueueInner \<Rightarrow> nat" where
  "pool_for key excluding g =
     length (filter (\<lambda>t. tk_account t \<noteq> excluding \<and> key \<in> set (tk_keys t)) (tickets g))"

definition push :: "Ticket \<Rightarrow> QueueInner \<Rightarrow> QueueInner" where
  "push t g = g\<lparr> tickets := tickets g @ [t] \<rparr>"

definition remove_player :: "string \<Rightarrow> QueueInner \<Rightarrow> QueueInner \<times> Pending option" where
  "remove_player player g =
     (let g1 = g\<lparr> tickets := filter (\<lambda>t. tk_player t \<noteq> player) (tickets g) \<rparr>
      in case position (\<lambda>p. side p player \<noteq> None) (pending g1) of
           None \<Rightarrow> (g1, None)
         | Some i \<Rightarrow> (g1\<lparr> pending := remove_at i (pending g1) \<rparr>, Some (pending g1 ! i)))"

fun set_rtt_list :: "string \<Rightarrow> int \<Rightarrow> Ticket list \<Rightarrow> Ticket list \<times> bool" where
  "set_rtt_list player rtt [] = ([], False)"
| "set_rtt_list player rtt (t # ts) =
     (if tk_player t = player then (t\<lparr> tk_rtt := rtt \<rparr> # ts, True)
      else case set_rtt_list player rtt ts of (ts', b) \<Rightarrow> (t # ts', b))"

definition set_rtt :: "string \<Rightarrow> int \<Rightarrow> QueueInner \<Rightarrow> QueueInner \<times> bool" where
  "set_rtt player rtt g = (case set_rtt_list player rtt (tickets g) of (ts, b) \<Rightarrow> (g\<lparr> tickets := ts \<rparr>, b))"

definition ticket_of :: "string \<Rightarrow> QueueInner \<Rightarrow> Ticket option" where
  "ticket_of player g = List.find (\<lambda>t. tk_player t = player) (tickets g)"

definition requeue_front :: "time \<Rightarrow> Ticket \<Rightarrow> QueueInner \<Rightarrow> QueueInner" where
  "requeue_front now t g = g\<lparr> tickets := t\<lparr> tk_queued_at := now \<rparr> # tickets g \<rparr>"

definition record_answer :: "string \<Rightarrow> bool \<Rightarrow> Pending \<Rightarrow> Pending" where
  "record_answer player accept p =
     (case side p player of
        Some True \<Rightarrow> p\<lparr> a_accept := Some accept \<rparr>
      | Some False \<Rightarrow> p\<lparr> b_accept := Some accept \<rparr>
      | None \<Rightarrow> p)"

definition answer_for :: "string \<Rightarrow> bool \<Rightarrow> string option \<Rightarrow> QueueInner \<Rightarrow> QueueInner \<times> Pending option" where
  "answer_for player accept match_id g =
     (case position (\<lambda>p. side p player \<noteq> None) (pending g) of
        None \<Rightarrow> (g, None)
      | Some i \<Rightarrow>
          let p = pending g ! i
          in if (case match_id of Some m \<Rightarrow> m \<noteq> pn_match_id p | None \<Rightarrow> False) then (g, None)
             else let p1 = record_answer player accept p
                  in if \<not> answered p1 then (g\<lparr> pending := (pending g)[i := p1] \<rparr>, None)
                     else (g\<lparr> pending := remove_at i (pending g) \<rparr>, Some p1))"

definition answer :: "string \<Rightarrow> bool \<Rightarrow> QueueInner \<Rightarrow> QueueInner \<times> Pending option" where
  "answer player accept = answer_for player accept None"

text \<open>The \<^verbatim>\<open>while\<close> loop of \<^verbatim>\<open>take_expired\<close> at index \<open>i\<close>.\<close>

definition expired :: "time \<Rightarrow> nat \<Rightarrow> Pending \<Rightarrow> bool" where
  "expired now accept_secs p \<longleftrightarrow> secs_since now (offered_at p) \<ge> accept_secs"

function expire_loop :: "time \<Rightarrow> nat \<Rightarrow> nat \<Rightarrow> Pending list \<Rightarrow> Pending list \<Rightarrow> Pending list \<times> Pending list" where
  "expire_loop now secs i ps out =
     (if i < length ps then
        if expired now secs (ps ! i) then expire_loop now secs i (remove_at i ps) (out @ [ps ! i])
        else expire_loop now secs (Suc i) ps out
      else (ps, out))"
  by pat_completeness auto
termination
  by (relation "measure (\<lambda>(now, secs, i, ps, out). length ps - i)") (auto simp: length_remove_at)

declare expire_loop.simps [simp del]

definition take_expired :: "time \<Rightarrow> nat \<Rightarrow> QueueInner \<Rightarrow> QueueInner \<times> Pending list" where
  "take_expired now accept_secs g =
     (case expire_loop now accept_secs 0 (pending g) [] of (ps, out) \<Rightarrow> (g\<lparr> pending := ps \<rparr>, out))"

definition note_pairing :: "time \<Rightarrow> string \<Rightarrow> string \<Rightarrow> QueueInner \<Rightarrow> QueueInner" where
  "note_pairing now a b g = g\<lparr> recent := recent g @ [(a, b, now)] \<rparr>"

subsection \<open>Pairing\<close>

definition PROBE_GRACE_SECS :: nat where [rust_simps]: "PROBE_GRACE_SECS = 3"
definition RTT_START_MS :: nat where [rust_simps]: "RTT_START_MS = 120"
definition RTT_STEP_MS :: nat where [rust_simps]: "RTT_STEP_MS = 60"
definition RTT_WIDEN_SECS :: nat where [rust_simps]: "RTT_WIDEN_SECS = 20"
definition RTT_UNLIMITED_AFTER_STEPS :: nat where [rust_simps]: "RTT_UNLIMITED_AFTER_STEPS = 5"

definition relay_possible :: "Ticket \<Rightarrow> Ticket \<Rightarrow> bool" where
  "relay_possible a b \<longleftrightarrow>
     tk_relay_endpoint a \<noteq> None \<or> tk_relay_endpoint b \<noteq> None \<or> tk_ice_relay a \<and> tk_ice_relay b"

definition measurable :: "time \<Rightarrow> Ticket \<Rightarrow> bool" where
  "measurable now t \<longleftrightarrow> tk_rtt t \<ge> 0 \<or> waited now t \<ge> PROBE_GRACE_SECS"

definition rtt_ok :: "time \<Rightarrow> Ticket \<Rightarrow> Ticket \<Rightarrow> bool" where
  "rtt_ok now a b \<longleftrightarrow>
     (if tk_rtt a < 0 \<or> tk_rtt b < 0 then True
      else let steps = max (waited now a) (waited now b) div RTT_WIDEN_SECS
           in if steps \<ge> RTT_UNLIMITED_AFTER_STEPS then True
              else nat (tk_rtt a) + nat (tk_rtt b) \<le> RTT_START_MS + steps * RTT_STEP_MS)"

definition rematch_ok :: "time \<Rightarrow> QueueInner \<Rightarrow> Ticket \<Rightarrow> Ticket \<Rightarrow> nat \<Rightarrow> bool" where
  "rematch_ok now g a b cooldown \<longleftrightarrow>
     (if max (waited now a) (waited now b) \<ge> RTT_WIDEN_SECS * RTT_UNLIMITED_AFTER_STEPS then True
      else \<not> list_ex (\<lambda>(x, y, t0). secs_since now t0 < cooldown \<and>
             (x = tk_account a \<and> y = tk_account b \<or> x = tk_account b \<and> y = tk_account a)) (recent g))"

text \<open>The rules that hold in both passes.\<close>

definition hard_ok :: "time \<Rightarrow> Ticket \<Rightarrow> Ticket \<Rightarrow> bool" where
  "hard_ok now a b \<longleftrightarrow>
     tk_account a \<noteq> tk_account b \<and>
     tk_account b \<notin> set (tk_blocks a) \<and> tk_account a \<notin> set (tk_blocks b) \<and>
     relay_possible a b \<and> measurable now a \<and> measurable now b \<and> rtt_ok now a b"

text \<open>The three nested loops visit the candidates in this order.\<close>

definition candidates :: "Ticket list \<Rightarrow> (nat \<times> nat \<times> MatchKey) list" where
  "candidates ts = concat (map (\<lambda>i. concat (map (\<lambda>key. map (\<lambda>j. (i, j, key)) [0..<length ts])
     (tk_keys (ts ! i)))) [0..<length ts])"

definition find_pair_pass :: "time \<Rightarrow> QueueInner \<Rightarrow> nat \<Rightarrow> bool \<Rightarrow> (nat \<times> nat \<times> MatchKey) option" where
  "find_pair_pass now g cooldown allow_rematch =
     List.find (\<lambda>(i, j, key).
         i \<noteq> j \<and> key \<in> set (tk_keys (tickets g ! j)) \<and> hard_ok now (tickets g ! i) (tickets g ! j) \<and>
         (allow_rematch \<or> rematch_ok now g (tickets g ! i) (tickets g ! j) cooldown))
       (candidates (tickets g))"

definition find_pair :: "time \<Rightarrow> QueueInner \<Rightarrow> nat \<Rightarrow> (nat \<times> nat \<times> MatchKey) option" where
  "find_pair now g cooldown = or_option (find_pair_pass now g cooldown False) (find_pair_pass now g cooldown True)"

definition make_offer :: "time \<Rightarrow> string \<Rightarrow> MatchKey \<Rightarrow> Ticket \<Rightarrow> Ticket \<Rightarrow> Pending" where
  "make_offer now mid key t_lo t_hi =
     (let (a, b) = (if tk_queued_at t_lo \<le> tk_queued_at t_hi then (t_lo, t_hi) else (t_hi, t_lo))
      in \<lparr> pn_match_id = mid, pn_key = key, pn_a = a, pn_b = b, a_accept = None, b_accept = None,
           offered_at = now \<rparr>)"

lemma candidates_in:
  "(i, j, key) \<in> set (candidates ts) \<longleftrightarrow> i < length ts \<and> j < length ts \<and> key \<in> set (tk_keys (ts ! i))"
  by (auto simp: candidates_def) (rule bexI [of _ i], rule bexI [of _ key], auto)

lemma find_pair_pass_sound:
  "find_pair_pass now g cd allow = Some (i, j, key) \<Longrightarrow>
   i < length (tickets g) \<and> j < length (tickets g) \<and> i \<noteq> j \<and>
   key \<in> set (tk_keys (tickets g ! i)) \<and> key \<in> set (tk_keys (tickets g ! j)) \<and>
   hard_ok now (tickets g ! i) (tickets g ! j) \<and>
   (allow \<or> rematch_ok now g (tickets g ! i) (tickets g ! j) cd)"
proof -
  assume "find_pair_pass now g cd allow = Some (i, j, key)"
  then obtain n where n: "n < length (candidates (tickets g))" "candidates (tickets g) ! n = (i, j, key)"
    "i \<noteq> j \<and> key \<in> set (tk_keys (tickets g ! j)) \<and> hard_ok now (tickets g ! i) (tickets g ! j) \<and>
         (allow \<or> rematch_ok now g (tickets g ! i) (tickets g ! j) cd)"
    unfolding find_pair_pass_def find_Some_iff by auto
  from nth_mem [OF n(1)] n(2,3) show ?thesis by (auto simp: candidates_in)
qed

lemma find_pair_pass_None:
  "find_pair_pass now g cd True = None \<longleftrightarrow>
   (\<forall>i < length (tickets g). \<forall>j < length (tickets g). \<forall>key \<in> set (tk_keys (tickets g ! i)).
      i \<noteq> j \<longrightarrow> key \<in> set (tk_keys (tickets g ! j)) \<longrightarrow> \<not> hard_ok now (tickets g ! i) (tickets g ! j))"
  unfolding find_pair_pass_def find_None_iff by (auto simp: candidates_in)

lemma find_pair_sound:
  "find_pair now g cd = Some (i, j, key) \<Longrightarrow>
   i < length (tickets g) \<and> j < length (tickets g) \<and> i \<noteq> j \<and>
   key \<in> set (tk_keys (tickets g ! i)) \<and> key \<in> set (tk_keys (tickets g ! j)) \<and>
   hard_ok now (tickets g ! i) (tickets g ! j)"
  by (cases "find_pair_pass now g cd False") (auto simp: find_pair_def dest: find_pair_pass_sound)

lemma find_pair_None: "find_pair now g cd = None \<Longrightarrow> find_pair_pass now g cd True = None"
  by (cases "find_pair_pass now g cd False") (auto simp: find_pair_def)

text \<open>The loop of \<^verbatim>\<open>pair\<close>: each round takes two tickets, so it ends.\<close>

definition take_pair :: "time \<Rightarrow> string \<Rightarrow> QueueInner \<Rightarrow> nat \<times> nat \<times> MatchKey \<Rightarrow> QueueInner \<times> Pending" where
  "take_pair now mid g ijk =
     (case ijk of (i, j, key) \<Rightarrow>
        let hi = max i j; lo = min i j;
            t_hi = tickets g ! hi;
            ts1 = remove_at hi (tickets g);
            t_lo = ts1 ! lo;
            p = make_offer now mid key t_lo t_hi
        in (g\<lparr> tickets := remove_at lo ts1, pending := pending g @ [p] \<rparr>, p))"

lemma tickets_take_pair:
  assumes "i < length (tickets g)" "j < length (tickets g)" "i \<noteq> j"
  shows "length (tickets (fst (take_pair now mid g (i, j, key)))) = length (tickets g) - 2"
  using assms by (simp add: take_pair_def Let_def length_remove_at max_def min_def)

function pair_loop ::
    "time \<Rightarrow> nat \<Rightarrow> (nat \<Rightarrow> string) \<Rightarrow> QueueInner \<Rightarrow> Pending list \<Rightarrow> QueueInner \<times> Pending list" where
  "pair_loop now cooldown mint g offers =
     (case find_pair now g cooldown of
        None \<Rightarrow> (g, offers)
      | Some ijk \<Rightarrow>
          pair_loop now cooldown mint (fst (take_pair now (mint (length offers)) g ijk))
            (offers @ [snd (take_pair now (mint (length offers)) g ijk)]))"
  by pat_completeness auto
termination
proof (relation "measure (\<lambda>(now, cd, mint, g, offers). length (tickets g))")
  fix now cd mint g offers ijk
  assume f: "find_pair now g cd = Some ijk"
  obtain i j key where ijk: "ijk = (i, j, key)" by (cases ijk) auto
  from find_pair_sound [OF f [unfolded ijk]] have "i < length (tickets g)" "j < length (tickets g)" "i \<noteq> j" by auto
  then show "((now, cd, mint, fst (take_pair now (mint (length offers)) g ijk),
      offers @ [snd (take_pair now (mint (length offers)) g ijk)]), now, cd, mint, g, offers)
    \<in> measure (\<lambda>(now, cd, mint, g, offers). length (tickets g))"
    unfolding ijk by (simp add: tickets_take_pair)
qed simp

declare pair_loop.simps [simp del]

definition pair :: "time \<Rightarrow> nat \<Rightarrow> (nat \<Rightarrow> string) \<Rightarrow> QueueInner \<Rightarrow> QueueInner \<times> Pending list" where
  "pair now cooldown mint g =
     pair_loop now cooldown mint
       (g\<lparr> recent := filter (\<lambda>(_, _, t0). secs_since now t0 < cooldown) (recent g) \<rparr>) []"

definition status_rows :: "time \<Rightarrow> QueueInner \<Rightarrow> (string \<times> nat \<times> int \<times> (MatchKey \<times> nat) list) list" where
  "status_rows now g =
     map (\<lambda>t. (tk_player t, waited now t, tk_rtt t,
        map (\<lambda>k. (k, length (filter (\<lambda>o'. tk_account o' \<noteq> tk_account t \<and> k \<in> set (tk_keys o')) (tickets g))))
          (tk_keys t))) (tickets g)"


subsection \<open>What a round of pairing does\<close>

text \<open>An offer as pairing may make it: a queue type both asked for, the hard rules, the older
  ticket first, nobody has answered, and somebody can relay.\<close>

definition offer_ok :: "time \<Rightarrow> Pending \<Rightarrow> bool" where
  "offer_ok now p \<longleftrightarrow>
     pn_key p \<in> set (tk_keys (pn_a p)) \<and> pn_key p \<in> set (tk_keys (pn_b p)) \<and> hard_ok now (pn_a p) (pn_b p) \<and>
     tk_queued_at (pn_a p) \<le> tk_queued_at (pn_b p) \<and> a_accept p = None \<and> b_accept p = None \<and>
     relay_host_is_a p \<noteq> None"

lemma hard_ok_sym: "hard_ok now a b \<longleftrightarrow> hard_ok now b a"
  by (auto simp: hard_ok_def relay_possible_def rtt_ok_def max.commute add.commute Let_def)

lemma nth_remove_at_less: "lo < hi \<Longrightarrow> hi < length xs \<Longrightarrow> remove_at hi xs ! lo = xs ! lo"
  by (simp add: remove_at_def nth_append)

lemma relay_host_chosen: "relay_possible (pn_a p) (pn_b p) \<Longrightarrow> relay_host_is_a p \<noteq> None"
  by (auto simp: relay_possible_def relay_host_is_a_def is_ice_def split: option.splits)

lemma make_offer_sides:
  "{# pn_a (make_offer now mid key lo hi), pn_b (make_offer now mid key lo hi) #} = {# lo, hi #}"
  by (simp add: make_offer_def add_mset_commute)

lemma make_offer_ok:
  assumes "key \<in> set (tk_keys lo)" "key \<in> set (tk_keys hi)" "hard_ok now lo hi"
  shows "offer_ok now (make_offer now mid key lo hi)"
proof -
  let ?p = "make_offer now mid key lo hi"
  have h: "hard_ok now (pn_a ?p) (pn_b ?p)"
    using assms(3) hard_ok_sym [of now lo hi] by (simp add: make_offer_def)
  then have "relay_host_is_a ?p \<noteq> None" by (intro relay_host_chosen) (simp add: hard_ok_def)
  then show ?thesis using assms h by (auto simp: offer_ok_def make_offer_def)
qed

lemma take_pair_effect:
  assumes "find_pair now g cd = Some ijk" "take_pair now mid g ijk = (g', p)"
  shows "offer_ok now p \<and> mset (tickets g) = mset (tickets g') + {# pn_a p, pn_b p #} \<and>
    pending g' = pending g @ [p] \<and> recent g' = recent g"
proof -
  obtain i j key where ijk: "ijk = (i, j, key)" by (cases ijk) auto
  let ?hi = "max i j" and ?lo = "min i j"
  have f: "i < length (tickets g)" "j < length (tickets g)" "i \<noteq> j" "key \<in> set (tk_keys (tickets g ! i))"
    "key \<in> set (tk_keys (tickets g ! j))" "hard_ok now (tickets g ! i) (tickets g ! j)"
    using find_pair_sound assms(1) ijk by blast+
  have lh: "?lo < ?hi" "?hi < length (tickets g)" using f(1-3) by auto
  have lo: "remove_at ?hi (tickets g) ! ?lo = tickets g ! ?lo" using nth_remove_at_less lh by blast
  have p: "p = make_offer now mid key (tickets g ! ?lo) (tickets g ! ?hi)"
    and g': "g' = g\<lparr> tickets := remove_at ?lo (remove_at ?hi (tickets g)), pending := pending g @ [p] \<rparr>"
    using assms(2) by (auto simp: take_pair_def ijk Let_def lo)
  have "offer_ok now p" unfolding p
    using f hard_ok_sym by (intro make_offer_ok) (auto simp: max_def min_def)
  moreover have "mset (tickets g) = add_mset (tickets g ! ?hi) (mset (remove_at ?hi (tickets g)))"
    using remove_at_perm lh(2) by blast
  moreover have "mset (remove_at ?hi (tickets g)) =
      add_mset (tickets g ! ?lo) (mset (remove_at ?lo (remove_at ?hi (tickets g))))"
  proof -
    have "?lo < length (remove_at ?hi (tickets g))" unfolding length_remove_at [OF lh(2)] using lh by linarith
    from remove_at_perm [OF this] show ?thesis unfolding lo .
  qed
  ultimately show ?thesis using make_offer_sides [of now mid key] p g' by (simp add: add_mset_commute)
qed

definition offered_tickets :: "Pending list \<Rightarrow> Ticket list" where
  "offered_tickets ps = concat (map (\<lambda>p. [pn_a p, pn_b p]) ps)"

lemma pair_loop_effect:
  "pair_loop now cd mint g offers = (g', offers') \<Longrightarrow> list_all (offer_ok now) offers \<Longrightarrow>
   \<exists>made. offers' = offers @ made \<and> list_all (offer_ok now) offers' \<and> pending g' = pending g @ made \<and>
     mset (tickets g) = mset (tickets g') + mset (offered_tickets made) \<and> recent g' = recent g \<and>
     find_pair now g' cd = None"
proof (induction now cd mint g offers rule: pair_loop.induct)
  case (1 now cd mint g offers)
  show ?case
  proof (cases "find_pair now g cd")
    case None
    then show ?thesis using "1.prems" by (subst (asm) pair_loop.simps) (simp add: offered_tickets_def)
  next
    case (Some ijk)
    obtain h p where tp: "take_pair now (mint (length offers)) g ijk = (h, p)" by force
    have e: "offer_ok now p" "mset (tickets g) = mset (tickets h) + {# pn_a p, pn_b p #}"
      "pending h = pending g @ [p]" "recent h = recent g"
      using take_pair_effect [OF Some tp] by auto
    have "pair_loop now cd mint h (offers @ [p]) = (g', offers')"
      using "1.prems"(1) Some tp by (subst (asm) pair_loop.simps) simp
    then obtain made where m: "offers' = offers @ [p] @ made" "list_all (offer_ok now) offers'"
      "pending g' = pending h @ made" "mset (tickets h) = mset (tickets g') + mset (offered_tickets made)"
      "recent g' = recent h" "find_pair now g' cd = None"
      using "1.IH" [OF Some] tp e(1) "1.prems"(2) by auto
    then show ?thesis using e
      by (intro exI [of _ "p # made"]) (simp add: offered_tickets_def)
  qed
qed

lemma pair_effect:
  assumes "pair now cd mint g = (g', offers)"
  shows "list_all (offer_ok now) offers \<and> pending g' = pending g @ offers \<and>
    mset (tickets g) = mset (tickets g') + mset (offered_tickets offers) \<and> find_pair now g' cd = None"
  using pair_loop_effect [OF assms [unfolded pair_def]] by auto


text \<open>
  C16: pairing leaves nobody behind who could play.  When a round is over, no two waiting
  tickets share a queue type and satisfy the hard rules: the preference for a new opponent
  never keeps two players apart when nobody else is there.
\<close>
theorem pairing_is_exhaustive:
  assumes "pair now cooldown mint g = (g', offers)" "a \<in> set (tickets g')" "b \<in> set (tickets g')"
    and "key \<in> set (tk_keys a)" "key \<in> set (tk_keys b)"
  shows "\<not> hard_ok now a b"
proof
  assume h: "hard_ok now a b"
  obtain i j where ij: "i < length (tickets g')" "j < length (tickets g')" "a = tickets g' ! i" "b = tickets g' ! j"
    using assms(2,3) by (auto simp: in_set_conv_nth)
  have "i \<noteq> j" using h ij by (auto simp: hard_ok_def)
  moreover have "find_pair_pass now g' cooldown True = None"
    using pair_effect [OF assms(1)] find_pair_None by blast
  ultimately show False using ij h assms(4,5) by (auto simp: find_pair_pass_None)
qed

definition demo_key :: MatchKey where
  "demo_key = \<lparr> mk_game_name = ''g'', mk_game_version = ''1'', mk_disc_fp = [], mk_ruleset_id = ''r'', mk_max_slots = 2 \<rparr>"

definition demo_ticket :: "string \<Rightarrow> string list \<Rightarrow> Ticket" where
  "demo_ticket n blocks = \<lparr> tk_player = n, tk_account = n, tk_handle = n, tk_username = n, tk_country = [],
     tk_keys = [demo_key], tk_host_bind = [], tk_guest_bind = [], tk_relay_endpoint = Some ''e'', tk_ice_relay = False,
     tk_queued_at = 0, tk_rtt = 40, tk_blocks = blocks \<rparr>"

text \<open>Ann blocked Bob: Ann plays Cid although they just played, and Bob waits.\<close>

definition demo_queue :: QueueInner where
  "demo_queue = \<lparr> tickets = [demo_ticket ''ann'' [''bob''], demo_ticket ''bob'' [], demo_ticket ''cid'' [''bob'']],
     pending = [], recent = [(''ann'', ''cid'', 0)] \<rparr>"

lemma demo_queue_pairs:
  "map (\<lambda>p. (tk_account (pn_a p), tk_account (pn_b p))) (snd (pair 1000000000 300 (\<lambda>_. ''m'') demo_queue)) = [(''ann'', ''cid'')]"
  "map tk_account (tickets (fst (pair 1000000000 300 (\<lambda>_. ''m'') demo_queue))) = [''bob'']"
  by code_simp+



theorem pairing_is_exhaustive_witness:
  "\<not> hard_ok 1000000000 (demo_ticket ''bob'' []) (demo_ticket ''bob'' [])"
proof -
  obtain g' offers where p: "pair 1000000000 300 (\<lambda>_. ''m'') demo_queue = (g', offers)" by force
  have "tickets (fst (pair 1000000000 300 (\<lambda>_. ''m'') demo_queue)) = [demo_ticket ''bob'' []]" by code_simp
  then have "tickets g' = [demo_ticket ''bob'' []]" by (simp add: p)
  then show ?thesis
    using pairing_is_exhaustive [OF p, of "demo_ticket ''bob'' []" "demo_ticket ''bob'' []" demo_key]
    by (simp add: demo_ticket_def)
qed

subsection \<open>Answers and deadlines\<close>

lemma side_cases:
  "side p player \<noteq> None \<longleftrightarrow> tk_player (pn_a p) = player \<or> tk_player (pn_b p) = player"
  by (auto simp: side_def)

definition other_answer :: "Pending \<Rightarrow> string \<Rightarrow> bool option" where
  "other_answer p player = (if side p player = Some True then b_accept p else a_accept p)"

lemma answered_record:
  assumes "\<not> answered p" "side p player \<noteq> None"
  shows "answered (record_answer player accept p) \<longleftrightarrow> \<not> accept \<or> other_answer p player \<noteq> None"
    and "both_yes (record_answer player accept p) \<longleftrightarrow> accept \<and> other_answer p player = Some True"
  using assms by (auto simp: record_answer_def answered_def both_yes_def other_answer_def side_def)

text \<open>
  One decline settles an offer at once, and a late answer settles nothing.  For a player
  with an undecided offer, an answer that names another offer changes nothing; otherwise a
  decline, or the second of two answers, takes exactly that offer out of the queue and returns
  it with the answer recorded, both sides having agreed exactly when both accepted; the first
  acceptance is only recorded.
\<close>
theorem answers_settle_their_own_offer:
  assumes "position (\<lambda>p. side p player \<noteq> None) (pending g) = Some i" "p = pending g ! i" "\<not> answered p"
  shows "let q = record_answer player accept p in
    answer_for player accept mid g =
      (if (case mid of Some m \<Rightarrow> m \<noteq> pn_match_id p | None \<Rightarrow> False) then (g, None)
       else if accept \<and> other_answer p player = None then (g\<lparr> pending := (pending g)[i := q] \<rparr>, None)
       else (g\<lparr> pending := remove_at i (pending g) \<rparr>, Some q)) \<and>
    (both_yes q \<longleftrightarrow> accept \<and> other_answer p player = Some True) \<and>
    pn_a q = pn_a p \<and> pn_b q = pn_b p \<and> pn_match_id q = pn_match_id p"
proof -
  have "side p player \<noteq> None" using position_Some [OF assms(1)] assms(2) by simp
  note a = answered_record [OF assms(3) this, of accept]
  show ?thesis unfolding Let_def answer_for_def assms(1) option.case using a assms(2)
    by (auto simp: record_answer_def side_def split: option.splits if_splits)
qed

definition demo_offer :: Pending where
  "demo_offer = \<lparr> pn_match_id = ''m'', pn_key = demo_key, pn_a = demo_ticket ''ann'' [], pn_b = demo_ticket ''cid'' [],
     a_accept = None, b_accept = None, offered_at = 0 \<rparr>"

theorem answers_settle_their_own_offer_witness:
  "answer_for ''cid'' False None \<lparr> tickets = [], pending = [demo_offer], recent = [] \<rparr> =
     (\<lparr> tickets = [], pending = [], recent = [] \<rparr>, Some (demo_offer\<lparr> b_accept := Some False \<rparr>))"
proof -
  let ?g = "\<lparr> tickets = [], pending = [demo_offer], recent = [] \<rparr>"
  have "position (\<lambda>p. side p ''cid'' \<noteq> None) (pending ?g) = Some 0" "demo_offer = pending ?g ! 0" "\<not> answered demo_offer"
    by (auto simp: demo_offer_def side_def demo_ticket_def answered_def)
  note answers_settle_their_own_offer [OF this, of False None]
  moreover have "record_answer ''cid'' False demo_offer = demo_offer\<lparr> b_accept := Some False \<rparr>"
    by (simp add: record_answer_def side_def demo_offer_def demo_ticket_def)
  ultimately show ?thesis by (simp add: Let_def remove_at_def)
qed

lemma expire_loop_eq:
  "expire_loop now secs i ps out =
     (take i ps @ filter (\<lambda>p. \<not> expired now secs p) (drop i ps), out @ filter (expired now secs) (drop i ps))"
proof (induction now secs i ps out rule: expire_loop.induct)
  case (1 now secs i ps out)
  show ?case
  proof (cases "i < length ps")
    case True
    have d: "drop i ps = ps ! i # drop (Suc i) ps" using True by (simp add: Cons_nth_drop_Suc)
    have r: "take i (remove_at i ps) = take i ps" "drop i (remove_at i ps) = drop (Suc i) ps"
      using True by (simp_all add: remove_at_def)
    show ?thesis using 1 True
      by (subst expire_loop.simps) (auto simp: d r take_Suc_conv_app_nth)
  qed (subst expire_loop.simps, simp)
qed

text \<open>
  Taking the expired offers is a partition: exactly the offers whose deadline has passed
  are returned, in order, and the others stay, in order; the tickets are untouched.
\<close>
theorem take_expired_partitions:
  "take_expired now secs g =
     (g\<lparr> pending := filter (\<lambda>p. secs_since now (offered_at p) < secs) (pending g) \<rparr>,
      filter (\<lambda>p. secs_since now (offered_at p) \<ge> secs) (pending g))"
  by (simp add: take_expired_def expire_loop_eq expired_def [abs_def] not_le)

subsection \<open>One place per account\<close>

definition offer_accounts :: "Pending \<Rightarrow> string list" where
  "offer_accounts p = [tk_account (pn_a p), tk_account (pn_b p)]"

definition queue_accounts :: "QueueInner \<Rightarrow> string list" where
  "queue_accounts g = map tk_account (tickets g) @ concat (map offer_accounts (pending g))"

definition queue_inv :: "QueueInner \<Rightarrow> bool" where
  "queue_inv g \<longleftrightarrow> distinct (queue_accounts g) \<and> list_all (\<lambda>p. \<not> answered p) (pending g)"

lemma distinct_submset: "distinct xs \<Longrightarrow> mset ys \<subseteq># mset xs \<Longrightarrow> distinct ys"
  unfolding distinct_count_atmost_1 by (metis (mono_tags, lifting) count_greater_zero_iff le_antisym le_zero_eq
      less_one mset_subset_eq_count not_le set_mset_mset count_mset_0_iff nat_neq_iff)

text \<open>Operations that seat nobody new keep the invariant.\<close>

locale shrinking_op =
  fixes op :: "QueueInner \<Rightarrow> QueueInner"
  assumes accounts_sub: "mset (queue_accounts (op g)) \<subseteq># mset (queue_accounts g)"
    and unanswered: "list_all (\<lambda>p. \<not> answered p) (pending g) \<Longrightarrow> list_all (\<lambda>p. \<not> answered p) (pending (op g))"
begin

lemma keeps_inv: "queue_inv g \<Longrightarrow> queue_inv (op g)"
  using distinct_submset [OF _ accounts_sub] unanswered by (auto simp: queue_inv_def)

end

lemma mset_filter_map_sub: "image_mset f (filter_mset P M) \<subseteq># image_mset f M"
  by (simp add: image_mset_subseteq_mono)

lemma mset_concat_filter_sub: "mset (concat (map f (filter P xs))) \<subseteq># mset (concat (map f xs))"
  by (induction xs) (auto intro: subset_mset.add_increasing subset_mset.add_left_mono)

lemma mset_concat_remove_at:
  assumes "i < length xs"
  shows "mset (concat (map f xs)) = mset (f (xs ! i)) + mset (concat (map f (remove_at i xs)))"
  by (subst id_take_nth_drop [OF assms]) (simp add: remove_at_def)

lemma list_all_remove_at: "list_all P xs \<Longrightarrow> list_all P (remove_at i xs)"
  using set_remove_at_subset [of i xs] by (auto simp: list_all_iff)

lemma list_all_update: "list_all P xs \<Longrightarrow> P x \<Longrightarrow> list_all P (xs[i := x])"
  using set_update_subset_insert [of xs i x] by (auto simp: list_all_iff)

interpretation removal: shrinking_op "\<lambda>g. fst (remove_player player g)" for player
proof
  fix g :: QueueInner
  show "mset (queue_accounts (fst (remove_player player g))) \<subseteq># mset (queue_accounts g)"
  proof (cases "position (\<lambda>p. side p player \<noteq> None) (pending g)")
    case None
    then show ?thesis by (simp add: remove_player_def queue_accounts_def mset_filter_map_sub subset_mset.add_mono)
  next
    case (Some i)
    then have "i < length (pending g)" using position_Some by blast
    then have "mset (concat (map offer_accounts (remove_at i (pending g)))) \<subseteq># mset (concat (map offer_accounts (pending g)))"
      by (simp add: mset_concat_remove_at [of i "pending g"])
    then show ?thesis using Some
      by (simp add: remove_player_def queue_accounts_def mset_filter_map_sub subset_mset.add_mono)
  qed
  show "list_all (\<lambda>p. \<not> answered p) (pending g) \<Longrightarrow>
      list_all (\<lambda>p. \<not> answered p) (pending (fst (remove_player player g)))"
    by (auto simp: remove_player_def Let_def list_all_remove_at split: option.splits)
qed

lemma set_rtt_list_accounts: "map tk_account (fst (set_rtt_list player rtt ts)) = map tk_account ts"
  by (induction ts) (auto split: prod.splits)

interpretation rtt: shrinking_op "\<lambda>g. fst (set_rtt player rtt g)" for player rtt
proof
  fix g :: QueueInner
  obtain ts b where l: "set_rtt_list player rtt (tickets g) = (ts, b)" by force
  show "mset (queue_accounts (fst (set_rtt player rtt g))) \<subseteq># mset (queue_accounts g)"
    using set_rtt_list_accounts [of player rtt "tickets g"] l
    by (simp add: set_rtt_def queue_accounts_def flip: mset_map)
  show "list_all (\<lambda>p. \<not> answered p) (pending g) \<Longrightarrow> list_all (\<lambda>p. \<not> answered p) (pending (fst (set_rtt player rtt g)))"
    by (simp add: set_rtt_def l)
qed

interpretation answering: shrinking_op "\<lambda>g. fst (answer_for player accept mid g)" for player accept mid
proof
  fix g :: QueueInner
  have upd: "i < length ps \<Longrightarrow> offer_accounts q = offer_accounts (ps ! i) \<Longrightarrow>
      concat (map offer_accounts (ps[i := q])) = concat (map offer_accounts ps)" for i ps q
    by (metis list_update_id map_update)
  have acc: "offer_accounts (record_answer player accept p) = offer_accounts p" for p
    by (simp add: record_answer_def offer_accounts_def split: option.split bool.split)
  show "mset (queue_accounts (fst (answer_for player accept mid g))) \<subseteq># mset (queue_accounts g)"
  proof (cases "position (\<lambda>p. side p player \<noteq> None) (pending g)")
    case (Some i)
    then have i: "i < length (pending g)" using position_Some by blast
    then have "mset (concat (map offer_accounts (remove_at i (pending g)))) \<subseteq># mset (concat (map offer_accounts (pending g)))"
      by (simp add: mset_concat_remove_at [of i "pending g"])
    then show ?thesis using Some i by (simp add: answer_for_def Let_def queue_accounts_def upd acc)
  qed (simp add: answer_for_def)
  show "list_all (\<lambda>p. \<not> answered p) (pending g) \<Longrightarrow>
      list_all (\<lambda>p. \<not> answered p) (pending (fst (answer_for player accept mid g)))"
    by (simp add: answer_for_def Let_def list_all_remove_at list_all_update split: option.split)
qed

interpretation expiry: shrinking_op "\<lambda>g. fst (take_expired now secs g)" for now secs
proof
  fix g :: QueueInner
  show "mset (queue_accounts (fst (take_expired now secs g))) \<subseteq># mset (queue_accounts g)"
    by (simp add: take_expired_def expire_loop_eq queue_accounts_def mset_concat_filter_sub)
  show "list_all (\<lambda>p. \<not> answered p) (pending g) \<Longrightarrow> list_all (\<lambda>p. \<not> answered p) (pending (fst (take_expired now secs g)))"
    by (auto simp: take_expired_def expire_loop_eq list_all_iff)
qed

lemma offered_accounts: "map tk_account (offered_tickets ps) = concat (map offer_accounts ps)"
  by (induction ps) (simp_all add: offered_tickets_def offer_accounts_def)

interpretation pairing: shrinking_op "\<lambda>g. fst (pair now cooldown mint g)" for now cooldown mint
proof
  fix g :: QueueInner
  obtain g' offers where p: "pair now cooldown mint g = (g', offers)" by force
  note e = pair_effect [OF p]
  have "image_mset tk_account (mset (tickets g))
      = image_mset tk_account (mset (tickets g')) + image_mset tk_account (mset (offered_tickets offers))"
    using e by simp
  then show "mset (queue_accounts (fst (pair now cooldown mint g))) \<subseteq># mset (queue_accounts g)"
    using e by (simp add: p queue_accounts_def offered_accounts [symmetric])
  show "list_all (\<lambda>p. \<not> answered p) (pending g) \<Longrightarrow> list_all (\<lambda>p. \<not> answered p) (pending (fst (pair now cooldown mint g)))"
    using e by (auto simp: p list_all_iff offer_ok_def answered_def)
qed

interpretation noting: shrinking_op "note_pairing now a b" for now a b
  by unfold_locales (simp_all add: note_pairing_def queue_accounts_def)

text \<open>The steps of the queue.  A ticket is added for an account that has none.\<close>

inductive queue_step :: "QueueInner \<Rightarrow> QueueInner \<Rightarrow> bool" where
  step_push: "\<not> is_queued_account (tk_account t) g \<Longrightarrow> queue_step g (push t g)"
| step_requeue: "\<not> is_queued_account (tk_account t) g \<Longrightarrow> queue_step g (requeue_front now t g)"
| step_remove: "queue_step g (fst (remove_player player g))"
| step_rtt: "queue_step g (fst (set_rtt player r g))"
| step_answer: "queue_step g (fst (answer_for player accept mid g))"
| step_expire: "queue_step g (fst (take_expired now secs g))"
| step_pair: "queue_step g (fst (pair now cooldown mint g))"
| step_note: "queue_step g (note_pairing now a b g)"

definition empty_queue :: QueueInner where
  "empty_queue = \<lparr> tickets = [], pending = [], recent = [] \<rparr>"

inductive queue_reachable :: "QueueInner \<Rightarrow> bool" where
  q_init: "queue_reachable empty_queue"
| q_step: "queue_reachable g \<Longrightarrow> queue_step g g' \<Longrightarrow> queue_reachable g'"

lemma is_queued_account_iff: "is_queued_account acct g \<longleftrightarrow> acct \<in> set (queue_accounts g)"
  by (auto simp: is_queued_account_def queue_accounts_def offer_accounts_def list_ex_iff)

lemma queue_step_inv: "queue_step g g' \<Longrightarrow> queue_inv g \<Longrightarrow> queue_inv g'"
proof (induction rule: queue_step.induct)
  case (step_push t g)
  then show ?case by (auto simp: queue_inv_def is_queued_account_iff push_def queue_accounts_def)
next
  case (step_requeue t g now)
  then show ?case by (auto simp: queue_inv_def is_queued_account_iff requeue_front_def queue_accounts_def)
qed (fact removal.keeps_inv rtt.keeps_inv answering.keeps_inv expiry.keeps_inv pairing.keeps_inv noting.keeps_inv)+



end
