(* ===== verification/History.thy ===== *)
theory History
  imports Match_Queue
begin

text \<open>
  The tables the server only appends to: automatch strikes and pairings and desync reports
  (\<^verbatim>\<open>src/automatch.rs\<close>), and chat reports (\<^verbatim>\<open>src/moderation.rs\<close>).  A table is the list of its
  rows, a statement the function its SQL says; times are whole seconds, as SQLite's
  \<^verbatim>\<open>datetime('now')\<close> writes them.  \<open>accts\<close> are the ids of \<^verbatim>\<open>players\<close>, which the foreign keys
  of the migrations refer to; row ids are drawn.
\<close>

subsection \<open>Strikes and pairings\<close>

record Strike =
  sk_player :: string
  sk_kind :: string
  sk_game :: string
  sk_created :: int

record PairingRow =
  pr_match_id :: string
  pr_game :: string
  pr_ruleset :: string
  pr_a :: string
  pr_b :: string
  pr_rtt :: "int option"
  pr_paired :: int
  pr_launched :: "int option"

record DesyncReport =
  ds_player :: string
  ds_lobby_id :: string
  ds_game_name :: string
  ds_game_version :: string
  ds_disc_fp :: string
  ds_tick :: int
  ds_partition :: string
  ds_digest_mine :: string
  ds_digest_theirs :: string
  ds_role :: string
  ds_mod_exempt :: string
  ds_created :: int

record History =
  strikes :: "Strike list"
  pairings :: "PairingRow list"
  desyncs :: "DesyncReport list"

definition record_strike :: "string list \<Rightarrow> int \<Rightarrow> string \<Rightarrow> string \<Rightarrow> string \<Rightarrow> History \<Rightarrow> History" where
  "record_strike accts now acct kind game h =
     (if acct \<in> set accts
      then h\<lparr> strikes := strikes h @ [\<lparr> sk_player = acct, sk_kind = kind, sk_game = game, sk_created = now \<rparr>] \<rparr>
      else h)"

definition STRIKE_WINDOW_SECS :: nat where [rust_simps]: "STRIKE_WINDOW_SECS = 86400"

definition recent_strikes :: "int \<Rightarrow> string \<Rightarrow> History \<Rightarrow> Strike list" where
  "recent_strikes now acct h =
     filter (\<lambda>s. sk_player s = acct \<and> sk_created s \<ge> now - int STRIKE_WINDOW_SECS) (strikes h)"

definition cooldown_secs :: "int \<Rightarrow> string \<Rightarrow> nat list \<Rightarrow> History \<Rightarrow> nat" where
  "cooldown_secs now acct ladder h =
     (if ladder = [] then 0
      else let rows = recent_strikes now acct h
           in if rows = [] then 0
              else let idx = min (length rows - 1) (length ladder - 1);
                       since = now - Max (set (map sk_created rows))
                   in ladder ! idx - nat (max since 0))"

definition record_pairing ::
    "string list \<Rightarrow> int \<Rightarrow> string \<Rightarrow> MatchKey \<Rightarrow> string \<Rightarrow> string \<Rightarrow> int \<Rightarrow> History \<Rightarrow> History" where
  "record_pairing accts now mid key a b est h =
     (if a \<in> set accts \<and> b \<in> set accts \<and> mid \<notin> pr_match_id ` set (pairings h)
      then h\<lparr> pairings := pairings h @
             [\<lparr> pr_match_id = mid, pr_game = mk_game_name key, pr_ruleset = mk_ruleset_id key, pr_a = a, pr_b = b,
                pr_rtt = (if est \<ge> 0 then Some est else None), pr_paired = now, pr_launched = None \<rparr>] \<rparr>
      else h)"

definition mark_launched :: "int \<Rightarrow> string \<Rightarrow> History \<Rightarrow> History" where
  "mark_launched now mid h =
     h\<lparr> pairings := map (\<lambda>r. if pr_match_id r = mid then r\<lparr> pr_launched := Some now \<rparr> else r) (pairings h) \<rparr>"

text \<open>\<^verbatim>\<open>clamp\<close>: a text that fits in \<open>m\<close> bytes is kept, a longer one is cut to \<open>m\<close> characters.\<close>

definition clamp_text :: "string \<Rightarrow> nat \<Rightarrow> string" where
  "clamp_text s m = (let t = trim s in if length t \<le> m then t else of_chars (take m (chars t)))"

definition record_desync :: "string list \<Rightarrow> int \<Rightarrow> string \<Rightarrow> DesyncReport \<Rightarrow> History \<Rightarrow> History" where
  "record_desync accts now acct r h =
     (if acct \<notin> set accts then h
      else h\<lparr> desyncs := desyncs h @
        [\<lparr> ds_player = acct, ds_lobby_id = clamp_text (ds_lobby_id r) 64, ds_game_name = clamp_text (ds_game_name r) 128,
           ds_game_version = clamp_text (ds_game_version r) 64, ds_disc_fp = clamp_text (ds_disc_fp r) 64,
           ds_tick = clamp_val 0 4294967295 (ds_tick r), ds_partition = clamp_text (ds_partition r) 32,
           ds_digest_mine = clamp_text (ds_digest_mine r) 16, ds_digest_theirs = clamp_text (ds_digest_theirs r) 16,
           ds_role = clamp_text (ds_role r) 8, ds_mod_exempt = clamp_text (ds_mod_exempt r) 512, ds_created = now \<rparr>] \<rparr>)"

subsection \<open>Retention\<close>

record Pruned =
  pd_strikes :: nat
  pd_pairings :: nat
  pd_desyncs :: nat

definition saturating_mul_u64 :: "nat \<Rightarrow> nat \<Rightarrow> nat" where
  [rust_simps]: "saturating_mul_u64 a b = min (a * b) 18446744073709551615"

definition cutoff_secs :: "nat \<Rightarrow> nat \<Rightarrow> nat" where
  "cutoff_secs retention_days window = max (saturating_mul_u64 retention_days (24 * 60 * 60)) window"

definition prune :: "int \<Rightarrow> nat \<Rightarrow> nat \<Rightarrow> History \<Rightarrow> History \<times> Pruned" where
  "prune now retention_days rematch_cooldown h =
     (let keep_s = (\<lambda>s. \<not> sk_created s < now - int (cutoff_secs retention_days STRIKE_WINDOW_SECS));
          keep_p = (\<lambda>r. \<not> pr_paired r < now - int (cutoff_secs retention_days rematch_cooldown));
          keep_d = (\<lambda>r. \<not> ds_created r < now - int (saturating_mul_u64 retention_days 86400))
      in (h\<lparr> strikes := filter keep_s (strikes h), pairings := filter keep_p (pairings h),
             desyncs := filter keep_d (desyncs h) \<rparr>,
          \<lparr> pd_strikes = length (filter (\<lambda>s. \<not> keep_s s) (strikes h)),
            pd_pairings = length (filter (\<lambda>s. \<not> keep_p s) (pairings h)),
            pd_desyncs = length (filter (\<lambda>s. \<not> keep_d s) (desyncs h)) \<rparr>))"

definition pruned_total :: "Pruned \<Rightarrow> nat" where
  "pruned_total p = pd_strikes p + pd_pairings p + pd_desyncs p"

lemma cutoff_ge: "window \<le> cutoff_secs days window"
  by (simp add: cutoff_secs_def)

lemma recent_strikes_prune:
  assumes "now \<le> later"
  shows "recent_strikes later acct (fst (prune now days rc h)) = recent_strikes later acct h"
proof -
  have "\<not> sk_created s < now - int (cutoff_secs days STRIKE_WINDOW_SECS)"
    if "sk_created s \<ge> later - int STRIKE_WINDOW_SECS" for s
    using that cutoff_ge [of STRIKE_WINDOW_SECS days] assms by linarith
  then show ?thesis
    by (auto simp: recent_strikes_def prune_def Let_def conj_commute intro: filter_cong)
qed

text \<open>
  C34: retention never lets a dodger off.  Whatever retention an operator sets, a sweep leaves
  every cooldown as it was, now and later, keeps every pairing inside the rematch window, and
  reports exactly how many rows went.
\<close>
theorem prune_keeps_enforcement:
  assumes "now \<le> later"
  shows "cooldown_secs later acct ladder (fst (prune now days rc h)) = cooldown_secs later acct ladder h \<and>
    filter (\<lambda>r. pr_paired r \<ge> now - int rc) (pairings (fst (prune now days rc h)))
      = filter (\<lambda>r. pr_paired r \<ge> now - int rc) (pairings h) \<and>
    pruned_total (snd (prune now days rc h)) + length (strikes (fst (prune now days rc h)))
      + length (pairings (fst (prune now days rc h))) + length (desyncs (fst (prune now days rc h)))
      = length (strikes h) + length (pairings h) + length (desyncs h)"
proof -
  have "cooldown_secs later acct ladder (fst (prune now days rc h)) = cooldown_secs later acct ladder h"
    by (simp add: cooldown_secs_def recent_strikes_prune [OF assms])
  moreover have "\<not> pr_paired r < now - int (cutoff_secs days rc)" if "pr_paired r \<ge> now - int rc" for r
    using that cutoff_ge [of rc days] by linarith
  then have "filter (\<lambda>r. pr_paired r \<ge> now - int rc) (pairings (fst (prune now days rc h)))
      = filter (\<lambda>r. pr_paired r \<ge> now - int rc) (pairings h)"
    by (auto simp: prune_def Let_def conj_commute intro: filter_cong)
  moreover have "pruned_total (snd (prune now days rc h)) + length (strikes (fst (prune now days rc h)))
      + length (pairings (fst (prune now days rc h))) + length (desyncs (fst (prune now days rc h)))
      = length (strikes h) + length (pairings h) + length (desyncs h)"
  proof -
    have c: "length (filter (\<lambda>x. \<not> P x) xs) + length (filter P xs) = length xs" for P and xs :: "'x list"
      by (induction xs) auto
    obtain P Q R where p: "prune now days rc h =
        (h\<lparr> strikes := filter P (strikes h), pairings := filter Q (pairings h), desyncs := filter R (desyncs h) \<rparr>,
         \<lparr> pd_strikes = length (filter (\<lambda>s. \<not> P s) (strikes h)), pd_pairings = length (filter (\<lambda>s. \<not> Q s) (pairings h)),
           pd_desyncs = length (filter (\<lambda>s. \<not> R s) (desyncs h)) \<rparr>)"
      unfolding prune_def Let_def by blast
    show ?thesis using c [of P "strikes h"] c [of Q "pairings h"] c [of R "desyncs h"]
      by (simp add: p pruned_total_def)
  qed
  ultimately show ?thesis by blast
qed

definition demo_history :: History where
  "demo_history = \<lparr> strikes = [\<lparr> sk_player = ''ann'', sk_kind = ''decline'', sk_game = ''g'', sk_created = 100000 \<rparr>],
     pairings = [], desyncs = [] \<rparr>"

theorem prune_keeps_enforcement_witness:
  "cooldown_secs 100020 ''ann'' [60] (fst (prune 100010 0 300 demo_history)) = 40"
proof -
  have "cooldown_secs 100020 ''ann'' [60] (fst (prune 100010 0 300 demo_history))
      = cooldown_secs 100020 ''ann'' [60] demo_history"
    by (rule prune_keeps_enforcement [THEN conjunct1]) simp
  also have "\<dots> = 40"
    by (simp add: cooldown_secs_def recent_strikes_def demo_history_def STRIKE_WINDOW_SECS_def Let_def)
  finally show ?thesis .
qed

subsection \<open>Chat reports\<close>

definition REASONS :: "string list" where
  "REASONS = [''harassment'', ''hate_speech'', ''sexual_content'', ''spam'', ''threats'', ''cheating_claim'', ''other'']"

definition normalize_reason :: "string \<Rightarrow> string" where
  "normalize_reason reason =
     (let r = to_ascii_lowercase (trim reason) in if r \<in> set REASONS then r else ''other'')"

record ChatReport =
  cr_reporter :: string
  cr_accused :: string
  cr_message_id :: string
  cr_message_text :: string
  cr_accused_name :: string
  cr_context :: string
  cr_transcript :: string
  cr_message_count :: int
  cr_scope :: string
  cr_lobby_id :: string
  cr_game_name :: string
  cr_game_version :: string
  cr_platform :: string
  cr_server :: string
  cr_reason :: string
  cr_note :: string

definition NOTE_MAX_CHARS :: nat where [rust_simps]: "NOTE_MAX_CHARS = 500"
definition REPORTS_PER_HOUR :: nat where [rust_simps]: "REPORTS_PER_HOUR = 20"

definition take_chars :: "string \<Rightarrow> nat \<Rightarrow> string" where
  "take_chars s m = of_chars (take m (trim_chars (chars s)))"

text \<open>A row of \<^verbatim>\<open>chat_reports\<close>: the report as stored, the dump's path and the time.\<close>

type_synonym report_row = "ChatReport \<times> string \<times> int"

datatype Submitted = SubmittedOk | Duplicate | RateLimited | Failed

definition recent_report_count :: "int \<Rightarrow> string \<Rightarrow> report_row list \<Rightarrow> nat" where
  "recent_report_count now reporter t =
     length (filter (\<lambda>(r, _, at0). cr_reporter r = reporter \<and> at0 \<ge> now - 3600) t)"

definition stored_report :: "ChatReport \<Rightarrow> ChatReport" where
  "stored_report r =
     \<lparr> cr_reporter = cr_reporter r, cr_accused = cr_accused r,
       cr_message_id = take_chars (cr_message_id r) 64, cr_message_text = take_chars (cr_message_text r) 512,
       cr_accused_name = take_chars (cr_accused_name r) 64, cr_context = take_chars (cr_context r) 2048,
       cr_transcript = take_chars (cr_transcript r) 8192, cr_message_count = clamp_val 0 64 (cr_message_count r),
       cr_scope = take_chars (cr_scope r) 16, cr_lobby_id = take_chars (cr_lobby_id r) 64,
       cr_game_name = take_chars (cr_game_name r) 128, cr_game_version = take_chars (cr_game_version r) 64,
       cr_platform = take_chars (cr_platform r) 32, cr_server = take_chars (cr_server r) 256,
       cr_reason = normalize_reason (cr_reason r), cr_note = take_chars (cr_note r) NOTE_MAX_CHARS \<rparr>"

text \<open>\<^verbatim>\<open>record\<close>: \<open>dump\<close> is the path \<^verbatim>\<open>write_dump\<close> returned, empty when nothing was written.\<close>

definition record_report ::
    "string list \<Rightarrow> int \<Rightarrow> string \<Rightarrow> ChatReport \<Rightarrow> report_row list \<Rightarrow> report_row list \<times> Submitted" where
  "record_report accts now dump r t =
     (if recent_report_count now (cr_reporter r) t \<ge> REPORTS_PER_HOUR then (t, RateLimited)
      else let s = stored_report r
           in if list_ex (\<lambda>(q, _, _). cr_reporter q = cr_reporter s \<and> cr_message_id q = cr_message_id s) t
              then (t, Duplicate)
              else if cr_reporter s \<notin> set accts \<or> cr_accused s \<notin> set accts then (t, Failed)
              else (t @ [(s, dump, now)], SubmittedOk))"

definition report_keys :: "report_row list \<Rightarrow> (string \<times> string) list" where
  "report_keys t = map (\<lambda>(r, _, _). (cr_reporter r, cr_message_id r)) t"

definition reports_inv :: "int \<Rightarrow> report_row list \<Rightarrow> bool" where
  "reports_inv now t \<longleftrightarrow>
     distinct (report_keys t) \<and> list_all (\<lambda>(r, _, at0). at0 \<le> now \<and> cr_reason r \<in> set REASONS) t \<and>
     (\<forall>p. recent_report_count now p t \<le> REPORTS_PER_HOUR)"

lemma recent_report_count_later: "now \<le> later \<Longrightarrow> recent_report_count later p t \<le> recent_report_count now p t"
  by (induction t) (auto simp: recent_report_count_def)

lemma normalize_reason_in: "normalize_reason r \<in> set REASONS"
  by (simp add: normalize_reason_def Let_def) (simp add: REASONS_def)

lemma record_report_inv:
  assumes inv: "reports_inv now t" and le: "now \<le> later"
    and step: "record_report accts later dump r t = (t', res)"
  shows "reports_inv later t'"
proof -
  have "recent_report_count later p t \<le> REPORTS_PER_HOUR" for p
    using inv recent_report_count_later [OF le, of p t] by (auto simp: reports_inv_def intro: le_trans)
  moreover have "list_all (\<lambda>(r, _, at0). at0 \<le> later \<and> cr_reason r \<in> set REASONS) t"
    using inv le by (auto simp: reports_inv_def list_all_iff)
  ultimately have later: "reports_inv later t" using inv by (simp add: reports_inv_def)
  show ?thesis
  proof (cases "res = SubmittedOk")
    case False
    then show ?thesis using step later by (auto simp: record_report_def Let_def split: if_splits)
  next
    case True
    let ?s = "stored_report r"
    have t': "t' = t @ [(?s, dump, later)]"
      and new: "(cr_reporter ?s, cr_message_id ?s) \<notin> set (report_keys t)"
      and few: "recent_report_count later (cr_reporter r) t < REPORTS_PER_HOUR"
      using step True by (auto simp: record_report_def Let_def report_keys_def list_ex_iff split: if_splits)
    have "cr_reporter ?s = cr_reporter r" "cr_reason ?s \<in> set REASONS"
      by (simp_all add: stored_report_def normalize_reason_in)
    then show ?thesis using later new few
      by (auto simp: t' reports_inv_def report_keys_def recent_report_count_def)
  qed
qed

text \<open>The table after a sequence of submissions, with the times they were made at.\<close>

fun submit_all :: "string list \<Rightarrow> (int \<times> string \<times> ChatReport) list \<Rightarrow> report_row list \<Rightarrow> report_row list" where
  "submit_all accts [] t = t"
| "submit_all accts ((now, dump, r) # rs) t = submit_all accts rs (fst (record_report accts now dump r t))"

lemma submit_all_inv:
  "reports_inv now t \<Longrightarrow> sorted (now # map fst rs) \<Longrightarrow> reports_inv (last (now # map fst rs)) (submit_all accts rs t)"
proof (induction rs arbitrary: now t)
  case (Cons x rs)
  obtain later dump r where x: "x = (later, dump, r)" by (cases x) auto
  have "reports_inv later (fst (record_report accts later dump r t))"
    using record_report_inv [OF Cons.prems(1), of later] Cons.prems(2) x by (simp add: prod_eq_iff)
  from Cons.IH [OF this] show ?case using Cons.prems(2) x by simp
qed simp

text \<open>
  C33: the report queue cannot be flooded or inflated by one account.  However submissions are
  ordered, with a clock that does not run backwards, the table never holds two reports of one
  message by one reporter, nor more than twenty by one reporter within the last hour, and every
  stored reason is one a tool can count.
\<close>
theorem reports_cannot_be_inflated:
  assumes "sorted (map fst rs)" "rs \<noteq> []"
  shows "let t = submit_all accts rs [] in
    distinct (report_keys t) \<and> recent_report_count (fst (last rs)) p t \<le> 20 \<and>
    list_all (\<lambda>(r, _, _). cr_reason r \<in> set REASONS) t"
proof -
  have "sorted (fst (hd rs) # map fst rs)" using assms by (cases rs) auto
  moreover have "reports_inv now []" for now
    by (simp add: reports_inv_def report_keys_def recent_report_count_def)
  ultimately have "reports_inv (last (fst (hd rs) # map fst rs)) (submit_all accts rs [])"
    using submit_all_inv by blast
  moreover have "last (fst (hd rs) # map fst rs) = fst (last rs)" using assms(2) by (simp add: last_map)
  ultimately show ?thesis
    by (auto simp: reports_inv_def REPORTS_PER_HOUR_def Let_def list_all_iff)
qed

definition demo_report :: ChatReport where
  "demo_report = \<lparr> cr_reporter = ''ann'', cr_accused = ''bob'', cr_message_id = ''m1'', cr_message_text = ''x'',
     cr_accused_name = ''Bob'', cr_context = [], cr_transcript = [], cr_message_count = 1, cr_scope = ''lobby'',
     cr_lobby_id = ''L'', cr_game_name = ''g'', cr_game_version = [], cr_platform = [], cr_server = [],
     cr_reason = ''SPAM'', cr_note = [] \<rparr>"

theorem reports_cannot_be_inflated_witness:
  "distinct (report_keys (submit_all [''ann'', ''bob''] [(5, [], demo_report), (6, [], demo_report)] []))"
  using reports_cannot_be_inflated [of "[(5, [], demo_report), (6, [], demo_report)]" "[''ann'', ''bob'']"]
  by (simp add: Let_def del: submit_all.simps)
end
