(* ===== verification/Automatch_Hub.thy ===== *)
theory Automatch_Hub
  imports Hub_Talk History
begin

text \<open>
  Automatch on the hub (\<^verbatim>\<open>src/ws_lobby.rs\<close>, second half): queueing, answering and settling
  offers, forming a match and starting it, and the two kinds of reports.  \<open>Server\<close> is the part
  of \<^verbatim>\<open>AppState\<close> these touch; \<open>ServerEnv\<close> adds the rulesets and the fresh match ids to
  what a hub operation draws on.
\<close>

record Server =
  sv_hub :: Hub
  sv_queue :: QueueInner
  sv_history :: History
  sv_reports :: "report_row list"

record ServerEnv =
  s_hub :: HubEnv
  s_rulesets :: Rulesets
  s_mint :: "nat \<Rightarrow> string"
  s_dump :: string

definition accounts :: "ServerEnv \<Rightarrow> string list" where
  "accounts e = map (\<lambda>(i, r). uuid_text i) (e_players (s_hub e))"

definition unix :: "ServerEnv \<Rightarrow> int" where "unix e = int (e_unix (s_hub e))"
definition now :: "ServerEnv \<Rightarrow> ns" where "now e = e_now (s_hub e)"
definition cfg :: "ServerEnv \<Rightarrow> Config" where "cfg e = e_config (s_hub e)"

definition on_hub :: "(Hub \<Rightarrow> Hub) \<Rightarrow> Server \<Rightarrow> Server" where
  "on_hub f s = s\<lparr> sv_hub := f (sv_hub s) \<rparr>"

definition send :: "string \<Rightarrow> json \<Rightarrow> Server \<Rightarrow> Server" where
  "send p m = on_hub (send_to p m)"

definition deny :: "string \<Rightarrow> string \<Rightarrow> Server \<Rightarrow> Server" where
  "deny p code = on_hub (refuse p code)"

definition here :: "Server \<Rightarrow> string \<Rightarrow> bool" where
  "here s p \<longleftrightarrow> client (sv_hub s) p \<noteq> None"

definition account_text :: "ClientMeta \<Rightarrow> string option" where
  "account_text c = map_option (\<lambda>p. uuid_text (pl_id p)) (cl_account c)"

subsection \<open>From a request to match keys\<close>

definition title_key :: "Rulesets \<Rightarrow> InTitle \<Rightarrow> string + MatchKey" where
  "title_key rs t =
     (let game = trim (it_game t)
      in if game = [] then Inl ''unknown_ruleset''
         else case resolve rs game (trim (it_ruleset t)) of
           None \<Rightarrow> Inl ''unknown_ruleset''
         | Some r \<Rightarrow>
             let disc = normalize_disc_fp (Some (it_disc t)); version = normalize_game_version (Some (it_version t))
             in if disc = [] then Inl ''need_disc_fp''
                else if rs_game_version r \<noteq> [] \<and> rs_game_version r \<noteq> version then Inl ''version_not_pooled''
                else if unwrap_or (it_max_slots t) 2 \<noteq> 2 then Inl ''slots_not_pooled''
                else Inr \<lparr> mk_game_name = game, mk_game_version = version, mk_disc_fp = disc, mk_ruleset_id = rs_id r,
                           mk_max_slots = rs_max_slots r \<rparr>)"

fun keys_loop :: "Rulesets \<Rightarrow> MatchKey list \<Rightarrow> string option \<Rightarrow> InTitle list \<Rightarrow> MatchKey list \<times> string option" where
  "keys_loop rs ks err [] = (ks, err)"
| "keys_loop rs ks err (t # ts) =
     (case title_key rs t of
        Inl c \<Rightarrow> keys_loop rs ks (or_option err (Some c)) ts
      | Inr k \<Rightarrow> keys_loop rs (if k \<in> set ks then ks else ks @ [k]) err ts)"

definition build_keys :: "Rulesets \<Rightarrow> InTitle list \<Rightarrow> string + MatchKey list" where
  "build_keys rs ts =
     (case keys_loop rs [] None ts of
        (ks, err) \<Rightarrow> if ks = [] then Inl (unwrap_or err ''unknown_ruleset'') else Inr ks)"

text \<open>The gate on declared mod exemptions: the first title whose ruleset does not approve.\<close>

fun exemption_gate :: "Rulesets \<Rightarrow> string list \<Rightarrow> InTitle list \<Rightarrow> (string \<times> string) option" where
  "exemption_gate rs exempt [] = None"
| "exemption_gate rs exempt (t # ts) =
     (case resolve rs (it_game t) (it_ruleset t) of
        None \<Rightarrow> exemption_gate rs exempt ts
      | Some r \<Rightarrow>
          (case unapproved_exemption (rs_match_caps r) exempt of
             Some bad \<Rightarrow> Some (rs_id r, bad)
           | None \<Rightarrow> exemption_gate rs exempt ts))"

definition asked_titles :: "ClientMeta \<Rightarrow> InMsg \<Rightarrow> InTitle list" where
  "asked_titles c msg =
     (let ts = unwrap_or (m_titles msg) []
      in if ts = [] then [\<lparr> it_game = cl_game c, it_version = unwrap_or (m_version msg) [], it_disc = unwrap_or (m_disc_fp msg) [],
                            it_ruleset = unwrap_or (m_ruleset msg) [], it_max_slots = None \<rparr>]
         else ts)"

subsection \<open>Offers\<close>

definition est_rtt :: "Pending \<Rightarrow> int" where
  "est_rtt p = (if tk_rtt (pn_a p) \<ge> 0 \<and> tk_rtt (pn_b p) \<ge> 0 then tk_rtt (pn_a p) + tk_rtt (pn_b p) else -1)"

definition offer_floor :: "Ruleset \<Rightarrow> Pending \<Rightarrow> DelayFloor" where
  "offer_floor r p = delay_floor (rs_match_caps r) (tk_rtt (pn_a p)) (tk_rtt (pn_b p)) (rs_frame_ms r)"

definition relay_role :: "Pending \<Rightarrow> Ticket \<Rightarrow> string" where
  "relay_role p me =
     (case relay_host_is_a p of
        Some a_hosts \<Rightarrow> if a_hosts = (tk_player me = tk_player (pn_a p)) then ''host'' else ''guest''
      | None \<Rightarrow> ''guest'')"

definition offer_json :: "ServerEnv \<Rightarrow> Pending \<Rightarrow> Ticket \<Rightarrow> Ticket \<Rightarrow> json" where
  "offer_json e p me them =
     (let rs = resolve (s_rulesets e) (mk_game_name (pn_key p)) (mk_ruleset_id (pn_key p)); k = pn_key p
      in JObj ([(''op'', JStr ''automatch_found''), (''ok'', JBool True), (''match_id'', JStr (pn_match_id p)),
           (''game_name'', JStr (mk_game_name k)), (''game_version'', JStr (mk_game_version k)), (''ruleset_id'', JStr (mk_ruleset_id k)),
           (''ruleset_label'', JStr (case rs of Some r \<Rightarrow> rs_label r | None \<Rightarrow> [])),
           (''opponent'', JObj [(''handle'', JStr (tk_handle them)), (''discord_username'', JStr (tk_username them)),
              (''country'', JStr (tk_country them))]),
           (''est_rtt_ms'', JInt (est_rtt p)), (''accept_secs'', jnat (automatch_accept_secs (cfg e))),
           (''relay_role'', JStr (relay_role p me))] @
         (case rs of None \<Rightarrow> [] | Some r \<Rightarrow>
            let f = offer_floor r p
            in [(''input_delay'', jnat (input_delay f)), (''input_prediction'', jnat (input_prediction f)),
                (''frames_needed'', jnat (needed f)), (''match_caps'', caps_with_floor (rs_match_caps r) f)])))"

definition offer_pair :: "ServerEnv \<Rightarrow> Pending \<Rightarrow> Server \<Rightarrow> Server" where
  "offer_pair e p s =
     (let s1 = s\<lparr> sv_history := record_pairing (accounts e) (unix e) (pn_match_id p) (pn_key p) (tk_account (pn_a p))
                    (tk_account (pn_b p)) (est_rtt p) (sv_history s) \<rparr>
      in send (tk_player (pn_b p)) (offer_json e p (pn_b p) (pn_a p))
           (send (tk_player (pn_a p)) (offer_json e p (pn_a p) (pn_b p)) s1))"

definition run_pairing :: "ServerEnv \<Rightarrow> Server \<Rightarrow> Server" where
  "run_pairing e s =
     (case pair (now e) (automatch_rematch_cooldown_secs (cfg e)) (s_mint e) (sv_queue s) of
        (q, offers) \<Rightarrow> foldl (\<lambda>s p. offer_pair e p s) (s\<lparr> sv_queue := q \<rparr>) offers)"

definition requeue_json :: "string \<Rightarrow> bool \<Rightarrow> json" where
  "requeue_json reason queued = JObj [(''op'', JStr ''automatch_requeue''), (''ok'', JBool True), (''reason'', JStr reason), (''queued'', JBool queued)]"

definition requeue :: "ServerEnv \<Rightarrow> Ticket \<Rightarrow> string \<Rightarrow> Server \<Rightarrow> Server" where
  "requeue e t reason s =
     (if here s (tk_player t)
      then send (tk_player t) (requeue_json reason True) (s\<lparr> sv_queue := requeue_front (now e) t (sv_queue s) \<rparr>)
      else s)"

definition strike :: "ServerEnv \<Rightarrow> Ticket \<Rightarrow> string \<Rightarrow> Pending \<Rightarrow> Server \<Rightarrow> Server" where
  "strike e t kind p s =
     s\<lparr> sv_history := record_strike (accounts e) (unix e) (tk_account t) kind (mk_game_name (pn_key p)) (sv_history s) \<rparr>"

definition cooldown :: "ServerEnv \<Rightarrow> string \<Rightarrow> Server \<Rightarrow> nat" where
  "cooldown e acct s = cooldown_secs (unix e) acct (automatch_dodge_cooldowns (cfg e)) (sv_history s)"

definition settle_declined :: "ServerEnv \<Rightarrow> Pending \<Rightarrow> string \<Rightarrow> string \<Rightarrow> Server \<Rightarrow> Server" where
  "settle_declined e p loser_player kind s =
     (let (loser, other) = (if tk_player (pn_a p) = loser_player then (pn_a p, pn_b p) else (pn_b p, pn_a p));
          s1 = strike e loser kind p s;
          s2 = send (tk_player loser) (JObj [(''op'', JStr ''automatch_cancelled''), (''ok'', JBool True), (''reason'', JStr ''declined''),
                 (''cooldown_secs'', jnat (cooldown e (tk_account loser) s1))]) s1
      in requeue e other (if kind = ''decline'' then ''peer_declined'' else ''peer_timeout'') s2)"

subsection \<open>Forming and starting a match\<close>

definition match_caps_of :: "Ruleset \<Rightarrow> Pending \<Rightarrow> json" where
  "match_caps_of r p =
     (let c = jset ''relay'' (JStr ''host'') (caps_with_floor (rs_match_caps r) (offer_floor r p))
      in if is_ice p then jset ''relay_via'' (JStr ''ice'') c else c)"

definition match_slot :: "Hub \<Rightarrow> Ticket \<Rightarrow> Slot" where
  "match_slot g t = (new_slot (tk_player t) (tk_handle t) (client_country (tk_player t) g))\<lparr> sl_ready := True \<rparr>"

definition match_lobby :: "ServerEnv \<Rightarrow> Ruleset \<Rightarrow> Pending \<Rightarrow> Ticket \<Rightarrow> Hub \<Rightarrow> Lobby" where
  "match_lobby e r p relay g =
     \<lparr> lb_id = e_uuid (s_hub e) 0, lb_name = rs_label r, lb_game = mk_game_name (pn_key p), lb_version = mk_game_version (pn_key p),
       lb_disc_fp = mk_disc_fp (pn_key p), lb_host = [], lb_host_bind = tk_host_bind (pn_a p),
       lb_host_endpoint = (if is_ice p then [] else unwrap_or (tk_relay_endpoint relay) []), lb_lan_endpoints = [],
       lb_guest_endpoint = own_endpoint (tk_guest_bind (pn_b p))
         (case client g (tk_player (pn_b p)) of Some c \<Rightarrow> cl_peer_ip c | None \<Rightarrow> []),
       lb_password_hash = None, lb_password_salt = None, lb_max_slots = rs_max_slots r, lb_session_id = h_next_session g,
       lb_slots = (replicate (rs_max_slots r) None)[0 := Some (match_slot g (pn_a p)), 1 := Some (match_slot g (pn_b p))],
       lb_allow_spectators = False, lb_spectators = [], lb_match_caps = Some (match_caps_of r p),
       lb_relay_host = tk_player relay, lb_started = False, lb_automatch = True \<rparr>"

definition seat_in_match :: "string \<Rightarrow> string \<Rightarrow> Hub \<Rightarrow> Hub" where
  "seat_in_match lid p = upd_client p (\<lambda>c. c\<lparr> cl_lobby := Some lid, cl_pending_mod := None \<rparr>)"

definition match_joined_json :: "Lobby \<Rightarrow> nat \<Rightarrow> bool \<Rightarrow> json" where
  "match_joined_json l i a_hosts = JObj
     ([(''op'', JStr ''joined''), (''ok'', JBool True), (''lobby_id'', JStr (lb_id l)), (''session_id'', jnat (lb_session_id l)),
       (''local_slot'', jnat i), (''spectator'', JBool False), (''spectator_slot_base'', jnat SPECTATOR_SLOT_BASE),
       (''host_endpoint'', JStr (lb_host_endpoint l)), (''guest_endpoint'', JStr (lb_guest_endpoint l)),
       (''automatch'', JBool True), (''relay_host_slot'', jnat (if a_hosts then 0 else 1))] @
      jfield ''match_caps'' (lb_match_caps l))"

text \<open>\<^verbatim>\<open>form_match\<close> up to the spawned task.  When a side has dropped, the source takes the side
  that is still there for the one that is gone.\<close>

definition form_match :: "ServerEnv \<Rightarrow> Pending \<Rightarrow> Server \<Rightarrow> Server" where
  "form_match e p s =
     (let s0 = s\<lparr> sv_queue := note_pairing (now e) (tk_account (pn_a p)) (tk_account (pn_b p)) (sv_queue s) \<rparr>;
          a = tk_player (pn_a p); b = tk_player (pn_b p)
      in case resolve (s_rulesets e) (mk_game_name (pn_key p)) (mk_ruleset_id (pn_key p)) of
           None \<Rightarrow> s0
         | Some r \<Rightarrow>
             (case relay_host_is_a p of
                None \<Rightarrow> s0
              | Some a_hosts \<Rightarrow>
                  if length (h_lobbies (sv_hub s0)) \<ge> MAX_LOBBIES
                  then send b (requeue_json ''lobby_limit'' False) (send a (requeue_json ''lobby_limit'' False) s0)
                  else if \<not> here s0 a \<or> \<not> here s0 b
                  then let gone = (if here s0 a then a else b); survivor = (if gone = a then pn_b p else pn_a p)
                       in requeue e survivor ''peer_left'' s0
                  else let g = sv_hub s0;
                           l = match_lobby e r p (if a_hosts then pn_a p else pn_b p) g;
                           g1 = seat_in_match (lb_id l) b (seat_in_match (lb_id l) a
                                  (g\<lparr> h_next_session := saturating_inc (h_next_session g),
                                      h_lobbies := AList.update (lb_id l) l (h_lobbies g) \<rparr>));
                           g2 = send_to b (match_joined_json l 1 a_hosts) (send_to a (match_joined_json l 0 a_hosts) g1)
                       in s0\<lparr> sv_hub := emit_lobby_update (s_hub e) (lb_id l) g2 \<rparr>))"

text \<open>One round of the task that starts a formed match: \<open>late\<close> says that the window for path
  proofs has closed.  \<open>Retry\<close> is the sleep of one second before the next round.\<close>

datatype launch_result = Retry | Launched Server | Failed_start string

definition try_launch :: "ServerEnv \<Rightarrow> string \<Rightarrow> string \<Rightarrow> bool \<Rightarrow> Server \<Rightarrow> launch_result" where
  "try_launch e lid mid late s =
     (let launched = (\<lambda>g. Launched (s\<lparr> sv_hub := g, sv_history := mark_launched (unix e) mid (sv_history s) \<rparr>))
      in case start_lobby (s_hub e) lid None None False (sv_hub s) of
           Inr g \<Rightarrow> launched g
         | Inl c \<Rightarrow>
             if c \<noteq> ''relay_unavailable'' then Failed_start c
             else if \<not> late then Retry
             else (case start_lobby (s_hub e) lid None None True (sv_hub s) of
                     Inr g \<Rightarrow> launched g | Inl c' \<Rightarrow> Failed_start c'))"

definition launch_failed :: "ServerEnv \<Rightarrow> string \<Rightarrow> Ticket list \<Rightarrow> string \<Rightarrow> Server \<Rightarrow> Server" where
  "launch_failed e lid ts code s =
     (if code = ''relay_unavailable''
      then foldl (\<lambda>s t. requeue e t ''host_unreachable'' s) (on_hub (destroy_lobby (s_hub e) lid) s) ts
      else on_hub (\<lambda>g. destroy_lobby (s_hub e) lid
             (send_all (case lobby g lid of Some l \<Rightarrow> member_ids l | None \<Rightarrow> []) (err_json code) g)) s)"

definition launch_task :: "ServerEnv \<Rightarrow> string \<Rightarrow> Pending \<Rightarrow> bool \<Rightarrow> Server \<Rightarrow> Server" where
  "launch_task e lid p late s =
     (case try_launch e lid (pn_match_id p) late s of
        Retry \<Rightarrow> s | Launched s' \<Rightarrow> s' | Failed_start c \<Rightarrow> launch_failed e lid [pn_a p, pn_b p] c s)"

subsection \<open>The handlers\<close>

definition handle_automatch_rulesets :: "ServerEnv \<Rightarrow> string \<Rightarrow> InMsg \<Rightarrow> Server \<Rightarrow> Server" where
  "handle_automatch_rulesets e p msg s =
     send p (rulesets_json (s_rulesets e) (unwrap_or (nonempty (m_game msg)) (client_game p (sv_hub s)))) s"

definition ticket_endpoint :: "ClientMeta \<Rightarrow> InMsg \<Rightarrow> unit + string option" where
  "ticket_endpoint c msg =
     (case nonempty (map_option trim (m_host_endpoint msg)) of
        None \<Rightarrow> Inr None
      | Some raw \<Rightarrow>
          (case parse_advertise_endpoint raw of
             Some ep \<Rightarrow> if endpoint_is_clients_own ep (cl_peer_ip c) then Inr (Some ep) else Inl ()
           | None \<Rightarrow> Inl ()))"

definition new_ticket :: "ServerEnv \<Rightarrow> string \<Rightarrow> ClientMeta \<Rightarrow> Player \<Rightarrow> MatchKey list \<Rightarrow> string option \<Rightarrow> InMsg \<Rightarrow> Ticket" where
  "new_ticket e p c pl ks ep msg =
     \<lparr> tk_player = p, tk_account = uuid_text (pl_id pl), tk_handle = pl_handle pl, tk_username = pl_discord_username pl,
       tk_country = cl_country c, tk_keys = ks, tk_host_bind = unwrap_or (m_host_bind msg) ''0.0.0.0:7777'',
       tk_guest_bind = unwrap_or (m_guest_bind msg) ''0.0.0.0:7778'', tk_relay_endpoint = ep,
       tk_ice_relay = unwrap_or (m_ice_relay msg) False, tk_queued_at = now e,
       tk_rtt = (case m_rtt msg of Some v \<Rightarrow> sanitize_rtt v | None \<Rightarrow> cl_probe_rtt c), tk_blocks = cl_blocks c \<rparr>"

definition queued_json :: "MatchKey list \<Rightarrow> string \<Rightarrow> string option \<Rightarrow> bool \<Rightarrow> QueueInner \<Rightarrow> json" where
  "queued_json ks acct ep ice q = JObj
     [(''op'', JStr ''automatch_queued''), (''ok'', JBool True),
      (''titles'', JArr (map (\<lambda>k. JObj [(''game_name'', JStr (mk_game_name k)), (''ruleset_id'', JStr (mk_ruleset_id k)),
         (''pool'', jnat (pool_for k acct q))]) ks)),
      (''relay_endpoint'', jopt JStr ep), (''ice_relay'', JBool ice)]"

text \<open>The gates of \<^verbatim>\<open>handle_automatch_queue\<close> in order: a refusal, or the ticket to queue.\<close>

datatype refusal = Code string | NotApproved string string | Cooling nat

definition queue_gate :: "ServerEnv \<Rightarrow> string \<Rightarrow> ClientMeta \<Rightarrow> InMsg \<Rightarrow> Server \<Rightarrow> refusal + Ticket" where
  "queue_gate e p c msg s =
     (case cl_account c of
        None \<Rightarrow> Inl (Code ''need_account'')
      | Some pl \<Rightarrow>
          let acct = uuid_text (pl_id pl); titles = asked_titles c msg; exempt = unwrap_or (m_mod_exempt msg) []
          in if cl_lobby c \<noteq> None then Inl (Code ''already_in_lobby'')
             else if is_queued_account acct (sv_queue s) then Inl (Code ''already_queued'')
             else if unwrap_or (m_mods_enabled msg) False then Inl (Code ''mods_not_pooled'')
             else (case build_keys (s_rulesets e) titles of
               Inl code \<Rightarrow> Inl (Code code)
             | Inr ks \<Rightarrow>
                 (case (if exempt = [] then None else exemption_gate (s_rulesets e) exempt titles) of
                    Some (rid, bad) \<Rightarrow> Inl (NotApproved rid bad)
                  | None \<Rightarrow>
                      if cooldown e acct s > 0 then Inl (Cooling (cooldown e acct s))
                      else if waiting (sv_queue s) \<ge> automatch_queue_max (cfg e) then Inl (Code ''queue_full'')
                      else (case ticket_endpoint c msg of
                              Inl _ \<Rightarrow> Inl (Code ''bad_host_endpoint'')
                            | Inr ep \<Rightarrow> Inr (new_ticket e p c pl ks ep msg)))))"

definition refusal_json :: "refusal \<Rightarrow> json" where
  "refusal_json r =
     (case r of
        Code c \<Rightarrow> err_json c
      | NotApproved rid bad \<Rightarrow> JObj [(''op'', JStr ''error''), (''code'', JStr ''mod_not_approved''), (''ok'', JBool False),
           (''ruleset_id'', JStr rid), (''mod'', JStr bad)]
      | Cooling n \<Rightarrow> JObj [(''op'', JStr ''error''), (''code'', JStr ''cooldown''), (''ok'', JBool False), (''retry_secs'', jnat n)])"

definition handle_automatch_queue :: "ServerEnv \<Rightarrow> string \<Rightarrow> InMsg \<Rightarrow> Server \<Rightarrow> Server" where
  "handle_automatch_queue e p msg s =
     (if s_rulesets e = [] then deny p ''automatch_off'' s
      else case client (sv_hub s) p of
        None \<Rightarrow> s
      | Some c \<Rightarrow>
          (case queue_gate e p c msg s of
             Inl r \<Rightarrow> send p (refusal_json r) s
           | Inr t \<Rightarrow>
               let s1 = s\<lparr> sv_queue := push t (sv_queue s) \<rparr>
               in run_pairing e (send p (queued_json (tk_keys t) (tk_account t) (tk_relay_endpoint t) (tk_ice_relay t) (sv_queue s1)) s1)))"

definition handle_automatch_rtt :: "ServerEnv \<Rightarrow> string \<Rightarrow> InMsg \<Rightarrow> Server \<Rightarrow> Server" where
  "handle_automatch_rtt e p msg s =
     (let rtt = sanitize_rtt (unwrap_or (m_rtt msg) (-1));
          s1 = on_hub (upd_client p (\<lambda>c. c\<lparr> cl_probe_rtt := rtt \<rparr>)) s
      in send p (JObj [(''op'', JStr ''automatch_rtt_ok''), (''ok'', JBool True), (''rtt_ms'', JInt rtt)])
           (s1\<lparr> sv_queue := fst (set_rtt p rtt (sv_queue s1)) \<rparr>))"

definition drop_player :: "ServerEnv \<Rightarrow> string \<Rightarrow> Server \<Rightarrow> Server" where
  "drop_player e p s =
     (case remove_player p (sv_queue s) of
        (q, None) \<Rightarrow> s\<lparr> sv_queue := q \<rparr>
      | (q, Some offer) \<Rightarrow> settle_declined e offer p ''timeout'' (s\<lparr> sv_queue := q \<rparr>))"

definition handle_automatch_cancel :: "ServerEnv \<Rightarrow> string \<Rightarrow> Server \<Rightarrow> Server" where
  "handle_automatch_cancel e p s =
     send p (JObj [(''op'', JStr ''automatch_cancelled''), (''ok'', JBool True), (''reason'', JStr ''cancelled'')]) (drop_player e p s)"

definition handle_automatch_accept :: "ServerEnv \<Rightarrow> string \<Rightarrow> InMsg \<Rightarrow> Server \<Rightarrow> Server" where
  "handle_automatch_accept e p msg s =
     (let yes = unwrap_or (m_accept msg) False;
          s1 = send p (JObj [(''op'', JStr ''automatch_accept_ok''), (''ok'', JBool True), (''accept'', JBool yes)]) s
      in case answer_for p yes (m_match msg) (sv_queue s1) of
           (q, None) \<Rightarrow> s1\<lparr> sv_queue := q \<rparr>
         | (q, Some offer) \<Rightarrow>
             let s2 = s1\<lparr> sv_queue := q \<rparr>
             in if both_yes offer then form_match e offer s2
                else settle_declined e offer (tk_player (if a_accept offer = Some False then pn_a offer else pn_b offer)) ''decline'' s2)"

definition settle_expired :: "ServerEnv \<Rightarrow> Pending \<Rightarrow> Server \<Rightarrow> Server" where
  "settle_expired e p s =
     (let a_bad = a_accept p \<noteq> Some True; b_bad = b_accept p \<noteq> Some True;
          note = JObj [(''op'', JStr ''automatch_cancelled''), (''ok'', JBool True), (''reason'', JStr ''timeout'')]
      in if a_bad \<and> b_bad
         then send (tk_player (pn_b p)) note (strike e (pn_b p) ''timeout'' p
                (send (tk_player (pn_a p)) note (strike e (pn_a p) ''timeout'' p s)))
         else settle_declined e p (tk_player (if a_bad then pn_a p else pn_b p)) ''timeout'' s)"

definition status_json :: "nat \<Rightarrow> int \<Rightarrow> (MatchKey \<times> nat) list \<Rightarrow> json" where
  "status_json w rtt pools = JObj
     [(''op'', JStr ''automatch_status''), (''ok'', JBool True), (''queued_secs'', jnat w), (''est_rtt_ms'', JInt rtt),
      (''titles'', JArr (map (\<lambda>(k, n). JObj [(''game_name'', JStr (mk_game_name k)), (''ruleset_id'', JStr (mk_ruleset_id k)),
         (''pool'', jnat n)]) pools))]"

definition automatch_tick :: "ServerEnv \<Rightarrow> Server \<Rightarrow> Server" where
  "automatch_tick e s =
     (case take_expired (now e) (automatch_accept_secs (cfg e)) (sv_queue s) of
        (q, dead) \<Rightarrow>
          let s1 = foldl (\<lambda>s p. settle_expired e p s) (s\<lparr> sv_queue := q \<rparr>) dead;
              s2 = run_pairing e s1
          in foldl (\<lambda>s (p, w, rtt, pools). send p (status_json w rtt pools) s) s2 (status_rows (now e) (sv_queue s2)))"

subsection \<open>Reports\<close>

definition report_ids :: "InMsg \<Rightarrow> string list" where
  "report_ids msg =
     (let ids = unwrap_or (m_mids msg) [];
          ids = (if ids = [] then (case m_mid msg of Some i \<Rightarrow> [i] | None \<Rightarrow> []) else ids)
      in take 16 (filter (\<lambda>i. i \<noteq> []) ids))"

definition or_else :: "string \<Rightarrow> string option \<Rightarrow> string" where
  "or_else known said = (if known = [] then unwrap_or said [] else known)"

definition build_report :: "string \<Rightarrow> ChatLine \<Rightarrow> string \<Rightarrow> (string \<times> string) list \<Rightarrow> InMsg \<Rightarrow> ChatReport" where
  "build_report reporter line context others msg =
     \<lparr> cr_reporter = reporter, cr_accused = ch_from_account line, cr_message_id = ch_id line, cr_message_text = ch_text line,
       cr_accused_name = ch_from_name line, cr_context = context,
       cr_transcript = join_with [char_of (10::nat)] (map (\<lambda>(who, what). who @ '': '' @ what) others),
       cr_message_count = int (length others), cr_scope = or_else (ch_scope line) (m_report_scope msg),
       cr_lobby_id = or_else (ch_lobby line) (m_report_lobby msg), cr_game_name = or_else (ch_game line) (m_report_game msg),
       cr_game_version = unwrap_or (m_version msg) [], cr_platform = unwrap_or (m_platform msg) [],
       cr_server = unwrap_or (m_server msg) [], cr_reason = unwrap_or (m_reason msg) [], cr_note = unwrap_or (m_note msg) [] \<rparr>"

definition report_gate :: "string \<Rightarrow> InMsg \<Rightarrow> Hub \<Rightarrow> string + ChatReport" where
  "report_gate p msg g =
     (case report_ids msg of
        [] \<Rightarrow> Inl ''bad_report''
      | mid # _ \<Rightarrow>
          let others = List.map_filter (\<lambda>i. map_option (\<lambda>(l, _). (ch_from_name l, ch_text l)) (chat_with_context i g)) (report_ids msg)
          in (case Option.bind (client g p) account_text of
                None \<Rightarrow> Inl ''need_account''
              | Some reporter \<Rightarrow>
                  (case chat_with_context mid g of
                     None \<Rightarrow> Inl ''message_expired''
                   | Some (line, context) \<Rightarrow>
                       if ch_from_account line = [] \<or> ch_from_account line = reporter then Inl ''cannot_report''
                       else Inr (build_report reporter line context others msg))))"

definition handle_chat_report :: "ServerEnv \<Rightarrow> string \<Rightarrow> InMsg \<Rightarrow> Server \<Rightarrow> Server" where
  "handle_chat_report e p msg s =
     (case report_gate p msg (sv_hub s) of
        Inl c \<Rightarrow> deny p c s
      | Inr r \<Rightarrow>
          (case record_report (accounts e) (unix e) (s_dump e) r (sv_reports s) of
             (t, out) \<Rightarrow>
               let s1 = s\<lparr> sv_reports := t \<rparr>
               in case out of
                    RateLimited \<Rightarrow> deny p ''rate_limited'' s1
                  | Failed \<Rightarrow> deny p ''report_failed'' s1
                  | _ \<Rightarrow> send p (JObj [(''op'', JStr ''chat_report_ok''), (''ok'', JBool True),
                           (''mid'', JStr (case report_ids msg of [] \<Rightarrow> [] | i # _ \<Rightarrow> i))]) s1))"

definition desync_of :: "ClientMeta \<Rightarrow> InMsg \<Rightarrow> DesyncReport" where
  "desync_of c msg =
     \<lparr> ds_player = [], ds_lobby_id = unwrap_or (m_lobby msg) [], ds_game_name = cl_game c,
       ds_game_version = unwrap_or (m_version msg) [], ds_disc_fp = unwrap_or (m_disc_fp msg) [],
       ds_tick = unwrap_or (m_tick msg) 0, ds_partition = unwrap_or (m_partition msg) [],
       ds_digest_mine = unwrap_or (m_mine msg) [], ds_digest_theirs = unwrap_or (m_theirs msg) [], ds_role = unwrap_or (m_role msg) [],
       ds_mod_exempt = unwrap_or (m_mod_exempt_text msg) [], ds_created = 0 \<rparr>"

definition handle_desync_report :: "ServerEnv \<Rightarrow> string \<Rightarrow> InMsg \<Rightarrow> Server \<Rightarrow> Server" where
  "handle_desync_report e p msg s =
     (case client (sv_hub s) p of
        None \<Rightarrow> s
      | Some c \<Rightarrow>
          (case account_text c of
             None \<Rightarrow> s
           | Some acct \<Rightarrow> s\<lparr> sv_history := record_desync (accounts e) (unix e) acct (desync_of c msg) (sv_history s) \<rparr>))"

subsection \<open>Reports quote the server\<close>

definition same_place :: "ChatLine \<Rightarrow> ChatLine \<Rightarrow> bool" where
  "same_place a b \<longleftrightarrow> ch_scope a = ch_scope b \<and> ch_lobby a = ch_lobby b"

definition say_lines :: "ChatLine list \<Rightarrow> string" where
  "say_lines ls = join_with [char_of (10::nat)] (map (\<lambda>l. ch_from_name l @ '': '' @ ch_text l) ls)"

lemma chat_with_context_Some:
  assumes "chat_with_context i g = Some (line, ctxt)"
  shows "line \<in> set (h_chat_ring g) \<and> ch_id line = i \<and>
    (\<exists>before. ctxt = say_lines before \<and> length before \<le> 6 \<and> set before \<subseteq> {l \<in> set (h_chat_ring g). same_place l line})"
proof -
  obtain k where k: "position (\<lambda>l. ch_id l = i) (h_chat_ring g) = Some k"
    using assms by (auto simp: chat_with_context_def split: option.splits)
  note pos = position_Some [OF k]
  let ?b = "filter (\<lambda>l. same_place l line) (drop (k - CHAT_CONTEXT_LINES) (take k (h_chat_ring g)))"
  have line: "line = h_chat_ring g ! k" "ctxt = say_lines ?b"
    using assms k by (auto simp: chat_with_context_def say_lines_def same_place_def Let_def)
  have "length ?b \<le> length (drop (k - CHAT_CONTEXT_LINES) (take k (h_chat_ring g)))" by (rule length_filter_le)
  also have "\<dots> \<le> 6" using pos by (simp add: CHAT_CONTEXT_LINES_def)
  finally have "length ?b \<le> 6" .
  moreover have "set ?b \<subseteq> {l \<in> set (h_chat_ring g). same_place l line}"
    by (auto dest: in_set_dropD in_set_takeD)
  ultimately show ?thesis using line pos by (metis nth_mem)
qed

definition evidence :: "ChatReport \<Rightarrow> string \<times> string \<times> string \<times> string \<times> string \<times> string \<times> int" where
  "evidence r = (cr_accused r, cr_message_id r, cr_message_text r, cr_accused_name r, cr_context r, cr_transcript r, cr_message_count r)"

text \<open>
  C15: a chat report quotes what the server relayed.  An accepted report is about a line in the
  server's own ring that one of the reported ids names, said by another account than the
  reporter's signed-in one; its text and its at most six lines of context, all from the same
  place, come from that ring; and any other message naming the same ids yields the same evidence.
\<close>
theorem reports_quote_the_server:
  assumes "report_gate p msg g = Inr r"
  shows "(\<exists>line before.
      line \<in> set (h_chat_ring g) \<and> ch_id line \<in> set (report_ids msg) \<and>
      cr_message_text r = ch_text line \<and> cr_accused r = ch_from_account line \<and> cr_context r = say_lines before \<and>
      length before \<le> 6 \<and> set before \<subseteq> {l \<in> set (h_chat_ring g). same_place l line}) \<and>
    cr_accused r \<noteq> [] \<and> cr_accused r \<noteq> cr_reporter r \<and>
    Option.bind (client g p) account_text = Some (cr_reporter r) \<and>
    (\<forall>msg'. report_ids msg' = report_ids msg \<longrightarrow> (\<exists>r'. report_gate p msg' g = Inr r' \<and> evidence r' = evidence r))"
proof -
  obtain mid ms where ids: "report_ids msg = mid # ms" using assms by (auto simp: report_gate_def split: list.splits)
  obtain reporter where rep: "Option.bind (client g p) account_text = Some reporter"
    using assms ids by (auto simp: report_gate_def Let_def split: option.splits)
  obtain line ctxt where c: "chat_with_context mid g = Some (line, ctxt)"
    using assms ids rep by (auto simp: report_gate_def Let_def split: option.splits)
  let ?others = "List.map_filter (\<lambda>i. map_option (\<lambda>(l, _). (ch_from_name l, ch_text l)) (chat_with_context i g)) (mid # ms)"
  have r: "r = build_report reporter line ctxt ?others msg" "ch_from_account line \<noteq> []" "ch_from_account line \<noteq> reporter"
    using assms ids rep c by (auto simp: report_gate_def Let_def split: if_splits)
  have "report_gate p msg' g = Inr (build_report reporter line ctxt ?others msg')" if "report_ids msg' = report_ids msg" for msg'
    using that ids rep c r(2,3) by (simp add: report_gate_def Let_def)
  moreover have "evidence (build_report reporter line ctxt ?others msg') = evidence r" for msg'
    by (simp add: r(1) evidence_def build_report_def)
  moreover obtain before where "line \<in> set (h_chat_ring g)" "ch_id line = mid" "ctxt = say_lines before"
    "length before \<le> 6" "set before \<subseteq> {l \<in> set (h_chat_ring g). same_place l line}"
    using chat_with_context_Some [OF c] by blast
  ultimately show ?thesis using r rep ids by (simp add: build_report_def) blast
qed

definition demo_line :: ChatLine where
  "demo_line = \<lparr> ch_id = ''1'', ch_from_account = ''acct'', ch_from_name = ''Bob'', ch_text = ''x'', ch_scope = ''lobby'',
     ch_lobby = ''L1'', ch_game = [] \<rparr>"

definition demo_player :: Player where
  "demo_player = \<lparr> pl_id = 7, pl_discord_id = [], pl_discord_username = ''ann'', pl_handle = ''Ann'' \<rparr>"

definition demo_chat_hub :: Hub where
  "demo_chat_hub = demo_hub\<lparr> h_clients := [(''a'', demo_client\<lparr> cl_account := Some demo_player \<rparr>)], h_chat_ring := [demo_line] \<rparr>"

definition blank_msg :: "string \<Rightarrow> InMsg" where
  "blank_msg op = \<lparr>
    m_op = op, m_display_name = None, m_session = None, m_name = None, m_game = None, m_version = None, 
     m_disc_fp = None, m_password = None, m_max_slots = None, m_allow_spectators = None, m_host_bind = None, 
     m_host_endpoint = None, m_ice_relay = None, m_lan = None, m_guest_bind = None, m_lobby = None, 
     m_to = None, m_type = None, m_flag = None, m_text = None, m_ready = None, m_bios = None, m_mods = None, 
     m_memcard = None, m_caps = None, m_slot = None, m_from_slot = None, m_target_slot = None, m_accept = None, 
     m_asker = None, m_to_slot = None, m_path = None, m_error = None, m_titles = None, m_ruleset = None, 
     m_mods_enabled = None, m_mod_exempt = None, m_tick = None, m_partition = None, m_mine = None, 
     m_theirs = None, m_role = None, m_mod_exempt_text = None, m_mid = None, m_mids = None, m_accounts = None, 
     m_report_game = None, m_report_scope = None, m_report_lobby = None, m_server = None, m_platform = None, 
     m_reason = None, m_note = None, m_match = None, m_rtt = None \<rparr>"

theorem reports_quote_the_server_witness:
  "case report_gate ''a'' ((blank_msg ''chat_report'')\<lparr> m_mids := Some [''1''] \<rparr>) demo_chat_hub of
     Inl _ \<Rightarrow> False
   | Inr r \<Rightarrow> cr_accused r \<noteq> [] \<and> cr_accused r \<noteq> cr_reporter r \<and>
       Option.bind (client demo_chat_hub ''a'') account_text = Some (cr_reporter r)"
proof (cases "report_gate ''a'' ((blank_msg ''chat_report'')\<lparr> m_mids := Some [''1''] \<rparr>) demo_chat_hub")
  case (Inl c)
  have "hd (uuid_text (pl_id demo_player)) = CHR ''0''"
    by (simp add: demo_player_def uuid_text_def show_hex_def show_base.simps Let_def numeral_eq_Suc)
  then have "uuid_text (pl_id demo_player) \<noteq> ''acct''" by auto
  then show ?thesis using Inl
    by (simp add: report_gate_def report_ids_def blank_msg_def demo_chat_hub_def client_def account_text_def
        chat_with_context_def demo_line_def Let_def)
next
  case (Inr r)
  from reports_quote_the_server [OF Inr] show ?thesis using Inr by simp
qed

subsection \<open>Where automatch fails its players\<close>

text \<open>
  When one side of an accepted offer has dropped, nobody is put back.  If either player is
  gone when a match is formed (and there is room for one), the queue keeps exactly its tickets
  and nothing is sent: also the player who is still there loses the ticket without a word.
\<close>
theorem the_survivor_is_dropped:
  assumes "\<not> here s (tk_player (pn_a p)) \<or> \<not> here s (tk_player (pn_b p))" "length (h_lobbies (sv_hub s)) < MAX_LOBBIES"
  shows "tickets (sv_queue (form_match e p s)) = tickets (sv_queue s) \<and>
    pending (sv_queue (form_match e p s)) = pending (sv_queue s) \<and> sv_hub (form_match e p s) = sv_hub s"
proof -
  define s0 where "s0 = s\<lparr> sv_queue := note_pairing (now e) (tk_account (pn_a p)) (tk_account (pn_b p)) (sv_queue s) \<rparr>"
  have s0: "sv_hub s0 = sv_hub s" "here s0 = here s" "tickets (sv_queue s0) = tickets (sv_queue s)"
    "pending (sv_queue s0) = pending (sv_queue s)"
    by (simp_all add: s0_def here_def note_pairing_def fun_eq_iff)
  have "form_match e p s = s0"
    using assms unfolding form_match_def s0_def [symmetric] Let_def
    by (auto simp: s0 requeue_def split: option.split)
  then show ?thesis using s0 by simp
qed

definition demo_server_env :: ServerEnv where
  "demo_server_env = \<lparr> s_hub = demo_hub_env, s_rulesets = [], s_mint = (\<lambda>_. ''M''), s_dump = [] \<rparr>"

definition empty_queue :: QueueInner where
  "empty_queue = \<lparr> tickets = [], pending = [], recent = [] \<rparr>"

definition demo_server :: "Hub \<Rightarrow> Server" where
  "demo_server g = \<lparr> sv_hub = g, sv_queue = empty_queue, sv_history = \<lparr> strikes = [], pairings = [], desyncs = [] \<rparr>, sv_reports = [] \<rparr>"

theorem the_survivor_is_dropped_witness:
  "here (demo_server demo_hub) (tk_player (pn_a (demo_offer\<lparr> pn_a := demo_ticket ''a'' [] \<rparr>))) \<and>
    tickets (sv_queue (form_match demo_server_env (demo_offer\<lparr> pn_a := demo_ticket ''a'' [] \<rparr>) (demo_server demo_hub))) = []"
proof -
  let ?p = "demo_offer\<lparr> pn_a := demo_ticket ''a'' [] \<rparr>" and ?s = "demo_server demo_hub"
  have "here ?s (tk_player (pn_a ?p)) \<and> \<not> here ?s (tk_player (pn_b ?p))" "length (h_lobbies (sv_hub ?s)) < MAX_LOBBIES"
    by (simp_all add: here_def demo_server_def client_def demo_hub_def empty_hub_def demo_ticket_def demo_offer_def MAX_LOBBIES_def)
  then show ?thesis using the_survivor_is_dropped [of ?s ?p demo_server_env]
    by (simp add: demo_server_def empty_queue_def)
qed

definition strict_rulesets :: Rulesets where
  "strict_rulesets = [(''Tetris'', [\<lparr> rs_id = ''std'', rs_label = ''Std'', rs_game_name = ''Tetris'', rs_game_version = [],
     rs_max_slots = 2, rs_match_caps = JObj [], rs_caps_summary = [], rs_frame_ms = 16 \<rparr>])]"

text \<open>
  A blank slips past the check of declared mods.  The keys of a ticket are built from trimmed
  names, the exemption check resolves them untrimmed and skips what it cannot resolve: a name
  that is the same after trimming, but under which no ruleset is listed, gives the same keys
  (so the same queue) and passes the check with any exemption at all.
\<close>
theorem blanks_skip_the_exemption_check:
  assumes "trim g' = trim (it_game t)" "for_game rs g' = []"
  shows "build_keys rs [t\<lparr> it_game := g' \<rparr>] = build_keys rs [t] \<and>
    exemption_gate rs exempt [t\<lparr> it_game := g' \<rparr>] = None"
proof
  have "title_key rs (t\<lparr> it_game := g' \<rparr>) = title_key rs t" using assms(1)
    by (simp add: title_key_def Let_def split: option.split)
  then show "build_keys rs [t\<lparr> it_game := g' \<rparr>] = build_keys rs [t]" by (simp add: build_keys_def)
  show "exemption_gate rs exempt [t\<lparr> it_game := g' \<rparr>] = None"
    using assms(2) by (simp add: resolve_def List.find_None_iff)
qed

definition plain_title :: InTitle where
  "plain_title = \<lparr> it_game = ''Tetris'', it_version = ''1'', it_disc = replicate 64 (CHR ''a''), it_ruleset = [], it_max_slots = None \<rparr>"

theorem blanks_skip_the_exemption_check_witness:
  "exemption_gate strict_rulesets [''cheat''] [plain_title] = Some (''std'', ''cheat'') \<and>
   exemption_gate strict_rulesets [''cheat''] [plain_title\<lparr> it_game := '' Tetris'' \<rparr>] = None"
proof
  have t: "trim '' Tetris'' = ''Tetris''" "trim ''Tetris'' = ''Tetris''" "trim ''cheat'' = ''cheat''" "trim [] = []"
    by (simp_all add: trim_def trim_chars_def chars_def is_whitespace_def of_chars_def utf8_bytes_def char_of_def bit_0)
  show "exemption_gate strict_rulesets [''cheat''] [plain_title] = Some (''std'', ''cheat'')"
    by (simp add: strict_rulesets_def plain_title_def resolve_def for_game_def unapproved_exemption_def jget_def
        split_pin_def field_def t Let_def)
  have "for_game strict_rulesets '' Tetris'' = []" by (simp add: strict_rulesets_def for_game_def)
  then show "exemption_gate strict_rulesets [''cheat''] [plain_title\<lparr> it_game := '' Tetris'' \<rparr>] = None"
    using blanks_skip_the_exemption_check [of "'' Tetris''" plain_title strict_rulesets "[''cheat'']"] t
    by (simp add: plain_title_def)
qed

end
