(* ===== verification/Server_Step.thy ===== *)
theory Server_Step
  imports Automatch_Hub
begin

text \<open>
  The server as a transition system: the dispatch of \<^verbatim>\<open>handle_text\<close>, the life of a
  connection (\<^verbatim>\<open>handle_socket\<close>), the 1 Hz driver and the start task, and what holds in
  every state they reach.
\<close>

subsection \<open>Automatch keeps the rooms consistent\<close>

definition server_ok :: "Server \<Rightarrow> bool" where
  "server_ok s \<longleftrightarrow> hub_ok (sv_hub s)"

lemma on_hub_hub [simp]: "sv_hub (on_hub f s) = f (sv_hub s)"
  by (simp add: on_hub_def)

lemma server_okI: "hub_ok (sv_hub s') \<Longrightarrow> server_ok s'"
  by (simp add: server_ok_def)

lemma server_ok_sends [simp]:
  "server_ok (send p m s) = server_ok s" "server_ok (deny p c s) = server_ok s"
  "server_ok (s\<lparr> sv_queue := q \<rparr>) = server_ok s" "server_ok (s\<lparr> sv_history := h \<rparr>) = server_ok s"
  "server_ok (s\<lparr> sv_reports := t \<rparr>) = server_ok s" "server_ok (requeue e tk r s) = server_ok s"
  "server_ok (strike e tk k pn s) = server_ok s"
  by (simp_all add: server_ok_def send_def deny_def requeue_def strike_def)

lemma server_ok_foldl: "(\<And>s x. server_ok (f s x) = server_ok s) \<Longrightarrow> server_ok (foldl f s xs) = server_ok s"
  by (induction xs arbitrary: s) auto

lemma server_ok_settle [simp]: "server_ok (settle_declined e p l k s) = server_ok s"
  by (simp add: settle_declined_def Let_def split: prod.split)

lemma server_ok_offer [simp]: "server_ok (offer_pair e p s) = server_ok s"
  by (simp add: offer_pair_def Let_def)

lemma server_ok_pairing [simp]: "server_ok (run_pairing e s) = server_ok s"
  by (simp add: run_pairing_def server_ok_foldl split: prod.split)

lemma server_ok_expired [simp]: "server_ok (settle_expired e p s) = server_ok s"
  by (simp add: settle_expired_def Let_def)

lemma server_ok_tick [simp]: "server_ok (automatch_tick e s) = server_ok s"
  by (simp add: automatch_tick_def Let_def server_ok_foldl split: prod.split)

lemma server_ok_drop [simp]: "server_ok (drop_player e p s) = server_ok s"
  by (simp add: drop_player_def split: prod.split option.split)

lemma server_ok_automatch [simp]:
  "server_ok (handle_automatch_rulesets e p msg s) = server_ok s" "server_ok (handle_automatch_queue e p msg s) = server_ok s"
  "server_ok (handle_automatch_cancel e p s) = server_ok s" "server_ok (handle_chat_report e p msg s) = server_ok s"
  "server_ok (handle_desync_report e p msg s) = server_ok s"
  by (simp_all add: handle_automatch_rulesets_def handle_automatch_queue_def handle_automatch_cancel_def
      handle_chat_report_def handle_desync_report_def Let_def split: option.split sum.split prod.split Submitted.split)

lemma server_ok_rtt: "server_ok s \<Longrightarrow> server_ok (handle_automatch_rtt e p msg s)"
  by (simp add: handle_automatch_rtt_def Let_def) (simp add: server_ok_def hub_ok_upd_client)

lemma match_lobby_ok:
  assumes "rs_max_slots r = 2" "tk_player (pn_a p) \<noteq> tk_player (pn_b p)" "tk_handle (pn_a p) \<noteq> tk_handle (pn_b p)"
  shows "lobby_ok (match_lobby e r p t g)"
    "set (member_ids (match_lobby e r p t g)) = {tk_player (pn_a p), tk_player (pn_b p)}"
proof -
  have "replicate 2 None = [None, None :: Slot option]" by (simp add: numeral_2_eq_2)
  then have "everyone (match_lobby e r p t g) = [match_slot g (pn_a p), match_slot g (pn_b p)]"
    by (simp add: match_lobby_def everyone_def assms(1))
  then show "lobby_ok (match_lobby e r p t g)"
    "set (member_ids (match_lobby e r p t g)) = {tk_player (pn_a p), tk_player (pn_b p)}"
    using assms by (auto simp: lobby_ok_def member_ids_def match_slot_def new_slot_def)
      (auto simp: match_lobby_def)
qed

text \<open>What forming a match relies on: both sides are in no room and have different connections
  and names, the room's id is fresh, and the ruleset is one the loader admits.  The code checks
  none of the first three.\<close>

definition match_expected :: "ServerEnv \<Rightarrow> Pending \<Rightarrow> Server \<Rightarrow> bool" where
  "match_expected e p s \<longleftrightarrow>
     home (sv_hub s) (tk_player (pn_a p)) = None \<and> home (sv_hub s) (tk_player (pn_b p)) = None \<and>
     tk_player (pn_a p) \<noteq> tk_player (pn_b p) \<and> tk_handle (pn_a p) \<noteq> tk_handle (pn_b p) \<and>
     lobby (sv_hub s) (e_uuid (s_hub e) 0) = None \<and>
     (\<forall>r. resolve (s_rulesets e) (mk_game_name (pn_key p)) (mk_ruleset_id (pn_key p)) = Some r \<longrightarrow> rs_max_slots r = 2)"

lemma home_seat_in_match:
  "client g p \<noteq> None \<Longrightarrow> home (seat_in_match lid p g) q = (if q = p then Some lid else home g q)"
  by (auto simp: seat_in_match_def home_upd_client)

lemma client_seat_in_match [simp]: "client (seat_in_match lid p g) q = None \<longleftrightarrow> client g q = None"
  by (auto simp: seat_in_match_def client_upd)

lemma seat_pair_ok:
  assumes ok: "hub_ok g" and lok: "lobby_ok l" "set (member_ids l) = {a, b}" and fresh: "lobby g (lb_id l) = None"
    and cl: "client g a \<noteq> None" "client g b \<noteq> None" and free: "home g a = None" "home g b = None"
    and room: "length (h_lobbies g) < MAX_LOBBIES"
  shows "hub_ok (seat_in_match (lb_id l) b (seat_in_match (lb_id l) a
    (g\<lparr> h_next_session := n, h_lobbies := AList.update (lb_id l) l (h_lobbies g) \<rparr>)))"
proof -
  define g0 where "g0 = g\<lparr> h_next_session := n, h_lobbies := AList.update (lb_id l) l (h_lobbies g) \<rparr>"
  define g1 where "g1 = seat_in_match (lb_id l) b (seat_in_match (lb_id l) a g0)"
  have c0: "client g0 q = client g q" "home g0 q = home g q" for q by (simp_all add: g0_def client_def home_def)
  have h1: "home g1 q = (if q = a \<or> q = b then Some (lb_id l) else home g q)" for q
    using cl by (simp add: g1_def home_seat_in_match c0)
  have lob: "lobby g1 k = (if k = lb_id l then Some l else lobby g k)" for k
    by (simp add: g1_def seat_in_match_def g0_def lobby_def)
  have "rooms_ok g1" using ok lok(1) by (simp add: hub_ok_def rooms_ok_def lob)
  moreover have "home g1 q = Some k \<longleftrightarrow> q \<in> members g1 k" for q k
  proof -
    have "members g1 k = (if k = lb_id l then {a, b} else members g k)"
      by (simp add: members_def lob lok(2))
    moreover have "members g (lb_id l) = {}" using fresh by (simp add: members_def)
    ultimately show ?thesis using free hub_ok_homeD [OF ok, of q k] by (auto simp: h1)
  qed
  moreover have "distinct (map fst (h_clients g1))" "distinct (map fst (h_lobbies g1))"
    using ok by (simp_all add: hub_ok_def g1_def g0_def seat_in_match_def upd_client_def distinct_update)
  moreover have "length (h_lobbies g1) \<le> MAX_LOBBIES"
    using room fresh by (simp add: g1_def g0_def seat_in_match_def lobby_def length_update_new)
  ultimately have "hub_ok g1" unfolding hub_ok_def by blast
  then show ?thesis by (simp add: g1_def g0_def)
qed

lemma form_match_ok:
  assumes ok: "server_ok s" and exp: "match_expected e p s"
  shows "server_ok (form_match e p s)"
proof -
  define s0 where "s0 = s\<lparr> sv_queue := note_pairing (now e) (tk_account (pn_a p)) (tk_account (pn_b p)) (sv_queue s) \<rparr>"
  have hub0: "sv_hub s0 = sv_hub s" by (simp add: s0_def)
  have ok0: "server_ok s0" using ok by (simp add: s0_def)
  let ?a = "tk_player (pn_a p)" and ?b = "tk_player (pn_b p)" and ?g = "sv_hub s"
  show ?thesis
  proof (cases "length (h_lobbies ?g) < MAX_LOBBIES \<and> here s0 ?a \<and> here s0 ?b \<and> relay_host_is_a p \<noteq> None \<and>
      resolve (s_rulesets e) (mk_game_name (pn_key p)) (mk_ruleset_id (pn_key p)) \<noteq> None")
    case False
    then show ?thesis using ok0
      by (auto simp: form_match_def s0_def [symmetric] hub0 Let_def split: option.split)
  next
    case True
    then obtain r a_hosts where r: "resolve (s_rulesets e) (mk_game_name (pn_key p)) (mk_ruleset_id (pn_key p)) = Some r"
      and relay: "relay_host_is_a p = Some a_hosts" by blast
    define l where "l = match_lobby e r p (if a_hosts then pn_a p else pn_b p) ?g"
    have lok: "lobby_ok l" "set (member_ids l) = {?a, ?b}"
      using match_lobby_ok [of r p] exp r unfolding l_def match_expected_def by blast+
    have "hub_ok (seat_in_match (lb_id l) ?b (seat_in_match (lb_id l) ?a
        (?g\<lparr> h_next_session := saturating_inc (h_next_session ?g), h_lobbies := AList.update (lb_id l) l (h_lobbies ?g) \<rparr>)))"
    proof (rule seat_pair_ok)
      have "lb_id l = e_uuid (s_hub e) 0" by (simp add: l_def match_lobby_def)
      then show "lobby ?g (lb_id l) = None" using exp by (simp add: match_expected_def)
      show "client ?g ?a \<noteq> None" "client ?g ?b \<noteq> None" using True by (simp_all add: here_def hub0)
      show "home ?g ?a = None" "home ?g ?b = None" using exp by (simp_all add: match_expected_def)
    qed (use ok lok True in \<open>simp_all add: server_ok_def\<close>)
    then show ?thesis
      using True r relay unfolding form_match_def s0_def [symmetric] hub0 Let_def
      by (simp add: not_le server_ok_def l_def [symmetric] hub0)
  qed
qed

lemma launch_failed_ok: "server_ok s \<Longrightarrow> server_ok (launch_failed e lid ts c s)"
  by (simp add: launch_failed_def server_ok_foldl) (simp add: server_ok_def destroy_ok)

lemma launch_task_ok: "server_ok s \<Longrightarrow> server_ok (launch_task e lid p late s)"
  using start_lobby_ok [of "sv_hub s" "s_hub e" lid None None]
  using launch_failed_ok [unfolded server_ok_def]
  by (auto simp: launch_task_def try_launch_def Let_def server_ok_def split: launch_result.splits sum.splits if_splits)

subsection \<open>Dispatch\<close>

definition hub_result :: "(Hub \<Rightarrow> string + Hub) \<Rightarrow> Server \<Rightarrow> string + Server" where
  "hub_result f s = (case f (sv_hub s) of Inl c \<Rightarrow> Inl c | Inr g \<Rightarrow> Inr (s\<lparr> sv_hub := g \<rparr>))"

definition unknown_op_json :: "string \<Rightarrow> json" where
  "unknown_op_json op = JObj [(''op'', JStr ''error''), (''code'', JStr ''unknown_op''), (''detail'', JStr op), (''ok'', JBool False)]"

text \<open>The \<^verbatim>\<open>match\<close> on the operation, as a table from names to handlers.\<close>

definition handlers :: "ServerEnv \<Rightarrow> string \<Rightarrow> string \<Rightarrow> InMsg \<Rightarrow> (string \<times> (Server \<Rightarrow> string + Server)) list" where
  "handlers e p ip msg =
     (let h = s_hub e; hub = (\<lambda>f s. Inr (on_hub f s)) in
      [(''hello'', hub (handle_hello h p msg)),
       (''list'', hub (handle_list h p msg)),
       (''ping'', hub (send_to p (JObj [(''op'', JStr ''pong'')]))),
       (''create'', hub (handle_create h p ip msg)),
       (''join'', hub_result (handle_join h p ip msg)),
       (''set_ready'', hub (handle_set_ready h p msg)),
       (''chat'', hub (handle_chat h p msg)),
       (''server_chat'', hub (handle_server_chat h p msg)),
       (''set_match_caps'', hub (handle_set_match_caps h p msg)),
       (''set_host_endpoint'', hub (handle_set_host_endpoint h p ip msg)),
       (''path_report'', hub (handle_path_report h p msg)),
       (''start'', hub (handle_start h p msg)),
       (''leave'', hub (handle_leave h p)),
       (''kick'', hub_result (handle_kick h p msg)),
       (''move'', hub (handle_move h p msg)),
       (''seat_move'', hub (handle_seat_move h p msg)),
       (''seat_swap_request'', hub (handle_seat_swap_request p msg)),
       (''seat_swap_answer'', hub (handle_seat_swap_answer h p msg)),
       (''close'', hub (handle_close h p)),
       (''signal'', hub_result (handle_signal h p msg)),
       (''probe_signal'', hub (handle_probe_signal h p msg)),
       (''mod_signal'', hub_result (handle_mod_signal p msg)),
       (''mod_xfer_start'', hub (handle_mod_xfer_start p msg)),
       (''mod_xfer_cancel'', hub (handle_mod_xfer_cancel p)),
       (''mod_xfer_fail'', hub (handle_mod_xfer_fail p msg)),
       (''get_turn_credentials'', hub (handle_get_turn_credentials h p)),
       (''set_blocks'', hub (handle_set_blocks p msg)),
       (''automatch_rulesets'', \<lambda>s. Inr (handle_automatch_rulesets e p msg s)),
       (''automatch_queue'', \<lambda>s. Inr (handle_automatch_queue e p msg s)),
       (''automatch_cancel'', \<lambda>s. Inr (handle_automatch_cancel e p s)),
       (''automatch_rtt'', \<lambda>s. Inr (handle_automatch_rtt e p msg s)),
       (''desync_report'', \<lambda>s. Inr (handle_desync_report e p msg s)),
       (''chat_report'', \<lambda>s. Inr (handle_chat_report e p msg s)),
       (''automatch_accept'', \<lambda>s. Inr (handle_automatch_accept e p msg s))])"

definition login_gate :: "string \<Rightarrow> InMsg \<Rightarrow> Server \<Rightarrow> bool" where
  "login_gate p msg s \<longleftrightarrow>
     h_require_login (sv_hub s) \<and> m_op msg \<notin> set [''hello'', ''ping''] \<and> \<not> signed_in p (sv_hub s)"

definition handle_text :: "ServerEnv \<Rightarrow> string \<Rightarrow> string \<Rightarrow> InMsg \<Rightarrow> Server \<Rightarrow> string + Server" where
  "handle_text e p ip raw s =
     (case sanitize_in_place (e_filter (s_hub e)) raw of
        (_, Some code) \<Rightarrow> Inr (deny p code s)
      | (msg, None) \<Rightarrow>
          if login_gate p msg s then Inr s
          else (case map_of (handlers e p ip msg) (m_op msg) of
                  Some f \<Rightarrow> f s
                | None \<Rightarrow> Inr (send p (unknown_op_json (m_op msg)) s)))"

definition bad_request_json :: "string \<Rightarrow> json" where
  "bad_request_json op = JObj [(''op'', JStr ''error''), (''code'', JStr ''bad_request''), (''request_op'', JStr op), (''ok'', JBool False)]"

subsection \<open>The life of a connection\<close>

text \<open>\<^verbatim>\<open>country_for\<close>: the MaxMind reader is the parameter \<open>geo\<close>, \<open>None\<close> when none is configured;
  the built-in table is the other one.\<close>

definition private_address :: "ip \<Rightarrow> bool" where
  "private_address a =
     (case a of
        V4 v \<Rightarrow> v4_private v \<or> v4_loopback v \<or> v4_link_local v \<or> v = 0
      | V6 gs \<Rightarrow> v6_loopback gs \<or> gs = replicate 8 0 \<or> (gs ! 0) div 512 = 126 \<or> (gs ! 0) div 64 = 1018)"

definition country_for :: "(ip \<Rightarrow> string option) option \<Rightarrow> (ip \<Rightarrow> string) \<Rightarrow> string \<Rightarrow> string" where
  "country_for geo builtin ip_text =
     (case parse_ip (trim ip_text) of
        None \<Rightarrow> []
      | Some a \<Rightarrow>
          if private_address a then []
          else case geo of
            None \<Rightarrow> builtin a
          | Some lookup_db \<Rightarrow>
              let db = (case lookup_db a of Some c \<Rightarrow> to_ascii_uppercase c | None \<Rightarrow> [])
              in if db \<noteq> [] then db else builtin a)"

definition new_client :: "string \<Rightarrow> string \<Rightarrow> string \<Rightarrow> ClientMeta" where
  "new_client p ip country =
     \<lparr> cl_display = ''Player-'' @ take 8 p, cl_account = None, cl_peer_ip = ip, cl_country = country, cl_game = [],
       cl_lobby = None, cl_pending_mod = None, cl_blocks = [], cl_probe_rtt = -1, cl_bucket = new_bucket \<rparr>"

definition connect :: "string \<Rightarrow> string \<Rightarrow> string \<Rightarrow> Server \<Rightarrow> Server" where
  "connect p ip country = on_hub (\<lambda>g. g\<lparr> h_clients := AList.update p (new_client p ip country) (h_clients g) \<rparr>)"

definition remove_client :: "string \<Rightarrow> Hub \<Rightarrow> Hub" where
  "remove_client p g = g\<lparr> h_clients := AList.delete p (h_clients g) \<rparr>"

definition disconnect :: "ServerEnv \<Rightarrow> string \<Rightarrow> Server \<Rightarrow> Server" where
  "disconnect e p s = on_hub (remove_client p) (on_hub (client_leave (s_hub e) p) (drop_player e p s))"

definition receive :: "ServerEnv \<Rightarrow> string \<Rightarrow> string \<Rightarrow> InMsg \<Rightarrow> Server \<Rightarrow> Server" where
  "receive e p ip msg s =
     (case handle_text e p ip msg s of Inr s' \<Rightarrow> s' | Inl _ \<Rightarrow> send p (bad_request_json (m_op msg)) s)"

definition push_list :: "ServerEnv \<Rightarrow> string \<Rightarrow> Server \<Rightarrow> Server" where
  "push_list e p s =
     (case client (sv_hub s) p of
        None \<Rightarrow> s
      | Some c \<Rightarrow>
          if h_require_login (sv_hub s) \<and> cl_account c = None then s
          else send p (lobby_list_json_for (s_hub e) (sv_hub s) p) s)"

subsection \<open>Events and reachable states\<close>

datatype event =
    Connect string string string
  | Receive string string InMsg
  | Disconnect string
  | PushList string
  | Tick
  | LaunchTask string Pending bool

fun exec :: "ServerEnv \<Rightarrow> event \<Rightarrow> Server \<Rightarrow> Server" where
  "exec e (Connect p ip country) s = connect p ip country s"
| "exec e (Receive p ip msg) s = receive e p ip msg s"
| "exec e (Disconnect p) s = disconnect e p s"
| "exec e (PushList p) s = push_list e p s"
| "exec e Tick s = automatch_tick e s"
| "exec e (LaunchTask lid p late) s = launch_task e lid p late s"

text \<open>What the environment guarantees: fresh uuids are fresh (also against the empty host of a
  match room), text comes from connected clients, and a second accept forms a match only where
  \<open>match_expected\<close> holds.\<close>

definition accepted_offer :: "string \<Rightarrow> InMsg \<Rightarrow> Server \<Rightarrow> Pending option" where
  "accepted_offer p msg s = snd (answer_for p (unwrap_or (m_accept msg) False) (m_match msg) (sv_queue s))"

definition allowed :: "ServerEnv \<Rightarrow> event \<Rightarrow> Server \<Rightarrow> bool" where
  "allowed e ev s =
     (case ev of
        Connect p ip country \<Rightarrow> client (sv_hub s) p = None
      | Receive p ip msg \<Rightarrow>
          client (sv_hub s) p \<noteq> None \<and>
          (m_op msg = ''create'' \<longrightarrow> lobby (sv_hub s) (e_uuid (s_hub e) 0) = None) \<and>
          (m_op msg = ''automatch_accept'' \<longrightarrow>
             (case accepted_offer p msg s of Some offer \<Rightarrow> both_yes offer \<longrightarrow> match_expected e offer s | None \<Rightarrow> True))
      | _ \<Rightarrow> True)"

definition empty_server :: "bool \<Rightarrow> Server" where
  "empty_server req = \<lparr> sv_hub = empty_hub req, sv_queue = \<lparr> tickets = [], pending = [], recent = [] \<rparr>,
     sv_history = \<lparr> strikes = [], pairings = [], desyncs = [] \<rparr>, sv_reports = [] \<rparr>"

inductive reachable :: "Server \<Rightarrow> bool" where
  start: "reachable (empty_server req)"
| step: "reachable s \<Longrightarrow> allowed e ev s \<Longrightarrow> reachable (exec e ev s)"

inductive_cases reachableE: "reachable s"

subsection \<open>Every event keeps the invariant\<close>

lemma receive_parts:
  assumes "handle_text e p ip raw s = Inr s'"
  obtains "s' = s" | code where "s' = deny p code s" | op where "s' = send p (unknown_op_json op) s"
  | msg f where "sanitize_in_place (e_filter (s_hub e)) raw = (msg, None)"
      "(m_op msg, f) \<in> set (handlers e p ip msg)" "f s = Inr s'"
  using assms unfolding handle_text_def
  by (auto split: prod.splits option.splits if_splits dest!: map_of_SomeD)

lemma hub_result_Inr: "hub_result f s = Inr s' \<longleftrightarrow> (\<exists>g. f (sv_hub s) = Inr g \<and> s' = s\<lparr> sv_hub := g \<rparr>)"
  by (auto simp: hub_result_def split: sum.splits)

lemma sanitize_in_place_frame:
  "sanitize_in_place f raw = (msg, r) \<Longrightarrow> m_op msg = m_op raw \<and> m_accept msg = m_accept raw \<and> m_match msg = m_match raw"
  by (auto simp: sanitize_in_place_def Let_def)

lemma accept_ok:
  assumes ok: "server_ok s" and exp: "\<And>offer. accepted_offer p msg s = Some offer \<Longrightarrow> both_yes offer \<Longrightarrow> match_expected e offer s"
  shows "server_ok (handle_automatch_accept e p msg s)"
proof -
  let ?yes = "unwrap_or (m_accept msg) False"
  define s1 where "s1 = send p (JObj [(''op'', JStr ''automatch_accept_ok''), (''ok'', JBool True), (''accept'', JBool ?yes)]) s"
  have q: "sv_queue s1 = sv_queue s" and ok1: "server_ok s1"
    using ok by (simp_all add: s1_def send_def on_hub_def server_ok_def)
  obtain q out where a: "answer_for p ?yes (m_match msg) (sv_queue s) = (q, out)" by force
  have same: "home (sv_hub s1) x = home (sv_hub s) x" "lobby (sv_hub s1) k = lobby (sv_hub s) k" for x k
    by (simp_all add: s1_def send_def on_hub_def home_def client_def lobby_def)
  have "server_ok (form_match e offer (s1\<lparr> sv_queue := q \<rparr>))" if "out = Some offer" "both_yes offer" for offer
  proof (rule form_match_ok)
    have "match_expected e offer s" using exp that a by (simp add: accepted_offer_def)
    then show "match_expected e offer (s1\<lparr> sv_queue := q \<rparr>)" by (simp add: match_expected_def same)
  qed (use ok1 in simp)
  then show ?thesis
    using ok1 by (auto simp: handle_automatch_accept_def s1_def [symmetric] Let_def q a split: option.split)
qed

lemma handlers_ok:
  assumes ok: "server_ok s" and f: "(m_op msg, f) \<in> set (handlers e p ip msg)" "f s = Inr s'"
    and al: "client (sv_hub s) p \<noteq> None" "m_op msg = ''create'' \<Longrightarrow> lobby (sv_hub s) (e_uuid (s_hub e) 0) = None"
      "m_op msg = ''automatch_accept'' \<Longrightarrow> (\<And>offer. accepted_offer p msg s = Some offer \<Longrightarrow> both_yes offer \<Longrightarrow> match_expected e offer s)"
  shows "server_ok s'"
proof -
  have hub: "hub_ok (sv_hub s)" using ok by (simp add: server_ok_def)
  show ?thesis
  proof (cases "m_op msg = ''automatch_accept''")
    case True
    then have "s' = handle_automatch_accept e p msg s" using f by (auto simp: handlers_def Let_def)
    then show ?thesis using accept_ok [OF ok al(3) [OF True]] by simp
  next
    case False
    then show ?thesis using f(1) f(2) ok
      unfolding handlers_def Let_def set_simps
      by (elim insertE; (elim Pair_inject)?; (simp only: hub_result_Inr)?)
        (auto intro!: server_okI simp: room_edit_handlers_ok [OF hub] swap_handlers_ok [OF hub] chat_handlers_ok [OF hub]
          mod_handlers_ok [OF hub] handle_hello_ok [OF hub] handle_start_ok [OF hub] handle_leave_ok [OF hub]
          handle_close_ok [OF hub] handle_probe_signal_ok [OF hub] handle_create_ok [OF hub al(1)] al(2) hub
          server_ok_rtt server_ok_def [symmetric] on_hub_def
          dest: handle_join_ok [OF hub al(1)] handle_kick_ok [OF hub] handle_signal_ok [OF hub] mod_handlers_ok(3) [OF hub])
  qed
qed

lemma connect_ok:
  assumes ok: "server_ok s" and fresh: "client (sv_hub s) p = None"
  shows "server_ok (connect p ip country s)"
proof -
  let ?g = "sv_hub s" and ?g' = "sv_hub (connect p ip country s)"
  have hub: "hub_ok ?g" using ok by (simp add: server_ok_def)
  have home: "home ?g' q = home ?g q" for q
    using fresh by (simp add: connect_def home_def client_def new_client_def)
  have rooms: "h_lobbies ?g' = h_lobbies ?g" by (simp add: connect_def)
  have "hub_ok ?g'" using hub
    by (simp add: hub_ok_def rooms_ok_def home members_def lobby_cong [OF rooms] rooms)
      (simp add: connect_def distinct_update)
  then show ?thesis by (simp add: server_ok_def)
qed

lemma remove_client_ok:
  assumes ok: "hub_ok g" and home: "home g p = None"
  shows "hub_ok (remove_client p g)"
proof -
  have "home (remove_client p g) q = home g q" for q
    using home by (simp add: remove_client_def home_def client_def)
  then show ?thesis using ok
    by (simp add: hub_ok_def rooms_ok_def members_def lobby_def remove_client_def distinct_delete)
qed

lemma home_cong: "h_clients g' = h_clients g \<Longrightarrow> home g' p = home g p"
  by (simp add: home_def client_def)

lemma home_after_leave: "home (client_leave e p g) p = None"
proof (cases "home g p")
  case None
  then show ?thesis by (simp add: client_leave_def home_def)
next
  case (Some lid)
  have destroyed: "home (destroy_lobby e k h) p = None" if "home h p = None" for h k
  proof (cases "lobby h k")
    case (Some l)
    have "home (destroy_lobby e k h) p =
        home (foldl (\<lambda>h p. unseat_client p h) (h\<lparr> h_lobbies := AList.delete k (h_lobbies h) \<rparr>) (member_ids l)) p"
      by (rule home_cong) (simp add: destroy_lobby_def Some Let_def)
    moreover have "home (h\<lparr> h_lobbies := AList.delete k (h_lobbies h) \<rparr>) p = home h p" by (rule home_cong) simp
    ultimately show ?thesis using that by (simp add: unseat_all(3))
  qed (simp add: destroy_lobby_def that)
  have left: "home (unseat_client p g) p = None" by (simp add: home_unseat)
  have kept: "home h p = None" if "h_clients h = h_clients (unseat_client p g)" for h
    using home_cong [OF that, of p] left by simp
  show ?thesis using Some left destroyed [OF left]
    by (auto simp: client_leave_def home_def [symmetric] Let_def intro!: kept split: option.split)
qed

lemma disconnect_ok: "server_ok s \<Longrightarrow> server_ok (disconnect e p s)"
  unfolding disconnect_def server_ok_def on_hub_hub
  by (rule remove_client_ok [OF client_leave_ok home_after_leave])
    (simp add: server_ok_def [symmetric])

lemma receive_ok:
  assumes ok: "server_ok s" and al: "allowed e (Receive p ip msg) s"
  shows "server_ok (receive e p ip msg s)"
proof (cases "handle_text e p ip msg s")
  case (Inl c)
  then show ?thesis using ok by (simp add: receive_def)
next
  case (Inr s')
  have "server_ok s'" using Inr
  proof (cases rule: receive_parts)
    case (4 m f)
    note fr = sanitize_in_place_frame [OF 4(1)]
    show ?thesis
    proof (rule handlers_ok [OF ok 4(2,3)])
      show "client (sv_hub s) p \<noteq> None" using al by (simp add: allowed_def)
      show "m_op m = ''create'' \<Longrightarrow> lobby (sv_hub s) (e_uuid (s_hub e) 0) = None"
        using al fr by (simp add: allowed_def)
      show "m_op m = ''automatch_accept'' \<Longrightarrow> accepted_offer p m s = Some offer \<Longrightarrow> both_yes offer \<Longrightarrow> match_expected e offer s" for offer
        using al fr by (simp add: allowed_def accepted_offer_def)
    qed
  qed (use ok in simp_all)
  then show ?thesis using Inr by (simp add: receive_def)
qed

lemma push_list_ok [simp]: "server_ok (push_list e p s) = server_ok s"
  by (simp add: push_list_def split: option.split)

lemma exec_ok: "server_ok s \<Longrightarrow> allowed e ev s \<Longrightarrow> server_ok (exec e ev s)"
  by (cases ev) (auto simp: allowed_def connect_ok disconnect_ok launch_task_ok intro: receive_ok [unfolded allowed_def])

lemma reachable_ok: "reachable s \<Longrightarrow> server_ok s"
proof (induction rule: reachable.induct)
  case (start req)
  then show ?case
    by (simp add: server_ok_def empty_server_def empty_hub_def hub_ok_def rooms_ok_def home_def members_def client_def lobby_def)
next
  case (step s e ev)
  then show ?case by (blast intro: exec_ok)
qed

subsection \<open>The claim about reachable states\<close>


definition demo_connected :: Server where
  "demo_connected = exec demo_server_env (Connect ''a'' ''1.1.1.1'' []) (empty_server False)"

lemma demo_connected_reachable: "reachable demo_connected"
  unfolding demo_connected_def
  by (rule reachable.step [OF reachable.start]) (simp add: allowed_def empty_server_def empty_hub_def client_def)

lemma demo_create_allowed: "allowed demo_server_env (Receive ''a'' ''1.1.1.1'' (blank_msg ''create'')) demo_connected"
  by (simp add: allowed_def demo_connected_def connect_def on_hub_def client_def lobby_def empty_server_def empty_hub_def
      blank_msg_def)

definition demo_hosting :: Server where
  "demo_hosting = exec demo_server_env (Receive ''a'' ''1.1.1.1'' (blank_msg ''create'')) demo_connected"


end
