(* ===== verification/Room_Refinement.thy ===== *)
theory Room_Refinement
  imports Server_Step
begin

text \<open>
  What the hub promises about rooms, without seats, messages or automatch: a map from players
  to rooms, and the moves \<open>room_step\<close> allows.  The lemmas compute what each handler does to
  that map (\<open>home\<close>); the theorem is the simulation.
\<close>

subsection \<open>The abstract rooms\<close>

text \<open>One move made on behalf of the player \<open>x\<close>, where \<open>host r\<close> is the host of room \<open>r\<close> and \<open>is_match\<close>
  marks the rooms of automatch: come into a room, leave, throw somebody else out of one's own
  room, close a room one sits in (as its host, or by leaving a match), or be paired for a match.\<close>

inductive room_step ::
    "(string \<Rightarrow> string option) \<Rightarrow> (string \<Rightarrow> bool) \<Rightarrow> string \<Rightarrow> (string \<Rightarrow> string option) \<Rightarrow> (string \<Rightarrow> string option) \<Rightarrow> bool"
  for host is_match x where
  idle: "room_step host is_match x m m"
| enter: "m x = None \<Longrightarrow> room_step host is_match x m (m(x \<mapsto> r))"
| exit: "m x = Some r \<Longrightarrow> room_step host is_match x m (m(x := None))"
| kick: "m x = Some r \<Longrightarrow> host r = Some x \<Longrightarrow> m p = Some r \<Longrightarrow> p \<noteq> x \<Longrightarrow> room_step host is_match x m (m(p := None))"
| close: "m x = Some r \<Longrightarrow> host r = Some x \<or> is_match r \<Longrightarrow>
    room_step host is_match x m (\<lambda>q. if m q = Some r then None else m q)"
| paired: "m a = None \<Longrightarrow> m b = None \<Longrightarrow> x = a \<or> x = b \<Longrightarrow> room_step host is_match x m (m(a \<mapsto> r, b \<mapsto> r))"

inductive_cases room_stepE: "room_step host is_match x m m'"

definition host_of :: "Hub \<Rightarrow> string \<Rightarrow> string option" where
  "host_of g r = map_option lb_host (lobby g r)"

definition match_room :: "Hub \<Rightarrow> string \<Rightarrow> bool" where
  "match_room g r = (case lobby g r of Some l \<Rightarrow> lb_automatch l | None \<Rightarrow> False)"

abbreviation hub_step :: "Hub \<Rightarrow> string \<Rightarrow> Hub \<Rightarrow> bool" where
  "hub_step g p g' \<equiv> room_step (host_of g) (match_room g) p (home g) (home g')"

lemma hub_step_idle: "home g' = home g \<Longrightarrow> hub_step g p g'"
  by (simp add: room_step.idle)

subsection \<open>Handlers that move nobody\<close>

lemma home_frame: "h_clients g' = h_clients g \<Longrightarrow> home g' = home g"
  by (rule ext) (rule home_cong)

lemma home_sent [simp]:
  "home (send_to p m g) = home g" "home (send_all ps m g) = home g" "home (broadcast_list e g) = home g"
  "home (refuse p c g) = home g" "home (emit_lobby_update e lid g) = home g" "home (chat_system lid t g) = home g"
  "home (g\<lparr> h_lobbies := ls \<rparr>) = home g" "home (g\<lparr> h_next_session := n \<rparr>) = home g" "home (g\<lparr> h_probe_grants := pg \<rparr>) = home g"
  by (rule home_frame; simp)+

lemma home_upd_lobby_fun [simp]: "home (upd_lobby lid f g) = home g"
  by (rule home_frame) simp

lemma home_upd_keep: "(\<And>c. cl_lobby (f c) = cl_lobby c) \<Longrightarrow> home (upd_client p f g) = home g"
  by (rule ext, simp add: home_upd_client) (simp add: home_def)

lemma home_rename_fun [simp]: "home (rename_client p n g) = home g"
  by (rule ext) simp

lemma home_set_game [simp]: "home (set_game p gm g) = home g"
  by (simp add: set_game_def home_upd_keep split: option.split)

lemma home_remember: "remember_chat a n t s l gm g = (g1, mid) \<Longrightarrow> home g1 = home g"
  by (rule home_frame) (auto simp: remember_chat_def Let_def)

lemma home_within_rate: "within_rate t0 p g = (g1, b) \<Longrightarrow> home g1 = home g"
  by (auto simp: within_rate_def home_upd_keep split: option.splits prod.splits)

lemma home_room_edit [simp]: "(\<And>lid h. home (k lid h) = home h) \<Longrightarrow> home (room_edit p f k g) = home g"
  by (simp add: room_edit_def split: sum.split prod.split)

lemma home_room_handlers:
  "home (handle_move e p msg g) = home g" "home (handle_seat_move e p msg g) = home g"
  "home (handle_set_match_caps e p msg g) = home g" "home (handle_set_host_endpoint e p ip msg g) = home g"
  "home (handle_path_report e p msg g) = home g" "home (handle_set_ready e p msg g) = home g"
  "home (handle_seat_swap_request p msg g) = home g" "home (handle_seat_swap_answer e p msg g) = home g"
  by (simp_all add: handle_move_def handle_seat_move_def handle_set_match_caps_def handle_set_host_endpoint_def
      handle_path_report_def handle_set_ready_def handle_seat_swap_request_def handle_seat_swap_answer_def Let_def
      split: option.split sum.split prod.split)

lemma home_start_lobby: "start_lobby e lid raw init ice g = Inr g' \<Longrightarrow> home g' = home g"
  by (auto simp: start_lobby_def Let_def split: option.splits if_splits sum.splits)

lemma home_start: "home (handle_start e p msg g) = home g"
  using home_start_lobby [of e _ _ _ _ g] by (simp add: handle_start_def split: sum.split prod.split option.split)

lemma home_chat: "home (handle_chat e p msg g) = home g"
  by (auto simp: handle_chat_def Let_def dest!: home_remember split: option.split prod.split)

lemma home_server_chat: "home (handle_server_chat e p msg g) = home g"
proof -
  have "home (upd_client p (\<lambda>c. c\<lparr> cl_game := f c \<rparr>) h) = home h" for f :: "ClientMeta \<Rightarrow> string" and h
    by (rule home_upd_keep) simp
  then show ?thesis
    by (auto simp: handle_server_chat_def Let_def dest!: home_remember split: option.split prod.split)
qed

lemma home_signal: "handle_signal e p msg g = Inr g' \<Longrightarrow> home g' = home g"
  by (auto simp: handle_signal_def Let_def dest!: home_within_rate split: option.splits prod.splits if_splits)

lemma home_probe: "home (handle_probe_signal e p msg g) = home g"
  by (auto simp: handle_probe_signal_def Let_def dest!: home_within_rate split: option.split prod.split)

lemma home_mod_signal: "handle_mod_signal p msg g = Inr g' \<Longrightarrow> home g' = home g"
  by (auto simp: handle_mod_signal_def Let_def split: option.splits if_splits)

lemma home_talk:
  "home (handle_set_blocks p msg g) = home g" "home (handle_list e p msg g) = home g"
  "home (handle_mod_xfer_start p msg g) = home g" "home (handle_mod_xfer_cancel p g) = home g"
  "home (handle_mod_xfer_fail p msg g) = home g" "home (handle_get_turn_credentials e p g) = home g"
  by (simp_all add: handle_set_blocks_def handle_list_def handle_mod_xfer_start_def handle_mod_xfer_cancel_def
      handle_mod_xfer_fail_def handle_get_turn_credentials_def Let_def home_upd_keep split: option.split prod.split)

lemma home_apply_identity: "apply_identity e p name game g = (g', acc, r) \<Longrightarrow> home g' = home g"
  by (auto simp: apply_identity_def Let_def home_upd_keep split: option.splits sum.splits prod.splits if_splits)

lemma home_hello: "home (handle_hello e p msg g) = home g"
  by (auto simp: handle_hello_def Let_def home_upd_keep dest!: home_apply_identity
      split: option.splits sum.splits prod.splits if_splits)

subsection \<open>Handlers that move somebody\<close>

lemma members_home: "hub_ok g \<Longrightarrow> q \<in> members g lid \<longleftrightarrow> home g q = Some lid"
  by (simp add: hub_ok_homeD)

lemma home_destroy: "home (destroy_lobby e lid g) q = (if q \<in> members g lid then None else home g q)"
proof (cases "lobby g lid")
  case None
  then show ?thesis by (simp add: destroy_lobby_def members_def)
next
  case (Some l)
  then show ?thesis by (simp add: destroy_lobby_def Let_def unseat_all(3) members_def)
qed

lemma home_destroy_own:
  "hub_ok g \<Longrightarrow> home (destroy_lobby e lid g) = (\<lambda>q. if home g q = Some lid then None else home g q)"
  by (rule ext) (simp add: home_destroy members_home)

lemma home_unseat_fun: "home (unseat_client p g) = (home g)(p := None)"
  by (rule ext) (simp add: home_unseat)

lemma leave_step:
  assumes ok: "hub_ok g"
  shows "hub_step g p (client_leave e p g)"
proof (cases "home g p")
  case None
  then show ?thesis by (simp add: client_leave_def home_def [symmetric] idle)
next
  case (Some lid)
  then obtain l where l: "lobby g lid = Some l"
    using hub_ok_homeD [OF ok] by (auto simp: members_def split: option.splits)
  have l1: "lobby (unseat_client p g) lid = Some l" using l by (simp add: lobby_def)
  show ?thesis
  proof (cases "lb_host l = p \<or> lb_automatch l \<and> player_count l \<le> 2")
    case True
    have "home (client_leave e p g) q = (if home g q = Some lid then None else home g q)" for q
      using True Some l1 members_home [OF ok, of q lid]
      by (auto simp: client_leave_def home_def [symmetric] Let_def home_destroy home_unseat members_def l1 l)
    then have eq: "home (client_leave e p g) = (\<lambda>q. if home g q = Some lid then None else home g q)" by (rule ext)
    have "host_of g lid = Some p \<or> match_room g lid" using True l by (auto simp: host_of_def match_room_def)
    then show ?thesis unfolding eq by (rule room_step.close [where m = "home g", OF Some])
  next
    case False
    then have eq: "home (client_leave e p g) = (home g)(p := None)"
      using Some l1 by (auto simp: client_leave_def home_def [symmetric] Let_def home_unseat_fun)
    show ?thesis unfolding eq by (rule room_step.exit [where m = "home g", OF Some])
  qed
qed

lemma close_step:
  assumes ok: "hub_ok g"
  shows "hub_step g p (handle_close e p g)"
proof (cases "\<exists>lid l. room_of g p = Inr (lid, l) \<and> lb_host l = p")
  case True
  then obtain lid l where r: "room_of g p = Inr (lid, l)" "lb_host l = p" by blast
  have h: "home g p = Some lid" "lobby g lid = Some l" using room_ofD [OF r(1)] by auto
  have "host_of g lid = Some p \<or> match_room g lid" using h r(2) by (simp add: host_of_def)
  then have "room_step (host_of g) (match_room g) p (home g) (\<lambda>q. if home g q = Some lid then None else home g q)"
    by (rule room_step.close [where m = "home g", OF h(1)])
  then show ?thesis using r by (simp add: handle_close_def home_destroy_own [OF ok])
next
  case False
  then have "handle_close e p g = g" by (auto simp: handle_close_def split: sum.split)
  then show ?thesis by (simp add: idle)
qed

lemma kick_step:
  assumes ok: "hub_ok g" and kick: "handle_kick e p msg g = Inr g'"
  shows "hub_step g p g'"
proof (cases "home g' = home g")
  case False
  obtain n where n: "m_slot msg = Some n" using kick by (auto simp: handle_kick_def split: option.splits)
  obtain lid l where r: "room_of g p = Inr (lid, l)"
    using kick n False by (cases "room_of g p") (auto simp: handle_kick_def)
  have h: "home g p = Some lid" "lobby g lid = Some l" using room_ofD [OF r] by auto
  obtain s where s: "occupant l n = Some s" "lb_host l = p" "sl_player s \<noteq> p" "home g' = (home g)(sl_player s := None)"
    using kick n r False by (auto simp: handle_kick_def Let_def home_unseat_fun split: option.splits if_splits)
  have "seat l n = Some (Some s)" using s(1) occupant_eq [of l n] by auto
  then have "sl_player s \<in> set (member_ids l)" by (auto simp: member_ids_def dest: seat_in_everyone)
  then have v: "home g (sl_player s) = Some lid" using hub_okD(4) [OF ok h(2)] by blast
  have "host_of g lid = Some p" using h s(2) by (simp add: host_of_def)
  then show ?thesis unfolding s(4) by (rule room_step.kick [where m = "home g", OF h(1) _ v s(3)])
qed (rule hub_step_idle)

lemma renamed_client: "client g p \<noteq> None \<Longrightarrow> \<exists>c. client (rename_client p n g) p = Some c"
  by (cases "client (rename_client p n g) p") auto

lemma create_step:
  assumes p: "client g p \<noteq> None"
  shows "hub_step g p (handle_create e p ip msg g)"
proof (cases "home g p = None \<and> length (h_lobbies g) < MAX_LOBBIES")
  case False
  then show ?thesis by (auto simp: handle_create_def home_def [symmetric] idle)
next
  case True
  let ?g1 = "rename_client p (m_display_name msg) g"
  let ?l = "new_lobby e p ip msg ?g1"
  let ?g2 = "?g1\<lparr> h_next_session := saturating_inc (h_next_session ?g1), h_lobbies := AList.update (lb_id ?l) ?l (h_lobbies ?g1) \<rparr>"
  obtain c where "client ?g1 p = Some c" using renamed_client [OF p] by blast
  then have c: "client ?g2 p = Some c" by (simp add: client_def)
  have "home ?g2 = home g" using home_frame [of ?g2 ?g1] by simp
  then have "home (handle_create e p ip msg g) = (home g)(p \<mapsto> lb_id ?l)"
    using True c by (auto simp: handle_create_def home_def [symmetric] Let_def home_upd_client fun_eq_iff)
  then show ?thesis using room_step.enter [where m = "home g" and x = p] True by simp
qed

lemma join_step:
  assumes p: "client g p \<noteq> None" and join: "handle_join e p ip msg g = Inr g'"
  shows "hub_step g p g'"
proof -
  obtain lid where lid: "nonempty (m_lobby msg) = Some lid"
    using join by (auto simp: handle_join_def split: option.splits)
  let ?g1 = "rename_client p (m_display_name msg) g"
  show ?thesis
  proof (cases "home g p")
    case None
    have "home g2 = (home g)(p \<mapsto> lid)" if "join_outcome e lid p ip msg ?g1 = SeatOk n g2" for n g2
    proof -
      obtain c where "client ?g1 p = Some c" using renamed_client [OF p] by blast
      then show ?thesis using that
        by (auto simp: join_outcome_def seat_joiner_locked_def Let_def home_upd_client fun_eq_iff split: option.splits if_splits)
    qed
    note seated = this
    have keep: "home (upd_client p (\<lambda>c. c\<lparr> cl_pending_mod := x \<rparr>) h) = home h" for x h by (rule home_upd_keep) simp
    show ?thesis
    proof (cases "join_outcome e lid p ip msg ?g1")
      case (SeatOk n g2)
      have "home g' = (home g)(p \<mapsto> lid)"
        using join lid None seated [OF SeatOk]
        by (auto simp: handle_join_def Let_def home_def [symmetric] keep SeatOk split: option.splits)
      then show ?thesis using room_step.enter [where m = "home g" and x = p] None by simp
    qed (use join lid None in \<open>auto simp: handle_join_def Let_def home_def [symmetric] keep idle\<close>)
  qed (use join lid in \<open>auto simp: handle_join_def home_def [symmetric] idle\<close>)
qed

subsection \<open>Automatch\<close>

lemma home_server [simp]:
  "home (sv_hub (send p m s)) = home (sv_hub s)" "home (sv_hub (deny p c s)) = home (sv_hub s)"
  "home (sv_hub (requeue e t r s)) = home (sv_hub s)" "home (sv_hub (strike e t k pn s)) = home (sv_hub s)"
  by (simp_all add: send_def deny_def requeue_def strike_def)

lemma home_foldl: "(\<And>s x. home (sv_hub (f s x)) = home (sv_hub s)) \<Longrightarrow> home (sv_hub (foldl f s xs)) = home (sv_hub s)"
  by (induction xs arbitrary: s) auto

lemma home_automatch [simp]:
  "home (sv_hub (settle_declined e p l k s)) = home (sv_hub s)" "home (sv_hub (offer_pair e p s)) = home (sv_hub s)"
  by (simp_all add: settle_declined_def offer_pair_def Let_def split: prod.split)

lemma home_pairing [simp]: "home (sv_hub (run_pairing e s)) = home (sv_hub s)"
  by (simp add: run_pairing_def home_foldl split: prod.split)

lemma home_drop [simp]: "home (sv_hub (drop_player e p s)) = home (sv_hub s)"
  by (simp add: drop_player_def split: prod.split option.split)

lemma home_automatch_handlers:
  "home (sv_hub (handle_automatch_rulesets e p msg s)) = home (sv_hub s)"
  "home (sv_hub (handle_automatch_queue e p msg s)) = home (sv_hub s)"
  "home (sv_hub (handle_automatch_cancel e p s)) = home (sv_hub s)"
  "home (sv_hub (handle_automatch_rtt e p msg s)) = home (sv_hub s)"
  "home (sv_hub (handle_chat_report e p msg s)) = home (sv_hub s)"
  "home (sv_hub (handle_desync_report e p msg s)) = home (sv_hub s)"
  by (simp_all add: handle_automatch_rulesets_def handle_automatch_queue_def handle_automatch_cancel_def
      handle_automatch_rtt_def handle_chat_report_def handle_desync_report_def Let_def home_upd_keep
      split: option.split sum.split prod.split Submitted.split)

lemma home_form_match:
  "home (sv_hub (form_match e p s)) = home (sv_hub s) \<or>
   home (sv_hub (form_match e p s)) =
     (home (sv_hub s))(tk_player (pn_a p) \<mapsto> e_uuid (s_hub e) 0, tk_player (pn_b p) \<mapsto> e_uuid (s_hub e) 0)"
proof -
  define s0 where "s0 = s\<lparr> sv_queue := note_pairing (now e) (tk_account (pn_a p)) (tk_account (pn_b p)) (sv_queue s) \<rparr>"
  have hub0: "sv_hub s0 = sv_hub s" by (simp add: s0_def)
  let ?a = "tk_player (pn_a p)" and ?b = "tk_player (pn_b p)" and ?g = "sv_hub s"
  have two: "home (seat_in_match k ?b (seat_in_match k ?a h)) = (home ?g)(?a \<mapsto> k, ?b \<mapsto> k)"
    if "here s0 ?a" "here s0 ?b" "h_clients h = h_clients ?g" for h k
  proof -
    have "client h ?a \<noteq> None" "client h ?b \<noteq> None"
      using that by (simp_all add: here_def hub0 client_def)
    then show ?thesis using home_frame [OF that(3)]
      by (intro ext) (simp add: home_seat_in_match)
  qed
  show ?thesis
  proof (cases "length (h_lobbies ?g) < MAX_LOBBIES \<and> here s0 ?a \<and> here s0 ?b \<and> relay_host_is_a p \<noteq> None \<and>
      resolve (s_rulesets e) (mk_game_name (pn_key p)) (mk_ruleset_id (pn_key p)) \<noteq> None")
    case False
    then show ?thesis by (auto simp: form_match_def s0_def [symmetric] hub0 Let_def split: option.split)
  next
    case True
    then show ?thesis
      by (auto simp: form_match_def s0_def [symmetric] hub0 Let_def not_le two match_lobby_def)
  qed
qed

lemma side_record_answer: "side (record_answer player a q) p = side q p"
  by (simp add: side_def record_answer_def split: option.split bool.split)

lemma answer_for_side:
  assumes "answer_for p a mid g = (g', Some offer)"
  shows "side offer p \<noteq> None"
proof (cases "position (\<lambda>q. side q p \<noteq> None) (pending g)")
  case None
  then show ?thesis using assms by (simp add: answer_for_def)
next
  case (Some i)
  note position_Some [OF Some]
  then have "side (pending g ! i) p \<noteq> None" by simp
  moreover have "offer = record_answer p a (pending g ! i)"
    using assms unfolding answer_for_def Some by (simp add: Let_def split: option.split_asm if_split_asm)
  ultimately show ?thesis by (simp add: side_record_answer)
qed

lemma accept_step:
  assumes exp: "\<And>offer. accepted_offer p msg s = Some offer \<Longrightarrow> both_yes offer \<Longrightarrow> match_expected e offer s"
  shows "hub_step (sv_hub s) p (sv_hub (handle_automatch_accept e p msg s))"
proof -
  let ?yes = "unwrap_or (m_accept msg) False"
  define s1 where "s1 = send p (JObj [(''op'', JStr ''automatch_accept_ok''), (''ok'', JBool True), (''accept'', JBool ?yes)]) s"
  have s1: "sv_queue s1 = sv_queue s" "home (sv_hub s1) = home (sv_hub s)" by (simp_all add: s1_def) (simp add: send_def on_hub_def)
  obtain q out where a: "answer_for p ?yes (m_match msg) (sv_queue s) = (q, out)" by force
  show ?thesis
  proof (cases "\<exists>offer. out = Some offer \<and> both_yes offer")
    case False
    then have "home (sv_hub (handle_automatch_accept e p msg s)) = home (sv_hub s1)"
      unfolding handle_automatch_accept_def s1_def [symmetric] Let_def s1(1) a by (cases out) simp_all
    then show ?thesis by (intro hub_step_idle) (simp only: s1(2))
  next
    case True
    then obtain offer where o: "out = Some offer" "both_yes offer" by blast
    have "accepted_offer p msg s = Some offer" by (simp add: accepted_offer_def a o)
    then have m: "match_expected e offer s" using exp o(2) by blast
    have side: "p = tk_player (pn_a offer) \<or> p = tk_player (pn_b offer)"
      using answer_for_side [OF a [unfolded o(1)]] by (auto simp: side_def split: if_splits)
    have "handle_automatch_accept e p msg s = form_match e offer (s1\<lparr> sv_queue := q \<rparr>)"
      unfolding handle_automatch_accept_def s1_def [symmetric] Let_def s1(1) a using o by simp
    then consider "home (sv_hub (handle_automatch_accept e p msg s)) = home (sv_hub s)"
      | "home (sv_hub (handle_automatch_accept e p msg s)) =
          (home (sv_hub s))(tk_player (pn_a offer) \<mapsto> e_uuid (s_hub e) 0, tk_player (pn_b offer) \<mapsto> e_uuid (s_hub e) 0)"
      using home_form_match [of e offer "s1\<lparr> sv_queue := q \<rparr>"] by (simp add: s1(2)) blast
    then show ?thesis
    proof cases
      case 2
      show ?thesis unfolding 2
        by (rule room_step.paired [where m = "home (sv_hub s)"]) (use m side in \<open>simp_all add: match_expected_def\<close>)
    qed (rule hub_step_idle)
  qed
qed

subsection \<open>The simulation\<close>

lemma handlers_step:
  assumes ok: "server_ok s" and f: "(m_op msg, f) \<in> set (handlers e p ip msg)" "f s = Inr s'"
    and al: "client (sv_hub s) p \<noteq> None"
      "m_op msg = ''automatch_accept'' \<Longrightarrow> (\<And>offer. accepted_offer p msg s = Some offer \<Longrightarrow> both_yes offer \<Longrightarrow> match_expected e offer s)"
  shows "hub_step (sv_hub s) p (sv_hub s')"
proof -
  have hub: "hub_ok (sv_hub s)" using ok by (simp add: server_ok_def)
  have left: "hub_step (sv_hub s) p (handle_leave (s_hub e) p (sv_hub s))"
    using leave_step [OF hub] by (simp add: handle_leave_def)
  show ?thesis
  proof (cases "m_op msg = ''automatch_accept''")
    case True
    then have "s' = handle_automatch_accept e p msg s" using f by (auto simp: handlers_def Let_def)
    then show ?thesis using accept_step [OF al(2) [OF True]] by simp
  next
    case False
    then show ?thesis using f(1) f(2)
      unfolding handlers_def Let_def set_simps
      by (elim insertE; (elim Pair_inject)?; (simp only: hub_result_Inr)?)
        (auto simp: home_room_handlers home_start home_chat home_server_chat home_probe home_talk home_hello home_automatch_handlers
          create_step [OF al(1)] left close_step [OF hub] idle
          dest: join_step [OF al(1)] kick_step [OF hub] home_signal home_mod_signal)
  qed
qed




end
