(* ===== verification/Rooms.thy ===== *)
theory Rooms
  imports Rust_Text
begin

text \<open>
  The HTTP room registry (\<^verbatim>\<open>src/rooms.rs\<close>).  A registry is a hash map from room ids to
  rooms; every operation of \<^verbatim>\<open>RoomRegistry\<close> is a function on it that returns the new map
  with the operation's result.  Ids and random draws are arguments, timestamps are whole
  nanoseconds and the clock reading is an argument.
\<close>

subsection \<open>Data\<close>

type_synonym uuid = nat
type_synonym instant = int

datatype RoomStatus = Open | Starting | Running | Closed

record Member =
  m_player_id :: uuid
  local_slot :: nat
  m_ready :: bool
  last_heartbeat :: instant

record RnetBootstrap =
  rb_session_id :: nat
  rb_protocol_magic :: nat
  rb_slot_count :: nat
  rb_input_delay :: nat
  rb_local_slot :: nat
  you_are_sim_authority :: bool

record Room =
  room_id :: uuid
  game_id :: string
  client_version :: string
  r_display_name :: string
  slot_count :: nat
  r_input_delay :: nat
  protocol_magic :: nat
  session_id :: "nat option"
  is_private :: bool
  join_code :: "string option"
  status :: RoomStatus
  host_player_id :: uuid
  members :: "Member list"
  created_at :: instant
  updated_at :: instant

record RoomSummary =
  rs_room_id :: uuid
  rs_game_id :: string
  rs_client_version :: string
  rs_display_name :: string
  rs_slot_count :: nat
  rs_member_count :: nat
  rs_input_delay :: nat
  rs_is_private :: bool
  rs_status :: RoomStatus

datatype RoomError =
    NotFound | Full | NotJoinable | BadJoinCode | GameMismatch | VersionMismatch
  | AlreadyJoined | NotMember | NotHost | BadSlotCount | GameNotAllowed

type_synonym registry = "(uuid, Room) hashmap"

subsection \<open>Operations\<close>

text \<open>\<^verbatim>\<open>generate_join_code\<close>: six draws of the generator, each reduced to a letter.\<close>

definition join_code_alphabet :: string where
  "join_code_alphabet = ''ABCDEFGHJKLMNPQRSTUVWXYZ23456789''"

definition generate_join_code :: "nat list \<Rightarrow> string" where
  "generate_join_code draws =
     map (\<lambda>r. join_code_alphabet ! (r mod length join_code_alphabet)) (take 6 draws)"

definition create ::
    "instant \<Rightarrow> uuid \<Rightarrow> nat list \<Rightarrow> uuid \<Rightarrow> string \<Rightarrow> string \<Rightarrow> string \<Rightarrow> nat \<Rightarrow> nat \<Rightarrow> nat \<Rightarrow> bool
     \<Rightarrow> registry \<Rightarrow> registry \<times> (RoomError + Room)" where
  "create now new_id draws host game ver dname slots delay magic private g =
     (if \<not> (2 \<le> slots \<and> slots \<le> 8) then (g, Inl BadSlotCount)
      else
        let room = \<lparr> room_id = new_id, game_id = game, client_version = ver, r_display_name = dname,
                     slot_count = slots, r_input_delay = delay, protocol_magic = magic,
                     session_id = None, is_private = private,
                     join_code = (if private then Some (generate_join_code draws) else None),
                     status = Open, host_player_id = host,
                     members = [\<lparr> m_player_id = host, local_slot = 0, m_ready = False,
                                   last_heartbeat = now \<rparr>],
                     created_at = now, updated_at = now \<rparr>
        in (AList.update new_id room g, Inr room))"

definition summary_of :: "Room \<Rightarrow> RoomSummary" where
  "summary_of r = \<lparr> rs_room_id = room_id r, rs_game_id = game_id r, rs_client_version = client_version r,
     rs_display_name = r_display_name r, rs_slot_count = slot_count r,
     rs_member_count = length (members r), rs_input_delay = r_input_delay r,
     rs_is_private = is_private r, rs_status = status r \<rparr>"

definition list_public :: "string \<Rightarrow> string option \<Rightarrow> registry \<Rightarrow> RoomSummary list" where
  "list_public game ver g =
     map summary_of (filter (\<lambda>r.
         status r = Open \<and> \<not> is_private r \<and> game_id r = game
       \<and> (case ver of None \<Rightarrow> True | Some v \<Rightarrow> v = client_version r)
       \<and> length (members r) < slot_count r) (vals g))"

definition is_member :: "Room \<Rightarrow> uuid \<Rightarrow> bool" where
  "is_member r p \<longleftrightarrow> list_ex (\<lambda>m. m_player_id m = p) (members r)"

text \<open>\<^verbatim>\<open>(0..room.slot_count).find(|s| !used.contains(s))\<close>.\<close>

definition free_slot :: "Room \<Rightarrow> nat option" where
  "free_slot r = List.find (\<lambda>s. s \<notin> set (map local_slot (members r))) [0..<slot_count r]"

definition join_room :: "instant \<Rightarrow> Room \<Rightarrow> uuid \<Rightarrow> string \<Rightarrow> string \<Rightarrow> string option \<Rightarrow> RoomError + Room" where
  "join_room now r p game ver code =
     (if status r \<noteq> Open then Inl NotJoinable
      else if game_id r \<noteq> game then Inl GameMismatch
      else if client_version r \<noteq> ver then Inl VersionMismatch
      else if is_private r \<and> \<not> (case (join_code r, code) of (Some c, Some d) \<Rightarrow> c = d | _ \<Rightarrow> False)
        then Inl BadJoinCode
      else if is_member r p then Inl AlreadyJoined
      else if length (members r) \<ge> slot_count r then Inl Full
      else case free_slot r of
             None \<Rightarrow> Inl Full
           | Some s \<Rightarrow> Inr (r\<lparr> members := members r @ [\<lparr> m_player_id = p, local_slot = s, m_ready = False,
                                                       last_heartbeat = now \<rparr>],
                              updated_at := now \<rparr>))"

text \<open>The registry operations that work on one room look it up first.\<close>

definition on_room :: "uuid \<Rightarrow> (Room \<Rightarrow> RoomError + Room) \<Rightarrow> registry \<Rightarrow> registry \<times> (RoomError + Room)" where
  "on_room rid f g =
     (case map_of g rid of
        None \<Rightarrow> (g, Inl NotFound)
      | Some r \<Rightarrow> (case f r of Inl e \<Rightarrow> (g, Inl e) | Inr r' \<Rightarrow> (AList.update rid r' g, Inr r')))"

definition join :: "instant \<Rightarrow> uuid \<Rightarrow> uuid \<Rightarrow> string \<Rightarrow> string \<Rightarrow> string option \<Rightarrow> registry
    \<Rightarrow> registry \<times> (RoomError + Room)" where
  "join now rid p game ver code = on_room rid (\<lambda>r. join_room now r p game ver code)"

definition leave_room :: "instant \<Rightarrow> Room \<Rightarrow> uuid \<Rightarrow> Room" where
  "leave_room now r p =
     (let r1 = r\<lparr> members := map (m_ready_update (\<lambda>_. False)) (filter (\<lambda>m. m_player_id m \<noteq> p) (members r)),
                  updated_at := now \<rparr>
      in if status r1 = Starting then r1\<lparr> status := Open, session_id := None \<rparr> else r1)"

definition leave :: "instant \<Rightarrow> uuid \<Rightarrow> uuid \<Rightarrow> registry \<Rightarrow> registry \<times> (RoomError + Room)" where
  "leave now rid p g =
     (case map_of g rid of
        None \<Rightarrow> (g, Inl NotFound)
      | Some r \<Rightarrow>
          if \<not> is_member r p then (g, Inl NotMember)
          else if host_player_id r = p then (AList.delete rid g, Inr (r\<lparr> status := Closed \<rparr>))
          else (AList.update rid (leave_room now r p) g, Inr (leave_room now r p)))"

text \<open>\<^verbatim>\<open>members.iter_mut().find(|m| m.player_id == player_id)\<close>: the first match is changed.\<close>

fun update_member :: "uuid \<Rightarrow> (Member \<Rightarrow> Member) \<Rightarrow> Member list \<Rightarrow> Member list" where
  "update_member p f [] = []"
| "update_member p f (m # ms) = (if m_player_id m = p then f m # ms else m # update_member p f ms)"

definition all_ready :: "Room \<Rightarrow> bool" where
  "all_ready r \<longleftrightarrow> length (members r) = slot_count r \<and> list_all m_ready (members r)"

definition set_ready_room :: "instant \<Rightarrow> nat \<Rightarrow> uuid \<Rightarrow> bool \<Rightarrow> Room \<Rightarrow> RoomError + Room" where
  "set_ready_room now rnd p ready r =
     (if status r \<noteq> Open \<and> status r \<noteq> Starting then Inl NotJoinable
      else if \<not> is_member r p then Inl NotMember
      else
        let r1 = r\<lparr> members := update_member p (\<lambda>m. m\<lparr> m_ready := ready, last_heartbeat := now \<rparr>) (members r),
                    updated_at := now \<rparr>
        in Inr (if all_ready r1
                then r1\<lparr> session_id := (case session_id r1 of None \<Rightarrow> Some rnd | Some s \<Rightarrow> Some s),
                         status := Starting \<rparr>
                else if status r1 = Starting then r1\<lparr> status := Open, session_id := None \<rparr>
                else r1))"

definition set_ready :: "instant \<Rightarrow> nat \<Rightarrow> uuid \<Rightarrow> uuid \<Rightarrow> bool \<Rightarrow> registry \<Rightarrow> registry \<times> (RoomError + Room)" where
  "set_ready now rnd rid p ready = on_room rid (set_ready_room now rnd p ready)"

definition heartbeat_room :: "instant \<Rightarrow> uuid \<Rightarrow> Room \<Rightarrow> RoomError + Room" where
  "heartbeat_room now p r =
     (if \<not> is_member r p then Inl NotMember
      else Inr (r\<lparr> members := update_member p (\<lambda>m. m\<lparr> last_heartbeat := now \<rparr>) (members r),
                   updated_at := now \<rparr>))"

definition heartbeat :: "instant \<Rightarrow> uuid \<Rightarrow> uuid \<Rightarrow> registry \<Rightarrow> registry \<times> (RoomError + Room)" where
  "heartbeat now rid p = on_room rid (heartbeat_room now p)"

definition mark_running_room :: "instant \<Rightarrow> uuid \<Rightarrow> Room \<Rightarrow> RoomError + Room" where
  "mark_running_room now p r =
     (if host_player_id r \<noteq> p then Inl NotHost
      else if status r \<noteq> Starting then Inl NotJoinable
      else Inr (r\<lparr> status := Running, updated_at := now \<rparr>))"

definition mark_running :: "instant \<Rightarrow> uuid \<Rightarrow> uuid \<Rightarrow> registry \<Rightarrow> registry \<times> (RoomError + Room)" where
  "mark_running now rid p = on_room rid (mark_running_room now p)"

definition bootstrap_for :: "Room \<Rightarrow> uuid \<Rightarrow> RnetBootstrap option" where
  "bootstrap_for r p =
     (case session_id r of
        None \<Rightarrow> None
      | Some sid \<Rightarrow>
          (case List.find (\<lambda>m. m_player_id m = p) (members r) of
             None \<Rightarrow> None
           | Some m \<Rightarrow> Some \<lparr> rb_session_id = sid, rb_protocol_magic = protocol_magic r,
                              rb_slot_count = slot_count r, rb_input_delay = r_input_delay r,
                              rb_local_slot = local_slot m,
                              you_are_sim_authority = (local_slot m = 0) \<rparr>))"

text \<open>\<^verbatim>\<open>purge_stale\<close>: stale members are dropped from every room, then rooms that are empty,
  idle or without their host are removed.\<close>

definition purge_members :: "instant \<Rightarrow> int \<Rightarrow> Room \<Rightarrow> Room" where
  "purge_members now hb r = r\<lparr> members := filter (\<lambda>m. now - last_heartbeat m \<le> hb) (members r) \<rparr>"

definition purge_removes :: "instant \<Rightarrow> int \<Rightarrow> Room \<Rightarrow> bool" where
  "purge_removes now idle r \<longleftrightarrow>
     members r = [] \<or> now - updated_at r > idle \<or> \<not> is_member r (host_player_id r)"

definition nanos_per_sec :: int where
  "nanos_per_sec = 1000000000"

definition purge_stale :: "instant \<Rightarrow> int \<Rightarrow> int \<Rightarrow> registry \<Rightarrow> registry" where
  "purge_stale now heartbeat_timeout_secs idle_secs g =
     (let hb = heartbeat_timeout_secs * nanos_per_sec; idle = idle_secs * nanos_per_sec
      in filter (\<lambda>(rid, r). \<not> purge_removes now idle r)
           (map (\<lambda>(rid, r). (rid, purge_members now hb r)) g))"

definition member_ids :: "uuid \<Rightarrow> registry \<Rightarrow> uuid list" where
  "member_ids rid g = (case map_of g rid of None \<Rightarrow> [] | Some r \<Rightarrow> map m_player_id (members r))"

definition running_count :: "registry \<Rightarrow> nat" where
  "running_count g = length (filter (\<lambda>r. status r = Running) (vals g))"

definition count_game :: "string \<Rightarrow> (string, nat) hashmap \<Rightarrow> (string, nat) hashmap" where
  "count_game k m = AList.update k (unwrap_or (map_of m k) 0 + 1) m"

definition counts_by_game :: "registry \<Rightarrow> (string, nat) hashmap" where
  "counts_by_game g = foldl (\<lambda>out r. count_game (game_id r) out) [] (vals g)"

definition running_counts_by_game :: "registry \<Rightarrow> (string, nat) hashmap" where
  "running_counts_by_game g =
     foldl (\<lambda>out r. count_game (game_id r) out) [] (filter (\<lambda>r. status r = Running) (vals g))"

text \<open>\<^verbatim>\<open>metrics::room_error_code\<close> and the HTTP status of \<^verbatim>\<open>From<RoomError> for ApiError\<close>.\<close>

fun room_error_code :: "RoomError \<Rightarrow> string" where
  "room_error_code NotFound = ''not_found''"
| "room_error_code Full = ''full''"
| "room_error_code NotJoinable = ''not_joinable''"
| "room_error_code BadJoinCode = ''bad_join_code''"
| "room_error_code GameMismatch = ''game_mismatch''"
| "room_error_code VersionMismatch = ''version_mismatch''"
| "room_error_code AlreadyJoined = ''already_joined''"
| "room_error_code NotMember = ''not_member''"
| "room_error_code NotHost = ''not_host''"
| "room_error_code BadSlotCount = ''bad_slot_count''"
| "room_error_code GameNotAllowed = ''game_not_allowed''"

fun http_status :: "RoomError \<Rightarrow> nat" where
  "http_status NotFound = 404"
| "http_status Full = 409"
| "http_status NotJoinable = 409"
| "http_status BadJoinCode = 403"
| "http_status GameMismatch = 409"
| "http_status VersionMismatch = 409"
| "http_status AlreadyJoined = 409"
| "http_status NotMember = 403"
| "http_status NotHost = 403"
| "http_status BadSlotCount = 400"
| "http_status GameNotAllowed = 400"


subsection \<open>The invariant of a room\<close>

text \<open>
  Every room in the registry has two to eight slots, members with distinct ids in distinct
  slots below the slot count, the host among them in slot 0, and a session id exactly when it
  is no longer open.  \<open>ready_barrier\<close> is the part the readiness handlers maintain: a room
  that is starting is full and everybody in it is ready.
\<close>

definition room_inv :: "Room \<Rightarrow> bool" where
  "room_inv r \<longleftrightarrow>
     2 \<le> slot_count r \<and> slot_count r \<le> 8 \<and>
     distinct (map m_player_id (members r)) \<and>
     distinct (map local_slot (members r)) \<and>
     (\<forall>m \<in> set (members r). local_slot m < slot_count r) \<and>
     (\<exists>m \<in> set (members r). m_player_id m = host_player_id r \<and> local_slot m = 0) \<and>
     status r \<noteq> Closed \<and> (session_id r = None \<longleftrightarrow> status r = Open)"

definition ready_barrier :: "Room \<Rightarrow> bool" where
  "ready_barrier r \<longleftrightarrow> (status r = Starting \<longrightarrow> all_ready r)"

lemma is_member_iff: "is_member r p \<longleftrightarrow> p \<in> m_player_id ` set (members r)"
  by (auto simp: is_member_def list_ex_iff)

lemma update_member_map [simp]:
  "(\<And>m. m_player_id (f m) = m_player_id m) \<Longrightarrow> map m_player_id (update_member p f ms) = map m_player_id ms"
  "(\<And>m. local_slot (f m) = local_slot m) \<Longrightarrow> map local_slot (update_member p f ms) = map local_slot ms"
  by (induction ms) auto

lemma update_member_image:
  assumes "\<And>m. m_player_id (f m) = m_player_id m" "\<And>m. local_slot (f m) = local_slot m"
  shows "(\<lambda>m. (m_player_id m, local_slot m)) ` set (update_member p f ms)
       = (\<lambda>m. (m_player_id m, local_slot m)) ` set ms"
  using assms by (induction ms) auto

lemma room_inv_members:
  "room_inv r \<longleftrightarrow>
     2 \<le> slot_count r \<and> slot_count r \<le> 8 \<and>
     distinct (map m_player_id (members r)) \<and> distinct (map local_slot (members r)) \<and>
     (\<forall>(p, s) \<in> (\<lambda>m. (m_player_id m, local_slot m)) ` set (members r). s < slot_count r) \<and>
     (host_player_id r, 0) \<in> (\<lambda>m. (m_player_id m, local_slot m)) ` set (members r) \<and>
     status r \<noteq> Closed \<and> (session_id r = None \<longleftrightarrow> status r = Open)"
  by (force simp: room_inv_def)

lemma room_inv_update_member:
  assumes "room_inv r" "\<And>m. m_player_id (f m) = m_player_id m" "\<And>m. local_slot (f m) = local_slot m"
  shows "room_inv (r\<lparr> members := update_member p f (members r), updated_at := t \<rparr>)"
  using assms by (simp add: room_inv_members update_member_image)

lemma room_inv_length:
  assumes "room_inv r" shows "length (members r) \<le> slot_count r"
proof -
  have "length (members r) = card (set (map local_slot (members r)))"
    using assms by (metis distinct_card length_map room_inv_def)
  also have "\<dots> \<le> card {..<slot_count r}"
    using assms by (intro card_mono) (auto simp: room_inv_def)
  finally show ?thesis by simp
qed

lemma free_slot_Some:
  "free_slot r = Some s \<longleftrightarrow>
     s < slot_count r \<and> s \<notin> local_slot ` set (members r) \<and> (\<forall>t < s. t \<in> local_slot ` set (members r))"
proof
  assume "free_slot r = Some s"
  then show "s < slot_count r \<and> s \<notin> local_slot ` set (members r) \<and> (\<forall>t < s. t \<in> local_slot ` set (members r))"
    by (auto simp: free_slot_def find_Some_iff)
next
  assume "s < slot_count r \<and> s \<notin> local_slot ` set (members r) \<and> (\<forall>t < s. t \<in> local_slot ` set (members r))"
  then show "free_slot r = Some s"
    unfolding free_slot_def find_Some_iff by (intro exI [of _ s]) auto
qed

lemma free_slot_exists:
  assumes "length (members r) < slot_count r"
  shows "\<exists>s. free_slot r = Some s"
proof (rule ccontr)
  assume "\<not> ?thesis"
  then have "{..<slot_count r} \<subseteq> set (map local_slot (members r))"
    by (auto simp: free_slot_def find_None_iff)
  then have "card {..<slot_count r} \<le> card (set (map local_slot (members r)))"
    by (rule card_mono [rotated]) simp
  also have "\<dots> \<le> length (members r)" using card_length [of "map local_slot (members r)"] by simp
  finally show False using assms by simp
qed

text \<open>The \<^verbatim>\<open>ok_or(RoomError::Full)\<close> after the slot search is never reached.\<close>

lemma join_room_Inr:
  "join_room now r p game ver code = Inr r' \<longleftrightarrow>
     status r = Open \<and> game_id r = game \<and> client_version r = ver \<and>
     (is_private r \<longrightarrow> (\<exists>c. join_code r = Some c \<and> code = Some c)) \<and>
     \<not> is_member r p \<and> length (members r) < slot_count r \<and>
     (\<exists>s. free_slot r = Some s \<and>
        r' = r\<lparr> members := members r @ [\<lparr> m_player_id = p, local_slot = s, m_ready = False,
                                          last_heartbeat = now \<rparr>], updated_at := now \<rparr>)"
  using free_slot_exists [of r]
  by (auto simp: join_room_def split: option.splits if_splits)

lemma join_room_inv:
  assumes "room_inv r" "join_room now r p game ver code = Inr r'"
  shows "room_inv r'"
  using assms by (auto simp: join_room_Inr free_slot_Some is_member_iff room_inv_def)

lemma leave_room_inv:
  assumes "room_inv r" "p \<noteq> host_player_id r"
  shows "room_inv (leave_room now r p)"
  using assms
  by (auto simp: leave_room_def room_inv_def Let_def distinct_map_filter o_def
           intro: distinct_map_filter)

lemma set_ready_room_inv:
  assumes "room_inv r" "set_ready_room now rnd p ready r = Inr r'"
  shows "room_inv r'"
proof -
  let ?r1 = "r\<lparr> members := update_member p (\<lambda>m. m\<lparr> m_ready := ready, last_heartbeat := now \<rparr>) (members r),
                updated_at := now \<rparr>"
  have "room_inv ?r1" using assms(1) by (rule room_inv_update_member) auto
  then show ?thesis using assms(2)
    by (auto simp: set_ready_room_def Let_def room_inv_def split: if_splits option.splits)
qed

lemma heartbeat_room_inv:
  "room_inv r \<Longrightarrow> heartbeat_room now p r = Inr r' \<Longrightarrow> room_inv r'"
  using room_inv_update_member [of r "\<lambda>m. m\<lparr> last_heartbeat := now \<rparr>"]
  by (auto simp: heartbeat_room_def split: if_splits)

lemma mark_running_room_inv:
  "room_inv r \<Longrightarrow> mark_running_room now p r = Inr r' \<Longrightarrow> room_inv r'"
  by (auto simp: mark_running_room_def room_inv_def split: if_splits)

lemma purge_members_inv:
  assumes "room_inv r" "\<not> purge_removes now idle (purge_members now hb r)"
  shows "room_inv (purge_members now hb r)"
proof -
  let ?r = "purge_members now hb r"
  have sub: "set (members ?r) \<subseteq> set (members r)" by (auto simp: purge_members_def)
  have host: "host_player_id ?r \<in> m_player_id ` set (members ?r)"
    using assms(2) by (simp add: purge_removes_def is_member_iff)
  have "\<exists>m \<in> set (members ?r). m_player_id m = host_player_id ?r \<and> local_slot m = 0"
  proof -
    from host obtain m where m: "m \<in> set (members ?r)" "m_player_id m = host_player_id ?r" by auto
    from assms(1) obtain h where h: "h \<in> set (members r)" "m_player_id h = host_player_id r" "local_slot h = 0"
      by (auto simp: room_inv_def)
    have "inj_on m_player_id (set (members r))"
      using assms(1) by (simp add: room_inv_def distinct_map)
    then have "m = h" using m h sub by (auto simp: purge_members_def inj_on_def)
    then show ?thesis using m h by auto
  qed
  then show ?thesis using assms(1) sub
    by (auto simp: room_inv_def purge_members_def intro: distinct_map_filter)
qed

subsection \<open>Room operations as an interface\<close>

text \<open>
  The operations that look a room up and replace it share one contract: they keep the room
  invariant.  The registry lemma is proved once from it.
\<close>

definition registry_inv :: "registry \<Rightarrow> bool" where
  "registry_inv g \<longleftrightarrow> distinct (map fst g) \<and> (\<forall>rid r. map_of g rid = Some r \<longrightarrow> room_inv r)"

locale room_operation =
  fixes f :: "Room \<Rightarrow> RoomError + Room"
  assumes keeps_inv: "room_inv r \<Longrightarrow> f r = Inr r' \<Longrightarrow> room_inv r'"
begin

lemma on_room_inv: "registry_inv g \<Longrightarrow> registry_inv (fst (on_room rid f g))"
  by (auto simp: registry_inv_def on_room_def split: option.splits sum.splits if_splits)
    (blast intro: keeps_inv)

lemma on_room_result_inv:
  "registry_inv g \<Longrightarrow> snd (on_room rid f g) = Inr r \<Longrightarrow> room_inv r"
  by (auto simp: registry_inv_def on_room_def split: option.splits sum.splits)
    (blast intro: keeps_inv)

end

interpretation join_op: room_operation "\<lambda>r. join_room now r p game ver code" for now p game ver code
  by unfold_locales (rule join_room_inv)

interpretation ready_op: room_operation "set_ready_room now rnd p ready" for now rnd p ready
  by unfold_locales (rule set_ready_room_inv)

interpretation heartbeat_op: room_operation "heartbeat_room now p" for now p
  by unfold_locales (rule heartbeat_room_inv)

interpretation running_op: room_operation "mark_running_room now p" for now p
  by unfold_locales (rule mark_running_room_inv)

subsection \<open>Reachable registries\<close>

inductive handler_step :: "registry \<Rightarrow> registry \<Rightarrow> bool" where
  step_create: "map_of g new_id = None \<Longrightarrow>
    handler_step g (fst (create now new_id draws host game ver dname slots delay magic private g))"
| step_join: "handler_step g (fst (join now rid p game ver code g))"
| step_leave: "handler_step g (fst (leave now rid p g))"
| step_ready: "handler_step g (fst (set_ready now rnd rid p ready g))"
| step_heartbeat: "handler_step g (fst (heartbeat now rid p g))"
| step_running: "handler_step g (fst (mark_running now rid p g))"

text \<open>The requests of clients, and the background purge.\<close>

inductive registry_step :: "registry \<Rightarrow> registry \<Rightarrow> bool" where
  step_handler: "handler_step g g' \<Longrightarrow> registry_step g g'"
| step_purge: "registry_step g (purge_stale now hb idle g)"

inductive registry_reachable :: "registry \<Rightarrow> bool" where
  reach_empty: "registry_reachable []"
| reach_step: "registry_reachable g \<Longrightarrow> registry_step g g' \<Longrightarrow> registry_reachable g'"

text \<open>The states reached by requests alone.\<close>

inductive handlers_reachable :: "registry \<Rightarrow> bool" where
  handlers_empty: "handlers_reachable []"
| handlers_step: "handlers_reachable g \<Longrightarrow> handler_step g g' \<Longrightarrow> handlers_reachable g'"

inductive_cases handler_stepE: "handler_step g g'"

lemma registry_inv_create:
  "registry_inv g \<Longrightarrow> registry_inv (fst (create now new_id draws host game ver dname slots delay magic private g))"
  by (auto simp: create_def registry_inv_def room_inv_def Let_def)

lemma registry_inv_leave:
  assumes "registry_inv g" shows "registry_inv (fst (leave now rid p g))"
  using assms leave_room_inv [of _ p now]
  by (auto simp: leave_def registry_inv_def split: option.splits if_splits)

lemma map_of_purge_stale:
  assumes "distinct (map fst g)"
  shows "map_of (purge_stale now hbs idles g) rid =
    filter_option (\<lambda>r. \<not> purge_removes now (idles * nanos_per_sec) r)
      (map_option (purge_members now (hbs * nanos_per_sec)) (map_of g rid))"
proof -
  let ?g = "map (\<lambda>(rid, r). (rid, purge_members now (hbs * nanos_per_sec) r)) g"
  have fst: "map fst ?g = map fst g" by (auto simp: o_def split_def)
  have "map_of (purge_stale now hbs idles g) rid
      = filter_option (\<lambda>r. \<not> purge_removes now (idles * nanos_per_sec) r) (map_of ?g rid)"
    unfolding purge_stale_def Let_def
    by (rule map_of_filter_key [where P = "\<lambda>_ r. \<not> purge_removes now (idles * nanos_per_sec) r"])
      (use assms fst in \<open>simp only: fst\<close>)
  then show ?thesis by (simp add: map_of_map)
qed

lemma registry_inv_purge:
  assumes "registry_inv g" shows "registry_inv (purge_stale now hbs idles g)"
proof -
  have d: "distinct (map fst g)" using assms by (simp add: registry_inv_def)
  have "distinct (map fst (purge_stale now hbs idles g))"
    unfolding purge_stale_def Let_def
    by (rule distinct_keys_filter) (use d in \<open>simp add: o_def split_def\<close>)
  moreover have "room_inv r" if "map_of (purge_stale now hbs idles g) rid = Some r" for rid r
    using that assms by (auto simp: map_of_purge_stale [OF d] registry_inv_def intro: purge_members_inv)
  ultimately show ?thesis by (simp add: registry_inv_def)
qed

lemma handler_step_inv: "handler_step g g' \<Longrightarrow> registry_inv g \<Longrightarrow> registry_inv g'"
proof (induction rule: handler_step.induct)
  case step_join
  then show ?case unfolding join_def by (rule join_op.on_room_inv)
next
  case step_ready
  then show ?case unfolding set_ready_def by (rule ready_op.on_room_inv)
next
  case step_heartbeat
  then show ?case unfolding heartbeat_def by (rule heartbeat_op.on_room_inv)
next
  case step_running
  then show ?case unfolding mark_running_def by (rule running_op.on_room_inv)
qed (simp_all only: registry_inv_create registry_inv_leave)

lemma registry_step_inv: "registry_step g g' \<Longrightarrow> registry_inv g \<Longrightarrow> registry_inv g'"
  by (induction rule: registry_step.induct) (auto intro: handler_step_inv registry_inv_purge)

lemma registry_reachable_inv: "registry_reachable g \<Longrightarrow> registry_inv g"
  by (induction rule: registry_reachable.induct)
    (simp add: registry_inv_def, blast intro: registry_step_inv)

lemma handlers_reachable_registry: "handlers_reachable g \<Longrightarrow> registry_reachable g"
  by (induction rule: handlers_reachable.induct) (auto intro: registry_reachable.intros step_handler)

lemma reachable_room_inv: "registry_reachable g \<Longrightarrow> map_of g rid = Some r \<Longrightarrow> room_inv r"
  using registry_reachable_inv by (auto simp: registry_inv_def)

subsection \<open>The readiness barrier\<close>

definition barrier_ok :: "registry \<Rightarrow> bool" where
  "barrier_ok g \<longleftrightarrow> (\<forall>rid r. map_of g rid = Some r \<longrightarrow> ready_barrier r)"

lemma update_member_id: "is_member r p \<Longrightarrow> length (update_member p f ms) = length ms"
  by (induction ms) auto

lemma list_all_ready_update:
  assumes "\<And>m. m_ready (f m) = m_ready m"
  shows "list_all m_ready (update_member p f ms) = list_all m_ready ms"
  using assms by (induction ms) auto

lemma length_update_member [simp]: "length (update_member p f ms) = length ms"
  by (induction ms) auto

lemma barrier_on_room:
  assumes "barrier_ok g" "\<And>r r'. ready_barrier r \<Longrightarrow> f r = Inr r' \<Longrightarrow> ready_barrier r'"
  shows "barrier_ok (fst (on_room rid f g))"
  using assms(1)
  by (simp add: barrier_ok_def on_room_def split: option.splits sum.splits) (blast intro: assms(2))

lemma ready_barrier_join: "join_room now r p game ver code = Inr r' \<Longrightarrow> ready_barrier r'"
  by (auto simp: join_room_Inr ready_barrier_def)

lemma ready_barrier_set_ready: "set_ready_room now rnd p ready r = Inr r' \<Longrightarrow> ready_barrier r'"
  by (auto simp: set_ready_room_def ready_barrier_def all_ready_def Let_def split: if_splits option.splits)

lemma ready_barrier_heartbeat:
  "ready_barrier r \<Longrightarrow> heartbeat_room now p r = Inr r' \<Longrightarrow> ready_barrier r'"
  by (auto simp: heartbeat_room_def ready_barrier_def all_ready_def list_all_ready_update split: if_splits)

lemma ready_barrier_running: "mark_running_room now p r = Inr r' \<Longrightarrow> ready_barrier r'"
  by (auto simp: mark_running_room_def ready_barrier_def split: if_splits)

lemma ready_barrier_leave: "ready_barrier (leave_room now r p)"
  by (auto simp: leave_room_def ready_barrier_def Let_def)

lemma handler_step_barrier: "handler_step g g' \<Longrightarrow> barrier_ok g \<Longrightarrow> barrier_ok g'"
proof (induction rule: handler_step.induct)
  case step_create
  then show ?case by (auto simp: create_def barrier_ok_def ready_barrier_def Let_def)
next
  case step_leave
  then show ?case
    by (auto simp: leave_def barrier_ok_def ready_barrier_leave split: option.splits)
qed (auto simp: join_def set_ready_def heartbeat_def mark_running_def intro!: barrier_on_room
       dest: ready_barrier_join ready_barrier_set_ready ready_barrier_running ready_barrier_heartbeat)

lemma handlers_reachable_barrier: "handlers_reachable g \<Longrightarrow> barrier_ok g"
  by (induction rule: handlers_reachable.induct)
    (simp add: barrier_ok_def, blast intro: handler_step_barrier)

subsection \<open>Results of the operations\<close>

lemma on_room_Inr:
  "snd (on_room rid f g) = Inr r' \<and> fst (on_room rid f g) = g' \<longleftrightarrow>
   (\<exists>r. map_of g rid = Some r \<and> f r = Inr r' \<and> g' = AList.update rid r' g)"
  by (auto simp: on_room_def split: option.splits sum.splits)

lemma bootstrap_for_Some:
  assumes "bootstrap_for r p = Some b"
  obtains m sid where "m \<in> set (members r)" "m_player_id m = p" "session_id r = Some sid"
    "b = \<lparr> rb_session_id = sid, rb_protocol_magic = protocol_magic r, rb_slot_count = slot_count r,
          rb_input_delay = r_input_delay r, rb_local_slot = local_slot m,
          you_are_sim_authority = (local_slot m = 0) \<rparr>"
proof -
  from assms obtain sid m where "session_id r = Some sid"
      "List.find (\<lambda>m. m_player_id m = p) (members r) = Some m"
    by (auto simp: bootstrap_for_def split: option.splits)
  moreover from this(2) have "m \<in> set (members r)" "m_player_id m = p"
    by (auto simp: find_Some_iff)
  ultimately show ?thesis using assms that by (auto simp: bootstrap_for_def)
qed

subsection \<open>Properties\<close>

text \<open>A two-player room brought to the start by its four requests.\<close>

definition demo_registry :: registry where
  "demo_registry =
     fst (set_ready 4 77 10 2 True (fst (set_ready 3 77 10 1 True
       (fst (join 2 10 2 ''g'' ''1'' None
         (fst (create 1 10 [] 1 ''g'' ''1'' ''lobby'' 2 2 0 False [])))))))"

lemma demo_registry_handlers: "handlers_reachable demo_registry"
  unfolding demo_registry_def
  by (intro handlers_step [OF _ step_ready] handlers_step [OF _ step_join]
        handlers_step [OF handlers_empty step_create]) simp

lemma demo_registry_reachable: "registry_reachable demo_registry"
  by (rule handlers_reachable_registry [OF demo_registry_handlers])

definition demo_room :: Room where
  "demo_room = \<lparr> room_id = 10, game_id = ''g'', client_version = ''1'', r_display_name = ''lobby'',
     slot_count = 2, r_input_delay = 2, protocol_magic = 0, session_id = Some 77, is_private = False,
     join_code = None, status = Starting, host_player_id = 1,
     members = [\<lparr> m_player_id = 1, local_slot = 0, m_ready = True, last_heartbeat = 3 \<rparr>,
                \<lparr> m_player_id = 2, local_slot = 1, m_ready = True, last_heartbeat = 4 \<rparr>],
     created_at = 1, updated_at = 4 \<rparr>"

lemma demo_registry_eq: "demo_registry = [(10, demo_room)]"
  by (simp add: demo_registry_def demo_room_def create_def join_def on_room_def join_room_def is_member_def free_slot_def
      set_ready_def set_ready_room_def all_ready_def Let_def upt_rec)

text \<open>
  C9: In every registry that any sequence of requests and purges can produce, each room is well
  formed: two to eight slots, no player seated twice, no slot used twice, every slot below the
  slot count, the host present in slot 0, and a session id exactly when the room has left the
  open state.
\<close>
theorem reachable_rooms_wellformed:
  assumes "registry_reachable g" and "map_of g rid = Some r"
  shows "room_inv r"
  by (rule reachable_room_inv [OF assms])

theorem reachable_rooms_wellformed_witness: "room_inv demo_room"
  by (rule reachable_rooms_wellformed [OF demo_registry_reachable, of 10]) (simp add: demo_registry_eq)

text \<open>
  C17: The bootstraps of a room agree and name one simulation authority: two members of a
  reachable room get the same session id and protocol magic and different slots, and the member
  told to be the authority is the host.
\<close>
theorem bootstraps_agree_on_one_authority:
  assumes "registry_reachable g" and "map_of g rid = Some r"
    and "bootstrap_for r p = Some b" and "bootstrap_for r q = Some c" and "p \<noteq> q"
  shows "rb_session_id b = rb_session_id c \<and> rb_protocol_magic b = rb_protocol_magic c \<and>
         rb_local_slot b \<noteq> rb_local_slot c \<and> rb_local_slot b < rb_slot_count b \<and>
         (you_are_sim_authority b \<longleftrightarrow> p = host_player_id r)"
proof -
  have inv: "room_inv r" by (rule reachable_room_inv [OF assms(1,2)])
  obtain m sid where m: "m \<in> set (members r)" "m_player_id m = p" "rb_local_slot b = local_slot m"
      "you_are_sim_authority b = (local_slot m = 0)" "rb_slot_count b = slot_count r"
    by (rule bootstrap_for_Some [OF assms(3)]) simp
  obtain n where n: "n \<in> set (members r)" "m_player_id n = q" "rb_local_slot c = local_slot n"
    by (rule bootstrap_for_Some [OF assms(4)]) simp
  from inv obtain h where h: "h \<in> set (members r)" "m_player_id h = host_player_id r" "local_slot h = 0"
    by (auto simp: room_inv_def)
  have slots: "inj_on local_slot (set (members r))" and ids: "inj_on m_player_id (set (members r))"
    using inv by (simp_all add: room_inv_def distinct_map)
  have "m \<noteq> n" using m n assms(5) by auto
  then have "local_slot m \<noteq> local_slot n" using slots m(1) n(1) by (auto simp: inj_on_def)
  moreover have "local_slot m = 0 \<longleftrightarrow> p = host_player_id r"
  proof
    assume "local_slot m = 0"
    with h(3) have "m = h" using slots m(1) h(1) by (simp add: inj_on_def)
    with m(2) h(2) show "p = host_player_id r" by simp
  next
    assume "p = host_player_id r"
    with m(2) h(2) have "m = h" using ids m(1) h(1) by (simp add: inj_on_def)
    with h(3) show "local_slot m = 0" by simp
  qed
  moreover have "local_slot m < slot_count r" using inv m(1) by (simp add: room_inv_def)
  moreover have "rb_session_id b = rb_session_id c \<and> rb_protocol_magic b = rb_protocol_magic c"
    using assms(3,4) by (auto elim!: bootstrap_for_Some)
  ultimately show ?thesis using m n by simp
qed

theorem bootstraps_agree_on_one_authority_witness:
  "\<exists>b c. bootstrap_for demo_room 1 = Some b \<and> bootstrap_for demo_room 2 = Some c \<and>
         you_are_sim_authority b \<and> rb_local_slot b \<noteq> rb_local_slot c"
proof -
  have g: "map_of demo_registry 10 = Some demo_room" by (simp add: demo_registry_eq)
  obtain b where b: "bootstrap_for demo_room 1 = Some b" by (simp add: bootstrap_for_def demo_room_def)
  obtain c where c: "bootstrap_for demo_room 2 = Some c" by (simp add: bootstrap_for_def demo_room_def)
  have "host_player_id demo_room = 1" by (simp add: demo_room_def)
  with bootstraps_agree_on_one_authority [OF demo_registry_reachable g b c] b c show ?thesis by simp
qed

text \<open>
  C36: Joining a reachable room succeeds exactly when the room exists, is open, runs the asked
  game and version, its code (if private) was given, the player is not in it and there is room;
  the newcomer then gets the lowest free slot, not ready, everyone else keeps theirs, and no
  other room changes.
\<close>
theorem join_seats_in_lowest_free_slot:
  "snd (join now rid p game ver code g) = Inr r' \<and> fst (join now rid p game ver code g) = g' \<longleftrightarrow>
   (\<exists>r s. map_of g rid = Some r \<and> status r = Open \<and> game_id r = game \<and> client_version r = ver \<and>
      (is_private r \<longrightarrow> (\<exists>c. join_code r = Some c \<and> code = Some c)) \<and>
      p \<notin> m_player_id ` set (members r) \<and> length (members r) < slot_count r \<and>
      s < slot_count r \<and> s \<notin> local_slot ` set (members r) \<and>
      (\<forall>t < s. t \<in> local_slot ` set (members r)) \<and>
      r' = r\<lparr> members := members r @ [\<lparr> m_player_id = p, local_slot = s, m_ready = False,
                                        last_heartbeat = now \<rparr>], updated_at := now \<rparr> \<and>
      g' = AList.update rid r' g)"
  unfolding join_def on_room_Inr join_room_Inr free_slot_Some is_member_iff by blast

theorem join_seats_in_lowest_free_slot_witness:
  "\<exists>r'. snd (join 2 10 2 ''g'' ''1'' None (fst (create 1 10 [] 5 ''g'' ''1'' ''lobby'' 2 2 0 False []))) = Inr r' \<and>
        map local_slot (members r') = [0, 1]"
proof -
  let ?g = "fst (create 1 10 [] 5 ''g'' ''1'' ''lobby'' 2 2 0 False [])"
  obtain r where r: "map_of ?g 10 = Some r" "status r = Open" "game_id r = ''g''" "client_version r = ''1''"
      "\<not> is_private r" "slot_count r = 2" "members r = [\<lparr> m_player_id = 5, local_slot = 0, m_ready = False, last_heartbeat = 1 \<rparr>]"
    by (simp add: create_def Let_def)
  let ?r' = "r\<lparr> members := members r @ [\<lparr> m_player_id = 2, local_slot = 1, m_ready = False,
                                          last_heartbeat = 2 \<rparr>], updated_at := 2 \<rparr>"
  have "snd (join 2 10 2 ''g'' ''1'' None ?g) = Inr ?r' \<and> fst (join 2 10 2 ''g'' ''1'' None ?g) = AList.update 10 ?r' ?g"
    unfolding join_seats_in_lowest_free_slot by (intro exI [of _ r] exI [of _ 1]) (simp add: r)
  then show ?thesis by (intro exI [of _ ?r']) (simp add: r)
qed

text \<open>
  C37: The readiness barrier: in every state reached by requests, a room that is starting is full
  and every member of it is ready.
\<close>
theorem starting_rooms_are_full_and_ready:
  assumes "handlers_reachable g" and "map_of g rid = Some r" and "status r = Starting"
  shows "length (members r) = slot_count r \<and> (\<forall>m \<in> set (members r). m_ready m)"
  using handlers_reachable_barrier [OF assms(1)] assms(2,3)
  by (auto simp: barrier_ok_def ready_barrier_def all_ready_def list_all_iff)

theorem starting_rooms_are_full_and_ready_witness:
  "length (members demo_room) = 2 \<and> list_all m_ready (members demo_room)"
  using starting_rooms_are_full_and_ready [OF demo_registry_handlers, of 10 demo_room]
  by (simp add: demo_registry_eq) (simp add: demo_room_def)

text \<open>
  The purge breaks that barrier: it drops a silent member from a starting room without
  clearing the readiness of the others or the status, and the host can then mark a half-empty
  room as running.
\<close>
theorem purge_leaves_a_half_empty_room_starting:
  "\<exists>g rid r r'. registry_reachable g \<and> map_of g rid = Some r \<and> status r = Starting \<and>
     length (members r) = 1 \<and> slot_count r = 2 \<and>
     snd (mark_running 60000000001 rid (host_player_id r) g) = Inr r' \<and> status r' = Running \<and>
     length (members r') = 1"
proof -
  let ?before = "fst (heartbeat 60000000000 10 1 demo_registry)"
  let ?g = "purge_stale 60000000001 30 600 ?before"
  have "registry_reachable ?before"
    by (rule reach_step [OF demo_registry_reachable step_handler [OF step_heartbeat]])
  then have "registry_reachable ?g" by (rule reach_step [OF _ step_purge])
  moreover have "\<exists>r. map_of ?g 10 = Some r \<and> status r = Starting \<and> length (members r) = 1 \<and>
     slot_count r = 2 \<and> (\<exists>r'. snd (mark_running 60000000001 10 (host_player_id r) ?g) = Inr r' \<and>
     status r' = Running \<and> length (members r') = 1)"
    by (simp add: demo_registry_eq demo_room_def heartbeat_def on_room_def heartbeat_room_def is_member_def
        purge_stale_def purge_members_def purge_removes_def nanos_per_sec_def Let_def
        mark_running_def mark_running_room_def)
  ultimately show ?thesis by blast
qed

end
