(* ===== verification/Signals.thy ===== *)
theory Signals
  imports Rooms Fifo
begin

text \<open>
  The ICE signal mailboxes (\<^verbatim>\<open>src/signal.rs\<close>): one bounded queue of envelopes per player.
\<close>

record SignalEnvelope =
  from_player_id :: uuid
  se_room_id :: uuid
  signal_type :: nat
  se_flag :: nat
  se_text :: string
  se_created_at :: instant

definition MAX_QUEUED_PER_PLAYER :: nat where
  [rust_simps]: "MAX_QUEUED_PER_PLAYER = 64"

type_synonym signal_store = "(uuid, SignalEnvelope list) hashmap"

definition push_queue :: "'a \<Rightarrow> 'a list \<Rightarrow> 'a list" where
  "push_queue msg q = (if length q \<ge> MAX_QUEUED_PER_PLAYER then tl q else q) @ [msg]"

definition mailbox :: "signal_store \<Rightarrow> uuid \<Rightarrow> SignalEnvelope list" where
  "mailbox s p = unwrap_or (map_of s p) []"

definition push_to :: "uuid \<Rightarrow> SignalEnvelope \<Rightarrow> signal_store \<Rightarrow> signal_store" where
  "push_to to msg s = AList.update to (push_queue msg (mailbox s to)) s"

definition drain :: "uuid \<Rightarrow> signal_store \<Rightarrow> signal_store \<times> SignalEnvelope list" where
  "drain p s = (AList.delete p s, mailbox s p)"

definition clear_player :: "uuid \<Rightarrow> signal_store \<Rightarrow> signal_store" where
  "clear_player p s = AList.delete p s"

interpretation mail: bounded_fifo push_queue MAX_QUEUED_PER_PLAYER
  by unfold_locales (simp_all add: push_queue_def MAX_QUEUED_PER_PLAYER_def)

text \<open>Every mailbox holds at most 64 envelopes.\<close>

definition store_inv :: "signal_store \<Rightarrow> bool" where
  "store_inv s \<longleftrightarrow> (\<forall>p. length (mailbox s p) \<le> MAX_QUEUED_PER_PLAYER)"

lemma mailbox_push_to [simp]:
  "mailbox (push_to to msg s) p = (if p = to then push_queue msg (mailbox s to) else mailbox s p)"
  by (simp add: mailbox_def push_to_def)

lemma mailbox_delete [simp]: "mailbox (AList.delete q s) p = (if p = q then [] else mailbox s p)"
  by (simp add: mailbox_def)

lemma store_inv_Nil: "store_inv []"
  by (simp add: store_inv_def mailbox_def)

lemma store_inv_push_to: "store_inv s \<Longrightarrow> store_inv (push_to to msg s)"
  by (simp add: store_inv_def mail.push_bounded)

lemma store_inv_delete: "store_inv s \<Longrightarrow> store_inv (AList.delete p s)"
  by (simp add: store_inv_def)

definition push_many :: "uuid \<Rightarrow> SignalEnvelope list \<Rightarrow> signal_store \<Rightarrow> signal_store" where
  "push_many p msgs s = foldl (\<lambda>s m. push_to p m s) s msgs"

lemma store_inv_push_many: "store_inv s \<Longrightarrow> store_inv (push_many p msgs s)"
  unfolding push_many_def by (induction msgs arbitrary: s) (simp_all add: store_inv_push_to)

lemma mailbox_push_many:
  "mailbox (push_many p msgs s) q = (if q = p then foldl (\<lambda>q x. push_queue x q) (mailbox s p) msgs else mailbox s q)"
  unfolding push_many_def by (induction msgs arbitrary: s) auto

definition push_each :: "uuid list \<Rightarrow> SignalEnvelope \<Rightarrow> signal_store \<Rightarrow> signal_store" where
  "push_each targets msg s = foldl (\<lambda>s t. push_to t msg s) s targets"

lemma store_inv_push_each: "store_inv s \<Longrightarrow> store_inv (push_each ts msg s)"
  unfolding push_each_def by (induction ts arbitrary: s) (simp_all add: store_inv_push_to)

lemma mailbox_push_each:
  "distinct ts \<Longrightarrow> mailbox (push_each ts msg s) q = (if q \<in> set ts then push_queue msg (mailbox s q) else mailbox s q)"
  unfolding push_each_def by (induction ts arbitrary: s) auto

end
