(* ===== verification/Http_Api.thy ===== *)
theory Http_Api
  imports Signals Auth
begin

text \<open>
  The HTTP interface of the lobby (\<^verbatim>\<open>src/routes/mod.rs\<close>): who may call, what each room, signal
  and TURN request does to the shared state, and how errors become statuses.  A handler takes
  the state of the server and returns the new state with an error or the reply; requests are
  decoded records, replies the structures the source serialises.  The operations of the
  registry and the mailboxes are those of the theories Rooms and Signals.
\<close>

subsection \<open>State, environment and errors\<close>

record ApiError =
  ae_status :: nat
  ae_message :: string

record Web =
  wb_rooms :: registry
  wb_signals :: signal_store
  wb_players :: players
  wb_secrets :: secrets
  wb_challenges :: challenge_store
  wb_logins :: login_store

text \<open>Configuration, clock and draws of one request, and the cryptographic functions.\<close>

record WebEnv =
  we_config :: Config
  we_now :: instant
  we_unix :: nat
  we_id :: uuid
  we_code :: string
  we_draws :: "nat list"
  we_rnd :: nat
  we_vars :: environment
  we_sha :: "string \<Rightarrow> string"
  we_proof_hmac :: "string \<Rightarrow> string \<Rightarrow> string"
  we_turn_hmac :: "string \<Rightarrow> string \<Rightarrow> string"
  we_jwt :: "string \<Rightarrow> SessionClaims \<Rightarrow> string + string"
  we_parse_uuid :: "string \<Rightarrow> uuid option"
  we_filter :: ChatFilter
  we_discord :: DiscordApi
  we_login :: LoginDraws

definition api_error :: "nat \<Rightarrow> string \<Rightarrow> ApiError" where
  "api_error code msg = \<lparr> ae_status = code, ae_message = msg \<rparr>"

definition internal :: "string \<Rightarrow> ApiError" where
  "internal msg = api_error 500 msg"

fun room_error_text :: "RoomError \<Rightarrow> string" where
  "room_error_text NotFound = ''room not found''"
| "room_error_text Full = ''room is full''"
| "room_error_text NotJoinable = ''room is not joinable''"
| "room_error_text BadJoinCode = ''invalid join code''"
| "room_error_text GameMismatch = ''game_id mismatch''"
| "room_error_text VersionMismatch = ''client_version mismatch''"
| "room_error_text AlreadyJoined = ''player already in room''"
| "room_error_text NotMember = ''player not in room''"
| "room_error_text NotHost = ''not room host''"
| "room_error_text BadSlotCount = ''invalid slot_count''"
| "room_error_text GameNotAllowed = ''game_id not allowed''"

definition from_room_error :: "RoomError \<Rightarrow> ApiError" where
  "from_room_error e = api_error (http_status e) (room_error_text e)"

subsection \<open>Who is calling\<close>

text \<open>The two headers that are read; \<open>None\<close> when absent or not text.\<close>

record Headers =
  hd_player_id :: "string option"
  hd_authorization :: "string option"

definition discord_linked :: "players \<Rightarrow> uuid \<Rightarrow> bool" where
  "discord_linked t p \<longleftrightarrow> Option.bind (map_of t p) discord_id \<noteq> None"

definition require_auth :: "WebEnv \<Rightarrow> Headers \<Rightarrow> Web \<Rightarrow> ApiError + uuid" where
  "require_auth e h w =
     (case Option.bind (hd_player_id h) (we_parse_uuid e) of
        None \<Rightarrow> Inl (api_error 401 ''missing X-Player-Id'')
      | Some p \<Rightarrow>
          (case hd_authorization h of
             None \<Rightarrow> Inl (api_error 401 ''missing Authorization'')
           | Some auth \<Rightarrow>
               (case strip_prefix ''Bearer '' auth of
                  None \<Rightarrow> Inl (api_error 401 ''expected Bearer token'')
                | Some token \<Rightarrow>
                    (case require_player (we_sha e) (wb_players w) p token of
                       Inl _ \<Rightarrow> Inl (api_error 401 ''invalid credentials'')
                     | Inr _ \<Rightarrow>
                         if cfg_discord_required (we_config e) \<and> \<not> discord_linked (wb_players w) p
                         then Inl (api_error 403 ''login_required'') else Inr p))))"

text \<open>The \<^verbatim>\<open>?\<close> on \<^verbatim>\<open>require_auth\<close> that opens the handlers.\<close>

definition authed :: "WebEnv \<Rightarrow> Headers \<Rightarrow> (uuid \<Rightarrow> Web \<Rightarrow> Web \<times> (ApiError + 'a)) \<Rightarrow> Web \<Rightarrow> Web \<times> (ApiError + 'a)" where
  "authed e h f w = (case require_auth e h w of Inl err \<Rightarrow> (w, Inl err) | Inr p \<Rightarrow> f p w)"

subsection \<open>Players and games\<close>

definition create_player_http :: "WebEnv \<Rightarrow> Web \<Rightarrow> Web \<times> (ApiError + uuid \<times> string)" where
  "create_player_http e w =
     (if cfg_discord_required (we_config e) then (w, Inl (api_error 403 ''login_required''))
      else (w\<lparr> wb_players := create_player (we_id e) (we_sha e (we_code e)) (wb_players w) \<rparr>, Inr (we_id e, we_code e)))"

definition list_games :: "WebEnv \<Rightarrow> string \<times> string list" where
  "list_games e =
     (if game_allowlist (we_config e) = [] then (''open'', []) else (''allowlist'', game_allowlist (we_config e)))"

subsection \<open>Rooms\<close>

record RoomView =
  rv_room_id :: uuid
  rv_game_id :: string
  rv_client_version :: string
  rv_display_name :: string
  rv_slot_count :: nat
  rv_input_delay :: nat
  rv_is_private :: bool
  rv_join_code :: "string option"
  rv_status :: RoomStatus
  rv_host_player_id :: uuid
  rv_members :: "Member list"
  rv_rnet :: "RnetBootstrap option"

definition from_room :: "Room \<Rightarrow> uuid \<Rightarrow> RoomView" where
  "from_room r viewer =
     \<lparr> rv_room_id = room_id r, rv_game_id = game_id r, rv_client_version = client_version r,
       rv_display_name = r_display_name r, rv_slot_count = slot_count r, rv_input_delay = r_input_delay r,
       rv_is_private = is_private r,
       rv_join_code = (if host_player_id r = viewer then join_code r else None),
       rv_status = status r, rv_host_player_id = host_player_id r, rv_members = members r,
       rv_rnet = bootstrap_for r viewer \<rparr>"

text \<open>A registry operation on the shared state, its error as an answer, its room as the caller's view.\<close>

definition on_rooms :: "(registry \<Rightarrow> registry \<times> (RoomError + Room)) \<Rightarrow> (Room \<Rightarrow> 'a) \<Rightarrow> Web \<Rightarrow> Web \<times> (ApiError + 'a)" where
  "on_rooms f k w =
     (case f (wb_rooms w) of
        (g, Inl e) \<Rightarrow> (w\<lparr> wb_rooms := g \<rparr>, Inl (from_room_error e))
      | (g, Inr r) \<Rightarrow> (w\<lparr> wb_rooms := g \<rparr>, Inr (k r)))"

definition list_rooms :: "string \<Rightarrow> string option \<Rightarrow> Web \<Rightarrow> RoomSummary list" where
  "list_rooms game ver w = list_public game ver (wb_rooms w)"

record CreateRoomBody =
  cb_game_id :: string
  cb_client_version :: string
  cb_display_name :: string
  cb_slot_count :: "nat option"
  cb_input_delay :: "nat option"
  cb_is_private :: bool

definition create_room :: "WebEnv \<Rightarrow> Headers \<Rightarrow> CreateRoomBody \<Rightarrow> Web \<Rightarrow> Web \<times> (ApiError + RoomView)" where
  "create_room e h body =
     authed e h (\<lambda>p w.
       if \<not> game_allowed (we_config e) (cb_game_id body) then (w, Inl (api_error 400 ''game_id not allowed''))
       else if cb_game_id body = [] \<or> cb_client_version body = []
       then (w, Inl (api_error 400 ''game_id and client_version are required''))
       else on_rooms
         (create (we_now e) (we_id e) (we_draws e) p (cb_game_id body) (cb_client_version body)
            (if trim (cb_display_name body) = [] then ''lobby'' else trim (cb_display_name body))
            (unwrap_or (cb_slot_count body) (default_slot_count (we_config e)))
            (unwrap_or (cb_input_delay body) (default_input_delay (we_config e)))
            (cfg_protocol_magic (we_config e)) (cb_is_private body))
         (\<lambda>r. from_room r p) w)"

text \<open>The lookup the reading handlers share: the room, for its members only.\<close>

definition member_room :: "uuid \<Rightarrow> uuid \<Rightarrow> Web \<Rightarrow> ApiError + Room" where
  "member_room rid p w =
     (case map_of (wb_rooms w) rid of
        None \<Rightarrow> Inl (from_room_error NotFound)
      | Some r \<Rightarrow> if is_member r p then Inr r else Inl (from_room_error NotMember))"

definition get_room :: "WebEnv \<Rightarrow> Headers \<Rightarrow> uuid \<Rightarrow> Web \<Rightarrow> Web \<times> (ApiError + RoomView)" where
  "get_room e h rid =
     authed e h (\<lambda>p w. (w, case member_room rid p w of Inl err \<Rightarrow> Inl err | Inr r \<Rightarrow> Inr (from_room r p)))"

definition join_room_http ::
    "WebEnv \<Rightarrow> Headers \<Rightarrow> uuid \<Rightarrow> string \<Rightarrow> string \<Rightarrow> string option \<Rightarrow> Web \<Rightarrow> Web \<times> (ApiError + RoomView)" where
  "join_room_http e h rid game ver code =
     authed e h (\<lambda>p. on_rooms (join (we_now e) rid p game ver code) (\<lambda>r. from_room r p))"

definition leave_room_http :: "WebEnv \<Rightarrow> Headers \<Rightarrow> uuid \<Rightarrow> Web \<Rightarrow> Web \<times> (ApiError + unit)" where
  "leave_room_http e h rid =
     authed e h (\<lambda>p w.
       case on_rooms (leave (we_now e) rid p) (\<lambda>_. ()) w of
         (w', Inl err) \<Rightarrow> (w', Inl err)
       | (w', Inr u) \<Rightarrow> (w'\<lparr> wb_signals := clear_player p (wb_signals w') \<rparr>, Inr u))"

definition set_ready_http :: "WebEnv \<Rightarrow> Headers \<Rightarrow> uuid \<Rightarrow> bool \<Rightarrow> Web \<Rightarrow> Web \<times> (ApiError + RoomView)" where
  "set_ready_http e h rid ready =
     authed e h (\<lambda>p. on_rooms (set_ready (we_now e) (we_rnd e) rid p ready) (\<lambda>r. from_room r p))"

definition heartbeat_http :: "WebEnv \<Rightarrow> Headers \<Rightarrow> uuid \<Rightarrow> Web \<Rightarrow> Web \<times> (ApiError + unit)" where
  "heartbeat_http e h rid = authed e h (\<lambda>p. on_rooms (heartbeat (we_now e) rid p) (\<lambda>_. ()))"

definition mark_running_http :: "WebEnv \<Rightarrow> Headers \<Rightarrow> uuid \<Rightarrow> Web \<Rightarrow> Web \<times> (ApiError + RoomView)" where
  "mark_running_http e h rid =
     authed e h (\<lambda>p. on_rooms (mark_running (we_now e) rid p) (\<lambda>r. from_room r p))"

subsection \<open>Signals\<close>

record SignalBody =
  sb_target :: "uuid option"
  sb_type :: nat
  sb_flag :: nat
  sb_text :: string

definition signal_targets :: "Room \<Rightarrow> uuid \<Rightarrow> uuid option \<Rightarrow> ApiError + uuid list" where
  "signal_targets r p target =
     (case target of
        Some t \<Rightarrow> if is_member r t then Inr [t] else Inl (api_error 400 ''target not in room'')
      | None \<Rightarrow> Inr (filter (\<lambda>q. q \<noteq> p) (map m_player_id (members r))))"

definition envelope :: "WebEnv \<Rightarrow> uuid \<Rightarrow> uuid \<Rightarrow> SignalBody \<Rightarrow> SignalEnvelope" where
  "envelope e p rid body = \<lparr> from_player_id = p, se_room_id = rid, signal_type = sb_type body, se_flag = sb_flag body,
     se_text = sb_text body, se_created_at = we_now e \<rparr>"

definition post_signal :: "WebEnv \<Rightarrow> Headers \<Rightarrow> uuid \<Rightarrow> SignalBody \<Rightarrow> Web \<Rightarrow> Web \<times> (ApiError + unit)" where
  "post_signal e h rid body =
     authed e h (\<lambda>p w.
       if length (sb_text body) > 2047 then (w, Inl (api_error 400 ''signal text exceeds 2047 characters''))
       else case member_room rid p w of
              Inl err \<Rightarrow> (w, Inl err)
            | Inr r \<Rightarrow>
                (case signal_targets r p (sb_target body) of
                   Inl err \<Rightarrow> (w, Inl err)
                 | Inr ts \<Rightarrow> (w\<lparr> wb_signals := push_each ts (envelope e p rid body) (wb_signals w) \<rparr>, Inr ())))"

definition get_signals :: "WebEnv \<Rightarrow> Headers \<Rightarrow> uuid \<Rightarrow> Web \<Rightarrow> Web \<times> (ApiError + SignalEnvelope list)" where
  "get_signals e h rid =
     authed e h (\<lambda>p w.
       case member_room rid p w of
         Inl err \<Rightarrow> (w, Inl err)
       | Inr r \<Rightarrow>
           (case drain p (wb_signals w) of
              (st, drained) \<Rightarrow>
                (case partition (\<lambda>s. se_room_id s = rid) drained of
                   (for_room, other) \<Rightarrow> (w\<lparr> wb_signals := push_many p other st \<rparr>, Inr for_room))))"

subsection \<open>TURN credentials\<close>

record TurnCredsResponse =
  tr_stun_host :: string
  tr_stun_port :: nat
  tr_turn_host :: string
  tr_turn_port :: nat
  tr_turns_port :: nat
  tr_realm :: string
  tr_username :: string
  tr_password :: string
  tr_ttl_secs :: nat

definition turn_creds :: "WebEnv \<Rightarrow> Headers \<Rightarrow> Web \<Rightarrow> Web \<times> (ApiError + TurnCredsResponse)" where
  "turn_creds e h =
     authed e h (\<lambda>p w. (w,
       case turn_from_env (we_vars e) of
         None \<Rightarrow> Inl (api_error 503 ''COTURN_STATIC_AUTH_SECRET and COTURN_HOST are not configured (see docs/LOBBY.md)'')
       | Some cfg \<Rightarrow>
           (case issue_credentials (we_turn_hmac e) uuid_text (we_unix e) cfg p of
              (username, password) \<Rightarrow> Inr
                \<lparr> tr_stun_host = stun_host cfg, tr_stun_port = stun_port cfg, tr_turn_host = turn_host cfg,
                  tr_turn_port = turn_port cfg, tr_turns_port = turns_port cfg, tr_realm = turn_realm cfg,
                  tr_username = username, tr_password = password, tr_ttl_secs = turn_ttl_secs cfg \<rparr>)))"

subsection \<open>One request\<close>

datatype room_request =
    CreateRoom CreateRoomBody
  | GetRoom uuid
  | JoinRoom uuid string string "string option"
  | LeaveRoom uuid
  | SetReady uuid bool
  | Heartbeat uuid
  | StartRoom uuid
  | PostSignal uuid SignalBody
  | GetSignals uuid
  | TurnCreds

fun serve :: "WebEnv \<Rightarrow> Headers \<Rightarrow> room_request \<Rightarrow> Web \<Rightarrow> Web" where
  "serve e h (CreateRoom body) w = fst (create_room e h body w)"
| "serve e h (GetRoom rid) w = fst (get_room e h rid w)"
| "serve e h (JoinRoom rid game ver code) w = fst (join_room_http e h rid game ver code w)"
| "serve e h (LeaveRoom rid) w = fst (leave_room_http e h rid w)"
| "serve e h (SetReady rid ready) w = fst (set_ready_http e h rid ready w)"
| "serve e h (Heartbeat rid) w = fst (heartbeat_http e h rid w)"
| "serve e h (StartRoom rid) w = fst (mark_running_http e h rid w)"
| "serve e h (PostSignal rid body) w = fst (post_signal e h rid body w)"
| "serve e h (GetSignals rid) w = fst (get_signals e h rid w)"
| "serve e h TurnCreds w = fst (turn_creds e h w)"

subsection \<open>Requests as steps of their sender\<close>

text \<open>The specification: what one player may do to the registry.\<close>

inductive player_step :: "uuid \<Rightarrow> registry \<Rightarrow> registry \<Rightarrow> bool" where
  may_create: "map_of g new_id = None \<Longrightarrow>
    player_step p g (fst (create now new_id draws p game ver dname slots delay magic private g))"
| may_join: "player_step p g (fst (join now rid p game ver code g))"
| may_leave: "player_step p g (fst (leave now rid p g))"
| may_ready: "player_step p g (fst (set_ready now rnd rid p ready g))"
| may_beat: "player_step p g (fst (heartbeat now rid p g))"
| may_run: "player_step p g (fst (mark_running now rid p g))"

inductive_cases player_stepE: "player_step p g g'"

lemma player_step_handler: "player_step p g g' \<Longrightarrow> handler_step g g'"
  by (induction rule: player_step.induct) (auto intro: handler_step.intros)

lemma is_member_update [simp]:
  assumes "\<And>m. m_player_id (f m) = m_player_id m"
  shows "is_member (r\<lparr> members := update_member p f (members r), updated_at := t \<rparr>) q = is_member r q"
  using assms by (simp add: is_member_iff flip: set_map)

text \<open>The operations on one room leave the membership of every other player alone.\<close>

locale own_seat = room_operation f for f :: "Room \<Rightarrow> RoomError + Room" +
  fixes p :: uuid
  assumes others_stay: "f r = Inr r' \<Longrightarrow> q \<noteq> p \<Longrightarrow> is_member r' q = is_member r q"
begin

lemma on_room_others:
  "map_of g rid' = Some r \<Longrightarrow> map_of (fst (on_room rid f g)) rid' = Some r' \<Longrightarrow> q \<noteq> p \<Longrightarrow> is_member r' q = is_member r q"
  by (auto simp: on_room_def others_stay split: option.splits sum.splits if_splits)

end

interpretation join_seat: own_seat "\<lambda>r. join_room now r p game ver code" p for now game ver code p
  by unfold_locales (auto simp: join_room_Inr is_member_iff)

interpretation ready_seat: own_seat "set_ready_room now rnd p ready" p for now rnd ready p
proof unfold_locales
  fix r r' q
  assume "set_ready_room now rnd p ready r = Inr r'"
  then have "map m_player_id (members r') = map m_player_id (members r)"
    by (auto simp: set_ready_room_def Let_def split: if_splits)
  then have "m_player_id ` set (members r') = m_player_id ` set (members r)" by (metis set_map)
  then show "is_member r' q = is_member r q" by (simp add: is_member_iff)
qed

interpretation beat_seat: own_seat "heartbeat_room now p" p for now p
  by unfold_locales (auto simp: heartbeat_room_def split: if_splits)

interpretation run_seat: own_seat "mark_running_room now p" p for now p
  by unfold_locales (auto simp: mark_running_room_def is_member_def split: if_splits)

lemma leave_others:
  assumes "map_of g rid' = Some r" "map_of (fst (leave now rid p g)) rid' = Some r'" "q \<noteq> p"
  shows "is_member r' q = is_member r q"
  using assms
  by (auto simp: leave_def leave_room_def Let_def is_member_iff image_image split: option.splits if_splits)

lemma player_step_others:
  assumes "player_step p g g'" "map_of g rid = Some r" "map_of g' rid = Some r'" "q \<noteq> p"
  shows "is_member r' q = is_member r q"
  using assms
proof (induction rule: player_step.induct)
  case may_create
  then show ?case by (auto simp: create_def Let_def split: if_splits)
next
  case may_join
  then show ?case unfolding join_def by (blast dest: join_seat.on_room_others)
next
  case may_leave
  then show ?case by (blast dest: leave_others)
next
  case may_ready
  then show ?case unfolding set_ready_def by (blast dest: ready_seat.on_room_others)
next
  case may_beat
  then show ?case unfolding heartbeat_def by (blast dest: beat_seat.on_room_others)
next
  case may_run
  then show ?case unfolding mark_running_def by (blast dest: run_seat.on_room_others)
qed

lemma on_rooms_eq: "fst (on_rooms f k w) = w\<lparr> wb_rooms := fst (f (wb_rooms w)) \<rparr>"
  by (simp add: on_rooms_def split: prod.split sum.split)

lemma on_rooms_Inr: "snd (on_rooms f k w) = Inr x \<Longrightarrow> \<exists>r. snd (f (wb_rooms w)) = Inr r \<and> x = k r"
  by (auto simp: on_rooms_def split: prod.splits sum.splits)

lemma authed_eq: "authed e h f w = (case require_auth e h w of Inl err \<Rightarrow> (w, Inl err) | Inr p \<Rightarrow> f p w)"
  by (rule authed_def)

text \<open>What a request of a recognised player does to the rooms: nothing, or a step of that player.\<close>

lemma serve_rooms:
  assumes auth: "require_auth e h w = Inr p" and fresh: "map_of (wb_rooms w) (we_id e) = None"
  shows "wb_rooms (serve e h req w) = wb_rooms w \<or> player_step p (wb_rooms w) (wb_rooms (serve e h req w))"
proof (cases req)
  case (CreateRoom body)
  then show ?thesis using player_step.may_create [OF fresh]
    by (auto simp: create_room_def authed_eq auth on_rooms_eq)
next
  case (LeaveRoom rid)
  obtain w' r where l: "on_rooms (leave (we_now e) rid p) (\<lambda>_. ()) w = (w', r)" by force
  then have "wb_rooms w' = fst (leave (we_now e) rid p (wb_rooms w))"
    using on_rooms_eq [of "leave (we_now e) rid p" "\<lambda>_. ()" w] by simp
  then have "wb_rooms (serve e h req w) = fst (leave (we_now e) rid p (wb_rooms w))"
    by (simp add: LeaveRoom leave_room_http_def authed_eq auth l split: sum.split)
  then show ?thesis using player_step.may_leave by simp
qed (auto simp: get_room_def join_room_http_def set_ready_http_def heartbeat_http_def mark_running_http_def post_signal_def
    get_signals_def turn_creds_def authed_eq auth on_rooms_eq split: sum.split prod.split
    intro: player_step.intros)

lemma serve_refused: "require_auth e h w = Inl err \<Longrightarrow> serve e h req w = w"
  by (cases req) (simp_all add: create_room_def get_room_def join_room_http_def leave_room_http_def set_ready_http_def
      heartbeat_http_def mark_running_http_def post_signal_def get_signals_def turn_creds_def authed_eq)

lemma strip_prefix_Some: "strip_prefix a s = Some t \<Longrightarrow> s = a @ t"
  by (auto simp: strip_prefix_def split: if_splits) (metis append_take_drop_id)

lemma require_auth_Inr:
  assumes "require_auth e h w = Inr p"
  shows "\<exists>row token. map_of (wb_players w) p = Some row \<and> hd_authorization h = Some (''Bearer '' @ token) \<and>
    api_token_hash row = we_sha e token \<and> (cfg_discord_required (we_config e) \<longrightarrow> discord_id row \<noteq> None)"
proof -
  obtain auth token where a: "hd_authorization h = Some auth" "strip_prefix ''Bearer '' auth = Some token"
    "require_player (we_sha e) (wb_players w) p token = Inr ()"
    "\<not> (cfg_discord_required (we_config e) \<and> \<not> discord_linked (wb_players w) p)"
    using assms by (auto simp: require_auth_def split: option.splits sum.splits if_splits)
  then show ?thesis using strip_prefix_Some [OF a(2)]
    by (auto simp: require_player_def verify_player_token_def discord_linked_def split: option.splits if_splits)
qed


lemma mailbox_push_other:
  assumes "length msgs \<le> MAX_QUEUED_PER_PLAYER"
  shows "mailbox (push_many p msgs (AList.delete p s)) p = msgs"
  using assms mail.push_all_fits [of "[]" msgs] by (simp add: mailbox_push_many)

text \<open>
  C27: reading a room's signals takes those and leaves the rest.  A successful read is by a
  member of the room; it answers with exactly the caller's envelopes of that room, in order,
  keeps the caller's envelopes of other rooms, in order, and touches nobody else's box and no
  room.
\<close>
theorem signals_are_read_per_room:
  assumes "store_inv (wb_signals w)" "get_signals e h rid w = (w', Inr sigs)"
  shows "\<exists>p r. require_auth e h w = Inr p \<and> map_of (wb_rooms w) rid = Some r \<and> is_member r p \<and>
    sigs = filter (\<lambda>s. se_room_id s = rid) (mailbox (wb_signals w) p) \<and>
    mailbox (wb_signals w') p = filter (\<lambda>s. se_room_id s \<noteq> rid) (mailbox (wb_signals w) p) \<and>
    (\<forall>q. q \<noteq> p \<longrightarrow> mailbox (wb_signals w') q = mailbox (wb_signals w) q) \<and> wb_rooms w' = wb_rooms w"
proof -
  obtain p where p: "require_auth e h w = Inr p"
    using assms(2) by (auto simp: get_signals_def authed_eq split: sum.splits)
  obtain r where r: "map_of (wb_rooms w) rid = Some r" "is_member r p"
    using assms(2) p by (auto simp: get_signals_def authed_eq member_room_def split: option.splits if_splits)
  let ?box = "mailbox (wb_signals w) p"
  let ?other = "filter (\<lambda>s. se_room_id s \<noteq> rid) ?box"
  have res: "sigs = filter (\<lambda>s. se_room_id s = rid) ?box" "w' = w\<lparr> wb_signals := push_many p ?other (AList.delete p (wb_signals w)) \<rparr>"
    using assms(2) p r by (auto simp: get_signals_def authed_eq member_room_def drain_def o_def)
  have "length ?other \<le> MAX_QUEUED_PER_PLAYER"
    using assms(1) le_trans [OF length_filter_le] by (auto simp: store_inv_def)
  then have "mailbox (wb_signals w') p = ?other" by (simp add: res(2) mailbox_push_other)
  moreover have "\<forall>q. q \<noteq> p \<longrightarrow> mailbox (wb_signals w') q = mailbox (wb_signals w) q"
    by (simp add: res(2) mailbox_push_many)
  ultimately show ?thesis using p r res by auto
qed

subsection \<open>A small server\<close>

definition demo_players :: players where
  "demo_players = create_player 2 ''t2'' (create_player 1 ''t1'' [])"

definition demo_web_env :: WebEnv where
  "demo_web_env = \<lparr> we_config = demo_cfg, we_now = 5, we_unix = 5, we_id = 77, we_code = ''c'', we_draws = [], we_rnd = 9,
     we_vars = demo_env, we_sha = (\<lambda>s. s), we_proof_hmac = (@), we_turn_hmac = (@), we_jwt = (\<lambda>_ _. Inr ''jwt''),
     we_parse_uuid = (\<lambda>s. if s = ''1'' then Some 1 else if s = ''2'' then Some 2 else None), we_filter = demo_filter,
     we_discord = \<lparr> api_token = (\<lambda>_. Inl []), api_me = (\<lambda>_. Inl []), api_guild_member = (\<lambda>_ _. Inl []) \<rparr>,
     we_login = \<lparr> ld_now = 0, ld_player_id = 2, ld_token_hash = [], ld_secret_id = 3, ld_secret_hex = [] \<rparr> \<rparr>"

definition demo_mail :: "uuid \<Rightarrow> string \<Rightarrow> SignalEnvelope" where
  "demo_mail rid t = \<lparr> from_player_id = 2, se_room_id = rid, signal_type = 1, se_flag = 0, se_text = t, se_created_at = 1 \<rparr>"

definition demo_web :: Web where
  "demo_web = \<lparr> wb_rooms = demo_registry, wb_signals = push_each [1] (demo_mail 10 ''x'') (push_each [1] (demo_mail 11 ''y'') []),
     wb_players = demo_players, wb_secrets = [], wb_challenges = [], wb_logins = [] \<rparr>"

definition demo_headers :: "string \<Rightarrow> string \<Rightarrow> Headers" where
  "demo_headers p t = \<lparr> hd_player_id = Some p, hd_authorization = Some (''Bearer '' @ t) \<rparr>"


lemma demo_rooms: "wb_rooms demo_web = [(10, demo_room)]"
  by (simp add: demo_web_def demo_registry_eq)

lemma demo_auth: "require_auth demo_web_env (demo_headers ''1'' ''t1'') demo_web = Inr 1"
proof -
  have "cfg_discord_required demo_cfg = False" unfolding demo_cfg_def env_fields by code_simp
  moreover have "map_of demo_players 1 = Some \<lparr> api_token_hash = ''t1'', discord_id = None, discord_username = None,
      discord_global_name = None, discord_avatar = None, netplay_handle = None, linked_at = None, last_seen_at = None \<rparr>"
    by (simp add: demo_players_def create_player_def)
  ultimately show ?thesis
    by (simp add: require_auth_def demo_web_env_def demo_headers_def demo_web_def strip_prefix_def require_player_def
        verify_player_token_def)
qed


theorem signals_are_read_per_room_witness:
  "snd (get_signals demo_web_env (demo_headers ''1'' ''t1'') 10 demo_web) = Inr [demo_mail 10 ''x''] \<and>
   mailbox (wb_signals (fst (get_signals demo_web_env (demo_headers ''1'' ''t1'') 10 demo_web))) 1 = [demo_mail 11 ''y'']"
proof -
  have inv: "store_inv (wb_signals demo_web)"
    by (simp add: demo_web_def store_inv_push_each store_inv_Nil)
  have box: "mailbox (wb_signals demo_web) 1 = [demo_mail 11 ''y'', demo_mail 10 ''x'']"
    by (simp add: demo_web_def mailbox_push_each push_queue_def MAX_QUEUED_PER_PLAYER_def) (simp add: mailbox_def)
  obtain w' sigs where g: "get_signals demo_web_env (demo_headers ''1'' ''t1'') 10 demo_web = (w', Inr sigs)"
    by (simp add: get_signals_def authed_eq demo_auth member_room_def demo_rooms demo_room_def is_member_def drain_def)
  from signals_are_read_per_room [OF inv g] have
    "sigs = filter (\<lambda>s. se_room_id s = 10) (mailbox (wb_signals demo_web) 1)"
    "mailbox (wb_signals w') 1 = filter (\<lambda>s. se_room_id s \<noteq> 10) (mailbox (wb_signals demo_web) 1)"
    using demo_auth by auto
  then show ?thesis using box by (simp add: g demo_mail_def)
qed

end
