(* ===== verification/Http_Login.thy ===== *)
theory Http_Login
  imports Http_Api
begin

text \<open>
  The sign-in half of the HTTP interface (\<^verbatim>\<open>src/routes/mod.rs\<close>): challenges, sessions, handles
  and keys proved by a device, and the Discord login with the pages its callback shows.
\<close>

subsection \<open>Proofs by a device key\<close>

definition auth_challenge :: "WebEnv \<Rightarrow> Web \<Rightarrow> Web \<times> string \<times> nat" where
  "auth_challenge e w =
     (case challenge_issue (we_now e) (we_code e) (wb_challenges w) of
        (g, nonce) \<Rightarrow> (w\<lparr> wb_challenges := g \<rparr>, nonce, 60))"

record ProofReq =
  pr_player_id :: string
  pr_nonce :: string
  pr_proof :: string
  pr_all :: bool

definition parse_player :: "WebEnv \<Rightarrow> string \<Rightarrow> ApiError + uuid" where
  "parse_player e s = (case we_parse_uuid e s of None \<Rightarrow> Inl (api_error 403 ''invalid_secret'') | Some p \<Rightarrow> Inr p)"

definition spend_nonce :: "WebEnv \<Rightarrow> string \<Rightarrow> Web \<Rightarrow> Web \<times> (ApiError + unit)" where
  "spend_nonce e nonce w =
     (case challenge_take (we_now e) nonce (wb_challenges w) of
        (g, ok) \<Rightarrow> (w\<lparr> wb_challenges := g \<rparr>, if ok then Inr () else Inl (api_error 403 ''bad_nonce'')))"

text \<open>The two \<^verbatim>\<open>?\<close> that open the handlers of this part: the player, then the nonce.\<close>

definition challenged :: "WebEnv \<Rightarrow> ProofReq \<Rightarrow> (uuid \<Rightarrow> Web \<Rightarrow> Web \<times> (ApiError + 'a)) \<Rightarrow> Web \<Rightarrow> Web \<times> (ApiError + 'a)" where
  "challenged e req f w =
     (case parse_player e (pr_player_id req) of
        Inl err \<Rightarrow> (w, Inl err)
      | Inr p \<Rightarrow>
          (case spend_nonce e (pr_nonce req) w of (w1, Inl err) \<Rightarrow> (w1, Inl err) | (w1, Inr _) \<Rightarrow> f p w1))"

definition check_proof :: "WebEnv \<Rightarrow> ProofReq \<Rightarrow> uuid \<Rightarrow> Web \<Rightarrow> Web \<times> (ApiError + Player)" where
  "check_proof e req p w =
     (case verify_proof (we_proof_hmac e) (int (we_unix e)) (wb_players w) p (pr_nonce req) (pr_proof req) (wb_secrets w) of
        (t, Inl _) \<Rightarrow> (w\<lparr> wb_secrets := t \<rparr>, Inl (api_error 403 ''invalid_secret''))
      | (t, Inr player) \<Rightarrow> (w\<lparr> wb_secrets := t \<rparr>, Inr player))"

record SessionIssued =
  si_session :: string
  si_player_id :: string
  si_handle :: string
  si_discord_username :: string

fun auth_error_text :: "AuthError \<Rightarrow> string" where
  "auth_error_text SigningNotConfigured = ''JWT signing is not configured (set JWT_SECRET_CURRENT)''"
| "auth_error_text (Encode m) = ''JWT encode failed: '' @ m"
| "auth_error_text InvalidToken = ''invalid or expired token''"

definition session_from_secret :: "WebEnv \<Rightarrow> ProofReq \<Rightarrow> Web \<Rightarrow> Web \<times> (ApiError + SessionIssued)" where
  "session_from_secret e req =
     challenged e req (\<lambda>p w.
       case check_proof e req p w of
         (w1, Inl err) \<Rightarrow> (w1, Inl err)
       | (w1, Inr player) \<Rightarrow>
           (w1, case issue_session_token (we_jwt e) (int (we_unix e)) (we_config e) (pl_id player) of
                  Inl err \<Rightarrow> Inl (internal (auth_error_text err))
                | Inr session \<Rightarrow> Inr \<lparr> si_session = session, si_player_id = uuid_text (pl_id player),
                    si_handle = pl_handle player, si_discord_username = pl_discord_username player \<rparr>))"

definition set_handle_http :: "WebEnv \<Rightarrow> ProofReq \<Rightarrow> string \<Rightarrow> Web \<Rightarrow> Web \<times> (ApiError + string)" where
  "set_handle_http e req handle =
     challenged e req (\<lambda>p w.
       case check_proof e req p w of
         (w1, Inl err) \<Rightarrow> (w1, Inl err)
       | (w1, Inr _) \<Rightarrow>
           (case set_handle (we_filter e) (wb_players w1) p handle of
              Inl _ \<Rightarrow> (w1, Inl (api_error 409 ''handle_rejected''))
            | Inr (t, h) \<Rightarrow> (w1\<lparr> wb_players := t \<rparr>, Inr h)))"

definition revoke_secret :: "WebEnv \<Rightarrow> ProofReq \<Rightarrow> Web \<Rightarrow> Web \<times> (ApiError + nat)" where
  "revoke_secret e req =
     challenged e req (\<lambda>p w.
       if pr_all req
       then case check_proof e req p w of
              (w1, Inl err) \<Rightarrow> (w1, Inl err)
            | (w1, Inr _) \<Rightarrow>
                (case revoke_all (int (we_unix e)) p (wb_secrets w1) of (t, n) \<Rightarrow> (w1\<lparr> wb_secrets := t \<rparr>, Inr n))
       else case revoke_by_proof (we_proof_hmac e) (int (we_unix e)) p (pr_nonce req) (pr_proof req) (wb_secrets w) of
              (t, ok) \<Rightarrow> (w\<lparr> wb_secrets := t \<rparr>, Inr (if ok then 1 else 0)))"

subsection \<open>Pages\<close>

text \<open>\<^verbatim>\<open>str::replace\<close> of one ASCII character.\<close>

definition replace_char :: "char \<Rightarrow> string \<Rightarrow> string \<Rightarrow> string" where
  "replace_char c r s = concat (map (\<lambda>x. if x = c then r else [x]) s)"

definition html_escape :: "string \<Rightarrow> string" where
  "html_escape s =
     replace_char (char_of (39::nat)) ''&#39;'' (replace_char (char_of (34::nat)) ''&quot;''
       (replace_char (CHR ''>'') ''&gt;'' (replace_char (CHR ''<'') ''&lt;'' (replace_char (CHR ''&'') ''&amp;'' s))))"

definition page_head :: "string \<Rightarrow> string" where
  \<open>page_head title =
     ''<!doctype html><meta charset=utf-8><title>'' @ html_escape title @ ''</title>'' @
     ''<body style="font:16px/1.5 system-ui;margin:4rem auto;max-width:32rem;'' @
     ''color:#e8e8ea;background:#0a0d16"><h1 style="font-size:1.3rem">'' @ html_escape title @ ''</h1>'' @ ''<p>''\<close>

definition page :: "string \<Rightarrow> string \<Rightarrow> string" where
  "page title body = page_head title @ html_escape body @ ''</p></body>''"

subsection \<open>The Discord login\<close>

definition discord_start :: "WebEnv \<Rightarrow> Web \<Rightarrow> Web \<times> (ApiError + string \<times> string)" where
  "discord_start e w =
     (case login_begin (we_now e) (we_code e) (wb_logins w) of
        (g, code) \<Rightarrow>
          (w\<lparr> wb_logins := g \<rparr>,
           case authorize_url (we_config e) code of Inl m \<Rightarrow> Inl (api_error 503 m) | Inr url \<Rightarrow> Inr (code, url)))"

record DiscordCallback =
  dc_code :: "string option"
  dc_state :: "string option"
  dc_error :: "string option"

definition finish_err :: "string \<Rightarrow> string \<Rightarrow> Web \<Rightarrow> Web" where
  "finish_err code why w = w\<lparr> wb_logins := login_finish code (Inl why) (wb_logins w) \<rparr>"

text \<open>The greeting and the failure page; the dash of the latter is three bytes of UTF-8.\<close>

definition welcome_page :: "string \<Rightarrow> string" where
  "welcome_page handle =
     page ''Signed in'' (''Welcome, '' @ html_escape handle @ ''. You can close this window and return to the game.'')"

definition failed_page :: "string \<Rightarrow> string" where
  "failed_page err =
     page ''Login failed''
       (''Sign-in could not be completed ('' @ html_escape (hd (split_on (CHR '':'') err)) @ ''). Close this window and                      try again '' @
        map char_of [226::nat, 128, 148] @
        '' if it keeps happening, the server operator can                      see the reason in the lobby server log.'')"

definition discord_callback :: "WebEnv \<Rightarrow> DiscordCallback \<Rightarrow> Web \<Rightarrow> Web \<times> string" where
  "discord_callback e q w =
     (let pairing = unwrap_or (dc_state q) [] in
      case dc_error q of
        Some err \<Rightarrow> (finish_err pairing err w, page ''Login cancelled'' ''You can close this window and try again.'')
      | None \<Rightarrow>
          (case dc_code q of
             None \<Rightarrow> (finish_err pairing ''no_code'' w, page ''Login failed'' ''Discord did not return a code.'')
           | Some code \<Rightarrow>
               (case on_callback (we_jwt e) (we_sha e) (we_filter e) (we_discord e) (we_login e) (we_config e) pairing code
                       ((wb_players w, wb_secrets w), wb_logins w) of
                  (((pl, ks), g), r) \<Rightarrow>
                    (w\<lparr> wb_players := pl, wb_secrets := ks, wb_logins := g \<rparr>,
                     case r of
                       Inr fin \<Rightarrow> welcome_page (c_handle fin)
                     | Inl err \<Rightarrow>
                         if err = ''not_in_guild''
                         then page ''Not a member'' ''This server is for members of our Discord only. Join it, then sign in again.''
                         else failed_page err))))"

definition discord_poll :: "WebEnv \<Rightarrow> string \<Rightarrow> Web \<Rightarrow> Web \<times> (ApiError + Completed)" where
  "discord_poll e code w =
     (case login_take (we_now e) code (wb_logins w) of
        (g, r) \<Rightarrow>
          (w\<lparr> wb_logins := g \<rparr>,
           case r of
             None \<Rightarrow> Inl (api_error 202 ''pending'')
           | Some (Inl err) \<Rightarrow> Inl (api_error 403 err)
           | Some (Inr completed) \<Rightarrow> Inr completed))"

subsection \<open>What the pages show\<close>

text \<open>Escaping one character, and the reference definition of escaping a text.\<close>

definition entity :: "char \<Rightarrow> string" where
  "entity c =
     (if c = CHR ''&'' then ''&amp;'' else if c = CHR ''<'' then ''&lt;'' else if c = CHR ''>'' then ''&gt;''
      else if c = char_of (34::nat) then ''&quot;'' else if c = char_of (39::nat) then ''&#39;'' else [c])"

definition active :: "char \<Rightarrow> bool" where
  "active c \<longleftrightarrow> c \<in> {CHR ''<'', CHR ''>'', char_of (34::nat), char_of (39::nat)}"

lemma replace_char_simps [simp]:
  "replace_char c r [] = []"
  "replace_char c r (x # s) = (if x = c then r else [x]) @ replace_char c r s"
  by (simp_all add: replace_char_def)

lemma replace_char_append [simp]: "replace_char c r (s @ t) = replace_char c r s @ replace_char c r t"
  by (simp add: replace_char_def)

lemma quote_chars: "char_of (34::nat) = CHR 0x22" "char_of (39::nat) = CHR 0x27"
  by (simp_all add: char_of_def bit_0)

lemma html_escape_append: "html_escape (s @ t) = html_escape s @ html_escape t"
  by (simp add: html_escape_def)

lemma html_escape_char: "html_escape [c] = entity c"
  unfolding html_escape_def entity_def quote_chars by simp

lemma html_escape_eq: "html_escape s = concat (map entity s)"
proof (induction s)
  case (Cons c s)
  have "html_escape (c # s) = html_escape [c] @ html_escape s" using html_escape_append [of "[c]" s] by simp
  then show ?case by (simp add: Cons html_escape_char)
qed (simp add: html_escape_def)

lemma entity_inert: "c \<in> set (entity d) \<Longrightarrow> \<not> active c"
  unfolding entity_def active_def quote_chars by (auto split: if_splits)

lemma length_entity: "length (entity c) \<ge> 1 \<and> (length (entity c) = 1 \<longleftrightarrow> entity c = [c])"
  by (auto simp: entity_def)

lemma length_escape: "length (html_escape s) \<ge> length s \<and> (length (html_escape s) = length s \<longleftrightarrow> list_all (\<lambda>c. entity c = [c]) s)"
proof (induction s)
  case (Cons c s)
  then show ?case using length_entity [of c] by (auto simp: html_escape_eq)
qed (simp add: html_escape_eq)

lemma escape_id: "html_escape s = s \<longleftrightarrow> list_all (\<lambda>c. entity c = [c]) s"
proof
  assume "list_all (\<lambda>c. entity c = [c]) s"
  then show "html_escape s = s" by (induction s) (auto simp: html_escape_eq)
qed (use length_escape [of s] in auto)

lemma entity_plain: "list_all (\<lambda>d. entity d = [d]) (entity c) \<longleftrightarrow> entity c = [c]"
  unfolding entity_def by auto

text \<open>
  What a page shows is text, escaped once too often.  Escaping replaces each of the five
  special characters by its entity, in one pass, and leaves no character that opens or closes
  a tag or an attribute; but the handle in the greeting is escaped by the caller and again by
  the page, which changes the text exactly when the handle has one of the five characters.
\<close>
theorem pages_escape_their_text:
  "html_escape s = concat (map entity s) \<and>
   list_all (\<lambda>c. \<not> active c) (html_escape s) \<and>
   (html_escape (html_escape s) = html_escape s \<longleftrightarrow> list_all (\<lambda>c. entity c = [c]) s) \<and>
   (\<exists>pre post. \<forall>h. welcome_page h = pre @ html_escape (html_escape h) @ post)"
proof (intro conjI)
  show "\<exists>pre post. \<forall>h. welcome_page h = pre @ html_escape (html_escape h) @ post"
    unfolding welcome_page_def page_def html_escape_append
    by (intro exI [of _ "page_head ''Signed in'' @ html_escape ''Welcome, ''"]
          exI [of _ "html_escape ''. You can close this window and return to the game.'' @ ''</p></body>''"]) simp
  show "html_escape s = concat (map entity s)" by (rule html_escape_eq)
  show "list_all (\<lambda>c. \<not> active c) (html_escape s)"
    using entity_inert by (fastforce simp: list_all_iff html_escape_eq)
  have "list_all (\<lambda>c. entity c = [c]) (html_escape s) \<longleftrightarrow> list_all (\<lambda>c. entity c = [c]) s"
    by (induction s) (simp_all add: html_escape_eq entity_plain)
  then show "html_escape (html_escape s) = html_escape s \<longleftrightarrow> list_all (\<lambda>c. entity c = [c]) s"
    by (simp add: escape_id)
qed

end
