(* ===== verification/Ip_Country.thy ===== *)
theory Ip_Country
  imports Net_Addr
begin

text \<open>
  The built-in address table (\<^verbatim>\<open>src/ip_country.rs\<close>): parsing the blob's header and the binary
  searches.  The blob is an argument, a list of bytes; a slice of it is the list it holds.
\<close>

type_synonym bytes = "nat list"

definition u16le :: "bytes \<Rightarrow> nat \<Rightarrow> nat" where
  "u16le b i = b ! i + 256 * b ! (i + 1)"

definition u32le :: "bytes \<Rightarrow> nat \<Rightarrow> nat" where
  "u32le b i = b ! i + 256 * b ! (i + 1) + 65536 * b ! (i + 2) + 16777216 * b ! (i + 3)"

definition u64le :: "bytes \<Rightarrow> nat \<Rightarrow> nat" where
  "u64le b i = u32le b i + 4294967296 * u32le b (i + 4)"

record Table =
  codes :: bytes
  v4 :: bytes
  v6 :: bytes
  v4_count :: nat
  v6_count :: nat

definition HDR :: nat where "HDR = 8 + 4 + 4 + 2"
definition V4_ENTRY :: nat where "V4_ENTRY = 4 + 4 + 2"
definition V6_ENTRY :: nat where "V6_ENTRY = 8 + 8 + 2"

definition MAGIC :: bytes where
  "MAGIC = [82, 67, 71, 69, 79, 49, 0, 0]"

definition slice :: "nat \<Rightarrow> nat \<Rightarrow> 'a list \<Rightarrow> 'a list" where
  "slice a b xs = take (b - a) (drop a xs)"

definition parse_table :: "bytes \<Rightarrow> Table option" where
  "parse_table blob =
     (if length blob < HDR \<or> take 8 blob \<noteq> MAGIC then None
      else let n4 = u32le blob 8; n6 = u32le blob 12; cc = u16le blob 16;
               codes_end = HDR + cc * 2; v4_end = codes_end + n4 * V4_ENTRY; v6_end = v4_end + n6 * V6_ENTRY
           in if length blob < v6_end then None
              else Some \<lparr> codes = slice HDR codes_end blob, v4 = slice codes_end v4_end blob,
                          v6 = slice v4_end v6_end blob, v4_count = n4, v6_count = n6 \<rparr>)"

text \<open>\<^verbatim>\<open>std::str::from_utf8\<close> of two bytes succeeds when both are ASCII or they are one
  two-byte sequence.\<close>

definition upper :: "nat \<Rightarrow> nat" where
  "upper b = (if 97 \<le> b \<and> b \<le> 122 then b - 32 else b)"

definition code :: "Table \<Rightarrow> nat \<Rightarrow> string option" where
  "code t idx =
     (let i = idx * 2
      in if i + 2 > length (codes t) then None
         else let a = codes t ! i; b = codes t ! (i + 1)
              in if a < 128 \<and> b < 128 \<or> 194 \<le> a \<and> a < 224 \<and> 128 \<le> b \<and> b < 192
                 then Some [char_of (upper a), char_of (upper b)] else None)"

text \<open>The loop both lookups share: the number of entries whose start is at most the key,
  found by halving the interval from \<open>lo\<close> to \<open>hi\<close>.\<close>

function search :: "(nat \<Rightarrow> nat) \<Rightarrow> nat \<Rightarrow> nat \<Rightarrow> nat \<Rightarrow> nat" where
  "search start key lo hi =
     (if lo < hi then
        let mid = (lo + hi) div 2
        in if start mid \<le> key then search start key (mid + 1) hi else search start key lo mid
      else lo)"
  by pat_completeness auto
termination
  by (relation "measure (\<lambda>(start, key, lo, hi). hi - lo)") auto

declare search.simps [simp del]

definition lookup_v4 :: "Table \<Rightarrow> nat \<Rightarrow> string option" where
  "lookup_v4 t key =
     (let lo = search (\<lambda>m. u32le (v4 t) (m * V4_ENTRY)) key 0 (v4_count t)
      in if lo = 0 then None
         else let i = (lo - 1) * V4_ENTRY
              in if key \<ge> u32le (v4 t) i \<and> key < u32le (v4 t) (i + 4) then code t (u16le (v4 t) (i + 8)) else None)"

definition lookup_v6 :: "Table \<Rightarrow> nat \<Rightarrow> string option" where
  "lookup_v6 t key =
     (let lo = search (\<lambda>m. u64le (v6 t) (m * V6_ENTRY)) key 0 (v6_count t)
      in if lo = 0 then None
         else let i = (lo - 1) * V6_ENTRY
              in if key \<ge> u64le (v6 t) i \<and> key \<le> u64le (v6 t) (i + 8) then code t (u16le (v6 t) (i + 16)) else None)"

definition lookup :: "Table option \<Rightarrow> ip \<Rightarrow> string option" where
  "lookup table addr =
     (case table of None \<Rightarrow> None
      | Some t \<Rightarrow>
          (case addr of
             V4 v \<Rightarrow> lookup_v4 t v
           | V6 g \<Rightarrow>
               (case to_ipv4_mapped g of
                  Some m \<Rightarrow> lookup_v4 t m
                | None \<Rightarrow> lookup_v6 t (g ! 0 * 281474976710656 + g ! 1 * 4294967296 + g ! 2 * 65536 + g ! 3))))"

definition range_counts :: "Table option \<Rightarrow> nat \<times> nat" where
  "range_counts table = unwrap_or (map_option (\<lambda>t. (v4_count t, v6_count t)) table) (0, 0)"

subsection \<open>The search\<close>

lemma search_bounds: "lo \<le> hi \<Longrightarrow> lo \<le> search start key lo hi \<and> search start key lo hi \<le> hi"
proof (induction start key lo hi rule: search.induct)
  case (1 start key lo hi)
  show ?case using 1 by (subst (1 2) search.simps) (fastforce simp: Let_def)
qed

definition sorted_starts :: "(nat \<Rightarrow> nat) \<Rightarrow> nat \<Rightarrow> bool" where
  "sorted_starts start n \<longleftrightarrow> (\<forall>i j. i \<le> j \<and> j < n \<longrightarrow> start i \<le> start j)"

lemma search_correct:
  "sorted_starts start n \<Longrightarrow> hi \<le> n \<Longrightarrow> lo \<le> hi \<Longrightarrow> (\<forall>i < lo. start i \<le> key) \<Longrightarrow>
   (\<forall>i. hi \<le> i \<and> i < n \<longrightarrow> key < start i) \<Longrightarrow>
   (\<forall>i < search start key lo hi. start i \<le> key) \<and>
   (\<forall>i. search start key lo hi \<le> i \<and> i < n \<longrightarrow> key < start i)"
proof (induction start key lo hi rule: search.induct)
  case (1 start key lo hi)
  show ?case
  proof (cases "lo < hi")
    case True
    let ?mid = "(lo + hi) div 2"
    have mid: "lo \<le> ?mid" "?mid < hi" "?mid < n" using True "1.prems"(2) by auto
    have le: "start i \<le> start ?mid" if "i \<le> ?mid" for i
      using "1.prems"(1) that mid(3) by (auto simp: sorted_starts_def)
    have ge: "start ?mid \<le> start i" if "?mid \<le> i" "i < n" for i
      using "1.prems"(1) that by (auto simp: sorted_starts_def)
    show ?thesis
    proof (cases "start ?mid \<le> key")
      case b: True
      have "\<forall>i < ?mid + 1. start i \<le> key" using le b by (auto simp: less_Suc_eq_le intro: order_trans)
      moreover have "search start key lo hi = search start key (?mid + 1) hi"
        using b True by (subst search.simps) (simp add: Let_def)
      ultimately show ?thesis
        using "1.IH"(1) [OF True refl b "1.prems"(1,2)] "1.prems"(5) mid(2) by (metis Suc_eq_plus1 Suc_leI)
    next
      case b: False
      have "\<forall>i. ?mid \<le> i \<and> i < n \<longrightarrow> key < start i" using ge b by (auto simp: not_le intro: less_le_trans)
      moreover have "search start key lo hi = search start key lo ?mid"
        using b True by (subst search.simps) (simp add: Let_def)
      ultimately show ?thesis
        using "1.IH"(2) [OF True refl b "1.prems"(1) less_imp_le [OF mid(3)] mid(1) "1.prems"(4)] by simp
    qed
  next
    case False
    then show ?thesis using "1.prems" by (subst (1 2) search.simps) auto
  qed
qed

text \<open>The entries of a table as intervals, sorted and disjoint.\<close>

definition v4_start :: "Table \<Rightarrow> nat \<Rightarrow> nat" where "v4_start t i = u32le (v4 t) (i * V4_ENTRY)"
definition v4_end :: "Table \<Rightarrow> nat \<Rightarrow> nat" where "v4_end t i = u32le (v4 t) (i * V4_ENTRY + 4)"

definition v4_table_ok :: "Table \<Rightarrow> bool" where
  "v4_table_ok t \<longleftrightarrow>
     (\<forall>i < v4_count t. v4_start t i < v4_end t i) \<and>
     (\<forall>i j. i < j \<and> j < v4_count t \<longrightarrow> v4_end t i \<le> v4_start t j)"

lemma v4_sorted: "v4_table_ok t \<Longrightarrow> sorted_starts (v4_start t) (v4_count t)"
  unfolding v4_table_ok_def sorted_starts_def
  by (metis le_less less_imp_le order.strict_trans2 order_trans)

text \<open>
  C24: the binary search is a linear lookup.  In a table whose ranges are sorted and disjoint,
  an address gets the country of the range that contains it, and no country when no range
  does.
\<close>
theorem v4_lookup_finds_the_range:
  assumes "v4_table_ok t"
  shows "(\<forall>i < v4_count t. v4_start t i \<le> key \<and> key < v4_end t i \<longrightarrow>
            lookup_v4 t key = code t (u16le (v4 t) (i * V4_ENTRY + 8))) \<and>
         ((\<forall>i < v4_count t. \<not> (v4_start t i \<le> key \<and> key < v4_end t i)) \<longrightarrow> lookup_v4 t key = None)"
proof -
  let ?lo = "search (v4_start t) key 0 (v4_count t)"
  have lo: "\<forall>i < ?lo. v4_start t i \<le> key" "\<forall>i. ?lo \<le> i \<and> i < v4_count t \<longrightarrow> key < v4_start t i" "?lo \<le> v4_count t"
    using search_correct [OF v4_sorted [OF assms], of "v4_count t" 0 key] search_bounds by auto
  have lookup: "lookup_v4 t key = (if ?lo = 0 then None
      else if key \<ge> v4_start t (?lo - 1) \<and> key < v4_end t (?lo - 1)
           then code t (u16le (v4 t) ((?lo - 1) * V4_ENTRY + 8)) else None)"
    by (simp add: lookup_v4_def v4_start_def [abs_def] v4_end_def Let_def)
  have hit: "lookup_v4 t key = code t (u16le (v4 t) (i * V4_ENTRY + 8))"
    if "i < v4_count t" "v4_start t i \<le> key" "key < v4_end t i" for i
  proof -
    have "i < ?lo" using lo(2) that by (metis not_le)
    moreover have "\<not> i < ?lo - 1"
    proof
      assume "i < ?lo - 1"
      then have "v4_end t i \<le> v4_start t (?lo - 1)" using assms lo(3) by (auto simp: v4_table_ok_def)
      moreover have "v4_start t (?lo - 1) \<le> key" using lo(1) \<open>i < ?lo\<close> by simp
      ultimately show False using that(3) by simp
    qed
    ultimately have "i = ?lo - 1" "?lo \<noteq> 0" by auto
    then show ?thesis using lookup that by simp
  qed
  have miss: "lookup_v4 t key = None" if "\<forall>i < v4_count t. \<not> (v4_start t i \<le> key \<and> key < v4_end t i)"
    using that lo(3) by (auto simp: lookup)
  show ?thesis using hit miss by blast
qed

definition demo_table :: Table where
  "demo_table = \<lparr> codes = [85, 83, 102, 114],
     v4 = [0, 0, 0, 8, 0, 0, 0, 9, 0, 0, 0, 0, 0, 193, 0, 0, 1, 193, 1, 0], v6 = [], v4_count = 2, v6_count = 0 \<rparr>"

theorem v4_lookup_finds_the_range_witness: "lookup_v4 demo_table 134744072 = Some ''US''"
proof -
  have n: "i < v4_count demo_table \<longleftrightarrow> i = 0 \<or> i = 1" for i by (auto simp: demo_table_def)
  have s: "v4_start demo_table 0 = 134217728" "v4_end demo_table 0 = 150994944"
    "v4_start demo_table 1 = 3238002688" "v4_end demo_table 1 = 3238068224"
    by (simp_all add: demo_table_def v4_start_def v4_end_def u32le_def V4_ENTRY_def)
  have "v4_table_ok demo_table" unfolding v4_table_ok_def n using s by auto
  note v4_lookup_finds_the_range [OF this, of 134744072]
  moreover have "0 < v4_count demo_table" by (simp add: demo_table_def)
  ultimately have "lookup_v4 demo_table 134744072 = code demo_table (u16le (v4 demo_table) (0 * V4_ENTRY + 8))"
    using s by simp
  also have "\<dots> = Some [char_of (85::nat), char_of (83::nat)]"
    by (simp add: demo_table_def u16le_def code_def upper_def Let_def)
  also have "\<dots> = Some ''US''" by code_simp
  finally show ?thesis .
qed

end
