(* ===== verification/Sign_In.thy ===== *)
theory Sign_In
  imports Server_Step
begin

text \<open>
  Who is signed in: the account of a connection, and the one way it is set.  The roster \<open>who\<close> of a
  hub lists its connections with their accounts; the lemmas show that every operation but
  \<^verbatim>\<open>hello\<close>, connecting and disconnecting keeps it, so that the theorem can say what signing in
  takes.
\<close>

subsection \<open>The roster\<close>

definition who :: "Hub \<Rightarrow> bool \<times> (string \<times> Player option) list" where
  "who g = (h_require_login g, map (\<lambda>(p, c). (p, cl_account c)) (h_clients g))"

lemma modify_accounts:
  "(\<And>c. cl_account (f c) = cl_account c) \<Longrightarrow> map (\<lambda>(p, c). (p, cl_account c)) (modify p f xs) = map (\<lambda>(p, c). (p, cl_account c)) xs"
  by (induction xs) auto

lemma who_upd_client [simp]: "(\<And>c. cl_account (f c) = cl_account c) \<Longrightarrow> who (upd_client p f g) = who g"
  by (simp add: who_def upd_client_def modify_accounts)

lemma who_frame [simp]:
  "who (g\<lparr> h_lobbies := a \<rparr>) = who g" "who (g\<lparr> h_next_session := b \<rparr>) = who g" "who (g\<lparr> h_chat_ring := c \<rparr>) = who g"
  "who (g\<lparr> h_next_chat_id := b \<rparr>) = who g" "who (g\<lparr> h_probe_grants := d \<rparr>) = who g" "who (g\<lparr> h_out := f \<rparr>) = who g"
  by (simp_all add: who_def)

lemma who_upd_lobby [simp]: "who (upd_lobby lid f g) = who g"
  by (simp add: upd_lobby_def)

lemma who_send_to [simp]: "who (send_to p m g) = who g"
  by (simp add: send_to_def)

lemma who_foldl: "(\<And>h x. who (f h x) = who h) \<Longrightarrow> who (foldl f g xs) = who g"
  by (induction xs arbitrary: g) simp_all

lemma who_send_all [simp]: "who (send_all ps m g) = who g"
  by (simp add: send_all_def who_foldl)

lemma who_refuse [simp]: "who (refuse p c g) = who g"
  by (simp add: refuse_def)

lemma who_notices [simp]:
  "who (emit_lobby_update e lid g) = who g" "who (chat_system lid t g) = who g"
  by (simp_all add: emit_lobby_update_def chat_system_def split: option.split)

lemma who_broadcast_list [simp]: "who (broadcast_list e g) = who g"
  unfolding broadcast_list_def by (rule who_foldl) (simp split: prod.split)

lemma who_remember_chat: "remember_chat a b c d f h g = (g', i) \<Longrightarrow> who g' = who g"
  by (auto simp: remember_chat_def Let_def)

lemma who_seats [simp]:
  "who (unseat_client p g) = who g" "who (seat_in_match lid p g) = who g" "who (rename_client p n g) = who g"
  "who (set_game p n g) = who g"
  by (simp_all add: unseat_client_def seat_in_match_def rename_client_def set_game_def split: option.split)

lemma who_destroy_lobby [simp]: "who (destroy_lobby e lid g) = who g"
  by (auto simp: destroy_lobby_def Let_def who_foldl split: option.split)

lemma who_client_leave [simp]: "who (client_leave e p g) = who g"
  by (auto simp: client_leave_def Let_def split: option.split)

lemma who_within_rate: "within_rate t p g = (g', ok) \<Longrightarrow> who g' = who g"
  by (auto simp: within_rate_def split: option.splits prod.splits)

subsection \<open>The handlers of rooms and talk\<close>

lemma who_room_edit: "(\<And>lid h. who (k lid h) = who h) \<Longrightarrow> who (room_edit p f k g) = who g"
  by (auto simp: room_edit_def split: sum.split)

lemma who_edits [simp]:
  "who (handle_move e p msg g) = who g" "who (handle_seat_move e p msg g) = who g"
  "who (handle_seat_swap_request p msg g) = who g" "who (handle_seat_swap_answer e p msg g) = who g"
  "who (handle_set_host_endpoint e p ip msg g) = who g" "who (handle_path_report e p msg g) = who g"
  "who (handle_set_match_caps e p msg g) = who g" "who (handle_set_ready e p msg g) = who g"
  by (auto simp: handle_move_def handle_seat_move_def handle_seat_swap_request_def handle_seat_swap_answer_def
      handle_set_host_endpoint_def handle_path_report_def handle_set_match_caps_def handle_set_ready_def Let_def who_room_edit
      split: option.split sum.split)

lemma who_start_lobby: "start_lobby e lid raw i ice g = Inr g' \<Longrightarrow> who g' = who g"
  by (auto simp: start_lobby_def Let_def split: option.splits sum.splits if_splits)

lemma who_handle_start [simp]: "who (handle_start e p msg g) = who g"
  by (auto simp: handle_start_def split: sum.split option.split dest: who_start_lobby)

lemma who_goings [simp]:
  "who (handle_leave e p g) = who g" "who (handle_close e p g) = who g"
  by (auto simp: handle_leave_def handle_close_def split: sum.split)

lemma who_handle_kick: "handle_kick e p msg g = Inr g' \<Longrightarrow> who g' = who g"
  by (auto simp: handle_kick_def Let_def split: option.splits sum.splits if_splits)

lemma who_handle_create [simp]: "who (handle_create e p ip msg g) = who g"
  by (simp add: handle_create_def Let_def)

lemma who_seat_joiner: "seat_joiner_locked e lid p ip b pw off g = SeatOk n g' \<Longrightarrow> who g' = who g"
  by (auto simp: seat_joiner_locked_def Let_def split: option.splits if_splits)

lemma who_handle_join: "handle_join e p ip msg g = Inr g' \<Longrightarrow> who g' = who g"
  by (auto simp: handle_join_def join_outcome_def Let_def dest!: who_seat_joiner
      split: option.splits SeatResult.splits if_splits)

lemma who_talk [simp]:
  "who (handle_chat e p msg g) = who g" "who (handle_server_chat e p msg g) = who g"
  "who (handle_set_blocks p msg g) = who g" "who (handle_list e p msg g) = who g"
  "who (handle_get_turn_credentials e p g) = who g"
  by (auto simp: handle_chat_def handle_server_chat_def handle_set_blocks_def handle_list_def
      handle_get_turn_credentials_def Let_def split: option.split prod.split dest!: who_remember_chat)

lemma who_signals:
  "handle_signal e p msg g = Inr g' \<Longrightarrow> who g' = who g"
  "handle_mod_signal p msg g = Inr g' \<Longrightarrow> who g' = who g"
  "who (handle_probe_signal e p msg g) = who g" "who (handle_mod_xfer_start p msg g) = who g"
  "who (handle_mod_xfer_cancel p g) = who g" "who (handle_mod_xfer_fail p msg g) = who g"
  by (auto simp: handle_signal_def handle_mod_signal_def handle_probe_signal_def handle_mod_xfer_start_def
      handle_mod_xfer_cancel_def handle_mod_xfer_fail_def Let_def
      split: option.splits prod.splits sum.splits if_splits dest!: who_within_rate)

subsection \<open>The queue\<close>

lemma who_on_hub [simp]: "(\<And>g. who (f g) = who g) \<Longrightarrow> who (sv_hub (on_hub f s)) = who (sv_hub s)"
  by (simp add: on_hub_def)

lemma who_send [simp]: "who (sv_hub (send p m s)) = who (sv_hub s)" "who (sv_hub (deny p c s)) = who (sv_hub s)"
  by (simp_all add: send_def deny_def)

lemma who_foldl_server:
  "(\<And>s x. who (sv_hub (f s x)) = who (sv_hub s)) \<Longrightarrow> who (sv_hub (foldl f s xs)) = who (sv_hub s)"
  by (induction xs arbitrary: s) simp_all

lemma who_settling [simp]:
  "who (sv_hub (requeue e t r s)) = who (sv_hub s)" "who (sv_hub (strike e t k p s)) = who (sv_hub s)"
  by (simp_all add: requeue_def strike_def)

lemma who_settle_declined [simp]: "who (sv_hub (settle_declined e p l k s)) = who (sv_hub s)"
  by (simp add: settle_declined_def Let_def split: prod.split)

lemma who_pairing [simp]:
  "who (sv_hub (offer_pair e p s)) = who (sv_hub s)" "who (sv_hub (run_pairing e s)) = who (sv_hub s)"
  by (simp_all add: offer_pair_def run_pairing_def Let_def who_foldl_server split: prod.split)

lemma who_form_match [simp]: "who (sv_hub (form_match e p s)) = who (sv_hub s)"
  by (simp add: form_match_def Let_def split: option.split)

lemma who_launch_task [simp]: "who (sv_hub (launch_task e lid p late s)) = who (sv_hub s)"
  by (auto simp: launch_task_def launch_failed_def try_launch_def Let_def who_foldl_server
      split: launch_result.split sum.split dest: who_start_lobby)

lemma who_drop_player [simp]: "who (sv_hub (drop_player e p s)) = who (sv_hub s)"
  by (simp add: drop_player_def split: prod.split option.split)

lemma who_queue_handlers [simp]:
  "who (sv_hub (handle_automatch_rulesets e p msg s)) = who (sv_hub s)"
  "who (sv_hub (handle_automatch_queue e p msg s)) = who (sv_hub s)"
  "who (sv_hub (handle_automatch_rtt e p msg s)) = who (sv_hub s)"
  "who (sv_hub (handle_automatch_cancel e p s)) = who (sv_hub s)"
  "who (sv_hub (handle_automatch_accept e p msg s)) = who (sv_hub s)"
  by (simp_all add: handle_automatch_rulesets_def handle_automatch_queue_def handle_automatch_rtt_def
      handle_automatch_cancel_def handle_automatch_accept_def Let_def split: option.split sum.split prod.split)

lemma who_reports [simp]:
  "who (sv_hub (handle_chat_report e p msg s)) = who (sv_hub s)"
  "who (sv_hub (handle_desync_report e p msg s)) = who (sv_hub s)"
  by (simp_all add: handle_chat_report_def handle_desync_report_def Let_def
      split: sum.split prod.split Submitted.split option.split)

lemma who_tick [simp]: "who (sv_hub (automatch_tick e s)) = who (sv_hub s)"
proof -
  have "who (sv_hub (settle_expired e p s)) = who (sv_hub s)" for p s
    by (simp add: settle_expired_def Let_def)
  then show ?thesis by (simp add: automatch_tick_def Let_def who_foldl_server split: prod.split)
qed

subsection \<open>Signing in\<close>

definition account :: "Hub \<Rightarrow> string \<Rightarrow> Player option" where
  "account g p = Option.bind (client g p) cl_account"

lemma map_of_accounts: "map_of (map (\<lambda>(p, c). (p, cl_account c)) xs) p = map_option cl_account (map_of xs p)"
  by (induction xs) auto

lemma account_who: "account g p = Option.bind (map_of (snd (who g)) p) (\<lambda>a. a)"
  by (cases "map_of (h_clients g) p") (simp_all add: account_def client_def who_def map_of_accounts)

lemma who_account: "who g' = who g \<Longrightarrow> account g' = account g"
  by (rule ext) (simp add: account_who)

lemma who_require: "who g' = who g \<Longrightarrow> h_require_login g' = h_require_login g"
  by (simp add: who_def)

lemma signed_in_account: "signed_in p g \<longleftrightarrow> account g p \<noteq> None"
  by (cases "client g p") (simp_all add: signed_in_def account_def)

lemma account_upd: "account (upd_client p f g) q = (if q = p then Option.bind (map_option f (client g p)) cl_account else account g q)"
  by (simp add: account_def client_upd)

text \<open>The session a \<^verbatim>\<open>hello\<close> presents, when the server accepts it: the token verifies and names a
  player of the table.\<close>

definition presented :: "HubEnv \<Rightarrow> InMsg \<Rightarrow> Player option" where
  "presented e msg =
     (case nonempty (m_session msg) of
        None \<Rightarrow> None
      | Some tok \<Rightarrow> (case session_account e tok of Inr r \<Rightarrow> r | Inl _ \<Rightarrow> None))"

lemma who_apply_identity: "apply_identity e p name game g = (g', n, r) \<Longrightarrow> who g' = who g"
  by (auto simp: apply_identity_def Let_def split: option.splits sum.splits prod.splits if_splits)

lemma who_hello:
  "who (handle_hello e p msg g) =
     who (case presented e msg of Some a \<Rightarrow> upd_client p (\<lambda>c. c\<lparr> cl_account := Some a \<rparr>) g | None \<Rightarrow> g)"
proof -
  define r where "r = (case nonempty (m_session msg) of
       None \<Rightarrow> (g, nonempty (m_display_name msg))
     | Some tok \<Rightarrow>
         (case session_account e tok of
            Inr (Some player) \<Rightarrow> (upd_client p (\<lambda>c. c\<lparr> cl_account := Some player \<rparr>) g, Some (pl_handle player))
          | Inr None \<Rightarrow> (g, nonempty (m_display_name msg))
          | Inl _ \<Rightarrow> (refuse p ''session_invalid'' g, nonempty (m_display_name msg))))"
  obtain g1 name where r: "r = (g1, name)" by force
  obtain g2 accepted renamed where i: "apply_identity e p name (nonempty (m_game msg)) g1 = (g2, accepted, renamed)"
    by (metis prod.exhaust)
  have "who (handle_hello e p msg g) = who g2"
    unfolding handle_hello_def r_def [symmetric] r by (auto simp: i Let_def split: option.split)
  also have "\<dots> = who g1" by (rule who_apply_identity [OF i])
  also have "\<dots> = who (case presented e msg of Some a \<Rightarrow> upd_client p (\<lambda>c. c\<lparr> cl_account := Some a \<rparr>) g | None \<Rightarrow> g)"
    using r by (auto simp: r_def presented_def split: option.splits sum.splits)
  finally show ?thesis .
qed

lemma account_hello:
  "account (handle_hello e p msg g) q =
     (if q = p \<and> client g p \<noteq> None \<and> presented e msg \<noteq> None then presented e msg else account g q)"
  unfolding who_account [OF who_hello]
  by (cases "client g p") (auto simp: account_def client_upd split: option.split)

lemma who_handlers:
  assumes "(op, f) \<in> set (handlers e p ip msg)" "op \<noteq> ''hello''" "f s = Inr s'"
  shows "who (sv_hub s') = who (sv_hub s)"
  using assms(1) assms(2,3)
  unfolding handlers_def Let_def set_simps
  by (elim insertE; (elim Pair_inject)?; (simp only: hub_result_Inr)?)
    (auto simp: on_hub_def who_signals(3-) dest: who_handle_join who_handle_kick who_signals(1,2))

text \<open>A message either leaves the roster alone or is a \<^verbatim>\<open>hello\<close>.\<close>

lemma receive_who:
  "who (sv_hub (receive e p ip raw s)) = who (sv_hub s) \<or>
   m_op raw = ''hello'' \<and>
   who (sv_hub (receive e p ip raw s)) = who (handle_hello (s_hub e) p (fst (sanitize_in_place (e_filter (s_hub e)) raw)) (sv_hub s))"
proof (cases "handle_text e p ip raw s")
  case (Inl c)
  then show ?thesis by (simp add: receive_def)
next
  case (Inr s')
  obtain msg r where m: "sanitize_in_place (e_filter (s_hub e)) raw = (msg, r)" by force
  then have op: "m_op msg = m_op raw" by (auto simp: sanitize_in_place_def Let_def)
  consider "s' = s" | code where "s' = deny p code s" | "s' = send p (unknown_op_json (m_op msg)) s"
    | f where "\<not> login_gate p msg s" "map_of (handlers e p ip msg) (m_op msg) = Some f" "f s = Inr s'"
    using Inr m unfolding handle_text_def by (auto split: option.splits if_splits)
  then show ?thesis
  proof cases
    case 4
    show ?thesis
    proof (cases "m_op msg = ''hello''")
      case True
      then have "s' = s\<lparr> sv_hub := handle_hello (s_hub e) p msg (sv_hub s) \<rparr>"
        using 4(2,3) by (auto simp: handlers_def Let_def on_hub_def)
      then show ?thesis using True op m Inr by (simp add: receive_def)
    next
      case False
      from who_handlers [OF map_of_SomeD [OF 4(2)] this 4(3)] show ?thesis using Inr by (simp add: receive_def)
    qed
  qed (use Inr in \<open>simp_all add: receive_def\<close>)
qed

lemma receive_account:
  "account (sv_hub (receive e p ip raw s)) q = account (sv_hub s) q \<or>
   q = p \<and> m_op raw = ''hello'' \<and> account (sv_hub (receive e p ip raw s)) q = presented (s_hub e) raw \<and> presented (s_hub e) raw \<noteq> None"
proof -
  obtain msg r where m: "sanitize_in_place (e_filter (s_hub e)) raw = (msg, r)" by force
  then have "presented (s_hub e) msg = presented (s_hub e) raw"
    by (auto simp: sanitize_in_place_def Let_def presented_def)
  then show ?thesis
    using receive_who [of e p ip raw s] m by (auto simp: account_hello split: if_splits dest: who_account)
qed

lemma connect_account: "account (sv_hub (connect p ip country s)) q = (if q = p then None else account (sv_hub s) q)"
  by (simp add: connect_def on_hub_def account_def client_def update_conv new_client_def)

lemma disconnect_account: "account (sv_hub (disconnect e p s)) q = (if q = p then None else account (sv_hub s) q)"
proof -
  have "account (sv_hub (on_hub (client_leave (s_hub e) p) (drop_player e p s))) q = account (sv_hub s) q"
    by (rule fun_cong [OF who_account]) simp
  then show ?thesis
    by (simp add: disconnect_def on_hub_def remove_client_def account_def client_def delete_conv)
qed

text \<open>The events that speak for the connection \<open>p\<close>; all others leave its account alone.\<close>

definition speaks_for :: "string \<Rightarrow> event \<Rightarrow> bool" where
  "speaks_for p ev \<longleftrightarrow>
     (case ev of Receive q ip m \<Rightarrow> q = p | Connect q ip country \<Rightarrow> q = p | Disconnect q \<Rightarrow> q = p | _ \<Rightarrow> False)"

lemma who_exec: "speaks_for p ev \<or> account (sv_hub (exec e ev s)) p = account (sv_hub s) p"
proof (cases ev)
  case (PushList q)
  have "who (sv_hub (push_list e q s)) = who (sv_hub s)" by (simp add: push_list_def split: option.split)
  from who_account [OF this] show ?thesis by (simp add: PushList)
next
  case Tick
  then show ?thesis using who_account [OF who_tick [of e s]] by simp
next
  case (LaunchTask lid pn late)
  then show ?thesis using who_account [OF who_launch_task [of e lid pn late s]] by simp
next
  case (Receive q ip raw)
  then show ?thesis using receive_account [of e q ip raw s p] by (auto simp: speaks_for_def)
qed (simp_all add: speaks_for_def connect_account disconnect_account)

lemma require_exec: "h_require_login (sv_hub (exec e ev s)) = h_require_login (sv_hub s)"
proof (cases ev)
  case (Connect q ip country)
  then show ?thesis by (simp add: connect_def on_hub_def)
next
  case (Receive q ip raw)
  have "h_require_login (handle_hello f q m g) = h_require_login g" for f m g
    using who_hello [of f q m g] by (auto simp: who_def upd_client_def split: option.splits)
  then show ?thesis using receive_who [of e q ip raw s] by (auto simp: Receive dest: who_require)
next
  case (Disconnect q)
  have "h_require_login (sv_hub (on_hub (client_leave (s_hub e) q) (drop_player e q s))) = h_require_login (sv_hub s)"
    by (rule who_require) simp
  then show ?thesis by (simp add: Disconnect disconnect_def on_hub_def remove_client_def)
next
  case (PushList q)
  then show ?thesis by (simp add: push_list_def send_def on_hub_def send_to_def split: option.split)
next
  case Tick
  then show ?thesis using who_require [OF who_tick [of e s]] by simp
next
  case (LaunchTask lid pn late)
  then show ?thesis using who_require [OF who_launch_task [of e lid pn late s]] by simp
qed

text \<open>
  C3: Only a verified session signs in.  Whatever happens next to the server, in any state, the
  account of a connection changes in one way only: that connection sends a \<^verbatim>\<open>hello\<close> whose session
  token verifies, and it then stands for the player the token names.  Nothing another connection
  sends, no tick and no task signs anybody in or out; a connection begins and ends without an
  account.
\<close>

theorem only_a_verified_session_signs_in:
  assumes "account (sv_hub s) p \<noteq> account (sv_hub (exec e ev s)) p"
  shows "(\<exists>ip raw tok c a. ev = Receive p ip raw \<and> m_op raw = ''hello'' \<and> m_session raw = Some tok \<and>
      verify_session_token (e_jwt (s_hub e)) (unix e) (cfg e) tok = Inr c \<and>
      load_player (e_players (s_hub e)) (sub c) = Some a \<and> account (sv_hub (exec e ev s)) p = Some a) \<or>
    (\<exists>ip country. ev = Connect p ip country) \<or> ev = Disconnect p"
proof (cases "speaks_for p ev")
  case True
  then consider ip country where "ev = Connect p ip country" | ip raw where "ev = Receive p ip raw" | "ev = Disconnect p"
    by (auto simp: speaks_for_def split: event.splits)
  then show ?thesis
  proof cases
    case 2
    then have r: "m_op raw = ''hello''" "account (sv_hub (exec e ev s)) p = presented (s_hub e) raw" "presented (s_hub e) raw \<noteq> None"
      using assms receive_account [of e p ip raw s p] by auto
    then obtain tok c a where "m_session raw = Some tok" "verify_session_token (e_jwt (s_hub e)) (unix e) (cfg e) tok = Inr c"
        "load_player (e_players (s_hub e)) (sub c) = Some a" "presented (s_hub e) raw = Some a"
      by (auto simp: presented_def session_account_def unix_def cfg_def nonempty_def filter_option_def
          split: option.splits sum.splits if_splits)
    with r 2 show ?thesis by auto
  qed blast+
next
  case False
  then show ?thesis using who_exec [of p ev e s] assms by simp
qed

definition member_env :: ServerEnv where
  "member_env = demo_server_env\<lparr> s_hub := demo_hub_env\<lparr>
     e_jwt := (\<lambda>k t tok. if tok = ''tok'' then Some \<lparr> sub = 7, iat = 0, exp = 60 \<rparr> else None),
     e_players := [(7, \<lparr> api_token_hash = [], discord_id = Some ''1'', discord_username = Some ''ann'', discord_global_name = None,
       discord_avatar = None, netplay_handle = Some ''Ann'', linked_at = None, last_seen_at = None \<rparr>)] \<rparr> \<rparr>"

definition member_hello :: InMsg where
  "member_hello = (blank_msg ''hello'')\<lparr> m_session := Some ''tok'' \<rparr>"

lemma member_session: "presented (s_hub member_env) member_hello =
    Some \<lparr> pl_id = 7, pl_discord_id = ''1'', pl_discord_username = ''ann'', pl_handle = ''Ann'' \<rparr>"
proof -
  have "jwt_secret_current demo_cfg = Some ''s3cret''"
    unfolding demo_cfg_def env_fields by code_simp
  then have "jwt_verification_keys demo_cfg \<noteq> []" by (simp add: jwt_verification_keys_def)
  then obtain k ks where "jwt_verification_keys demo_cfg = k # ks" by (cases "jwt_verification_keys demo_cfg") auto
  then show ?thesis
    by (simp add: presented_def member_hello_def blank_msg_def nonempty_def session_account_def member_env_def demo_hub_env_def
        verify_session_token_def load_player_def Let_def)
qed

definition demo_lobby_door :: Server where
  "demo_lobby_door = exec demo_server_env (Connect ''a'' ''1.1.1.1'' []) (empty_server True)"

lemma member_hello_text: "handle_text member_env ''a'' ''1.1.1.1'' member_hello demo_lobby_door =
      Inr (on_hub (handle_hello (s_hub member_env) ''a'' member_hello) demo_lobby_door)"
  by (simp add: handle_text_def member_hello_def sanitize_in_place_def blank_msg_def sanitize_def login_gate_def handlers_def
      Let_def)

lemma member_signs_in:
  "account (sv_hub demo_lobby_door) ''a'' = None"
  "account (sv_hub (exec member_env (Receive ''a'' ''1.1.1.1'' member_hello) demo_lobby_door)) ''a'' =
     presented (s_hub member_env) member_hello"
proof -
  show "account (sv_hub demo_lobby_door) ''a'' = None"
    by (simp add: demo_lobby_door_def connect_account)
  note member_hello_text
  moreover have "client (sv_hub demo_lobby_door) ''a'' \<noteq> None"
    by (simp add: demo_lobby_door_def connect_def on_hub_def client_def update_conv)
  ultimately show "account (sv_hub (exec member_env (Receive ''a'' ''1.1.1.1'' member_hello) demo_lobby_door)) ''a'' =
      presented (s_hub member_env) member_hello"
    by (simp add: receive_def on_hub_def account_hello member_session)
qed

theorem only_a_verified_session_signs_in_witness:
  "\<exists>c. verify_session_token (e_jwt (s_hub member_env)) (unix member_env) (cfg member_env) ''tok'' = Inr c \<and>
    load_player (e_players (s_hub member_env)) (sub c) = presented (s_hub member_env) member_hello"
proof -
  have "account (sv_hub demo_lobby_door) ''a'' \<noteq>
      account (sv_hub (exec member_env (Receive ''a'' ''1.1.1.1'' member_hello) demo_lobby_door)) ''a''"
    unfolding member_signs_in member_session by simp
  from only_a_verified_session_signs_in [OF this] show ?thesis
    unfolding member_signs_in by (auto simp: member_hello_def)
qed

end
