(* ===== verification/Audience.thy ===== *)
theory Audience
  imports Server_Step
begin

text \<open>
  Who may hear what.  Every message of the hub is an object whose \<^verbatim>\<open>op\<close> is one of the protocol's
  (\<open>wire\<close>), and while the server demands a login, rooms, player lists, offers and signals go
  only to clients that have signed in: a client without an account is sent errors, pongs and
  results of seat swaps, and, against the comment at the login gate, the chat of its game.

  The locale \<open>audience\<close> states both for a set T of clients to be trusted with data: the predicate
  \<open>good\<close> is kept by every operation of the hub and of automatch whose caller is in T.  It is
  interpreted twice on the model, with T the clients that have signed in (\<open>insiders\<close>) and with
  T everybody, which gives the shape of messages alone.
\<close>

subsection \<open>Messages\<close>

definition server_ops :: "string list" where
  "server_ops =
     [''error'', ''pong'', ''hello_ok'', ''lobby_list'', ''lobby_update'', ''lobby_closed'', ''created'',
      ''joined'', ''left'', ''kicked'', ''need_mods'', ''launch'', ''chat'', ''server_chat'',
      ''host_endpoint_ok'', ''path_report_ok'', ''seat_swap_ask'', ''seat_swap_result'', ''signal'',
      ''probe_signal'', ''mod_signal'', ''mod_xfer_pull'', ''mod_xfer_fail'', ''turn_credentials'',
      ''automatch_found'', ''automatch_requeue'', ''automatch_cancelled'', ''automatch_queued'',
      ''automatch_rtt_ok'', ''automatch_accept_ok'', ''automatch_status'', ''automatch_rulesets_ok'',
      ''chat_report_ok'']"

definition public_ops :: "string list" where
  "public_ops = [''error'', ''pong'', ''seat_swap_result'', ''server_chat'']"

fun json_op :: "json \<Rightarrow> string option" where
  "json_op (JObj ((k, JStr op) # fs)) = (if k = ''op'' then Some op else None)"
| "json_op _ = None"

definition wire :: "json \<Rightarrow> bool" where
  "wire m \<longleftrightarrow> (case json_op m of Some op \<Rightarrow> op \<in> set server_ops | None \<Rightarrow> False)"

definition public :: "json \<Rightarrow> bool" where
  "public m \<longleftrightarrow> (case json_op m of Some op \<Rightarrow> op \<in> set public_ops | None \<Rightarrow> False)"

lemma wire_JObj: "wire (JObj ((''op'', JStr op) # fs)) \<longleftrightarrow> op \<in> set server_ops"
  by (simp add: wire_def)

lemma public_JObj: "public (JObj ((''op'', JStr op) # fs)) \<longleftrightarrow> op \<in> set public_ops"
  by (simp add: public_def)

lemma op_facts [simp]:
  "''error'' \<in> set server_ops"
  "''pong'' \<in> set server_ops"
  "''hello_ok'' \<in> set server_ops"
  "''lobby_list'' \<in> set server_ops"
  "''lobby_update'' \<in> set server_ops"
  "''lobby_closed'' \<in> set server_ops"
  "''created'' \<in> set server_ops"
  "''joined'' \<in> set server_ops"
  "''left'' \<in> set server_ops"
  "''kicked'' \<in> set server_ops"
  "''need_mods'' \<in> set server_ops"
  "''launch'' \<in> set server_ops"
  "''chat'' \<in> set server_ops"
  "''server_chat'' \<in> set server_ops"
  "''host_endpoint_ok'' \<in> set server_ops"
  "''path_report_ok'' \<in> set server_ops"
  "''seat_swap_ask'' \<in> set server_ops"
  "''seat_swap_result'' \<in> set server_ops"
  "''signal'' \<in> set server_ops"
  "''probe_signal'' \<in> set server_ops"
  "''mod_signal'' \<in> set server_ops"
  "''mod_xfer_pull'' \<in> set server_ops"
  "''mod_xfer_fail'' \<in> set server_ops"
  "''turn_credentials'' \<in> set server_ops"
  "''automatch_found'' \<in> set server_ops"
  "''automatch_requeue'' \<in> set server_ops"
  "''automatch_cancelled'' \<in> set server_ops"
  "''automatch_queued'' \<in> set server_ops"
  "''automatch_rtt_ok'' \<in> set server_ops"
  "''automatch_accept_ok'' \<in> set server_ops"
  "''automatch_status'' \<in> set server_ops"
  "''automatch_rulesets_ok'' \<in> set server_ops"
  "''chat_report_ok'' \<in> set server_ops"
  "''error'' \<in> set public_ops"
  "''pong'' \<in> set public_ops"
  "''seat_swap_result'' \<in> set public_ops"
  "''server_chat'' \<in> set public_ops"
  by (simp_all add: server_ops_def public_ops_def)

lemmas message_defs = wire_JObj public_JObj err_json_def lobby_update_json_def list_message_def
  lobby_list_json_filtered_def lobby_list_json_for_def Let_def swap_result_def launch_json_def created_json_def
  joined_json_def signal_json_def turn_error_def unknown_op_json_def bad_request_json_def requeue_json_def
  offer_json_def match_joined_json_def queued_json_def status_json_def rulesets_json_def

lemma wire_messages [simp]:
  "wire (err_json c)" "public (err_json c)" "wire (lobby_update_json t g l)" "wire (list_message g ls ps)"
  "wire (lobby_list_json_filtered e g fg fv)" "wire (lobby_list_json_for e g p)" "wire (swap_result ok)"
  "public (swap_result ok)" "wire (launch_json t g l sp tr)" "wire (created_json p l name)" "wire (joined_json l i lid)"
  "wire (signal_json ''signal'' lid p msg)" "wire (signal_json ''probe_signal'' lid p msg)"
  "wire (signal_json ''mod_signal'' lid p msg)" "wire (turn_error c)" "wire (unknown_op_json op)"
  "public (unknown_op_json op)" "wire (bad_request_json op)" "public (bad_request_json op)"
  "wire (requeue_json why ok)" "wire (offer_json e' pn me them)" "wire (match_joined_json l i ok)"
  "wire (queued_json ks acct ep ice q)" "wire (status_json w rtt pools)" "wire (rulesets_json rs game)"
  by (simp_all add: message_defs)

subsection \<open>The predicate\<close>

definition fine :: "string set \<Rightarrow> string \<times> json \<Rightarrow> bool" where
  "fine T x \<longleftrightarrow> wire (snd x) \<and> (fst x \<in> T \<or> public (snd x))"

text \<open>The hub has the login flag R, A says who has an account, whoever is in a room, waits for mods or holds
  a probe grant is in T, and what was sent after the first n messages is fine.\<close>

definition good :: "bool \<Rightarrow> string set \<Rightarrow> (string \<Rightarrow> bool) \<Rightarrow> nat \<Rightarrow> Hub \<Rightarrow> bool" where
  "good R T A n g \<longleftrightarrow>
     h_require_login g = R \<and>
     (\<forall>x \<in> set (h_clients g). (cl_account (snd x) \<noteq> None) = A (fst x) \<and> (cl_pending_mod (snd x) \<noteq> None \<longrightarrow> fst x \<in> T)) \<and>
     (\<forall>x \<in> set (h_lobbies g). set (member_ids (snd x)) \<subseteq> T \<and> lb_host (snd x) \<in> T) \<and>
     (\<forall>x \<in> set (h_probe_grants g). fst (fst x) \<in> T) \<and>
     n \<le> length (h_out g) \<and> (\<forall>x \<in> set (drop n (h_out g)). fine T x)"

named_theorems audience \<open>what keeps the audience of messages\<close>

lemma ball_modify: "\<forall>x \<in> set m. P x \<Longrightarrow> (\<And>v. P (p, v) \<Longrightarrow> P (p, f v)) \<Longrightarrow> \<forall>x \<in> set (modify p f m). P x"
  by (induction m) (auto split: if_splits)

lemma ball_update: "\<forall>x \<in> set m. P x \<Longrightarrow> P (a, b) \<Longrightarrow> \<forall>x \<in> set (AList.update a b m). P x"
  by (induction m) auto

lemma good_lobbyD:
  assumes "good R T A n g" "lobby g lid = Some l"
  shows "set (member_ids l) \<subseteq> T \<and> lb_host l \<in> T"
proof -
  have "(lid, l) \<in> set (h_lobbies g)" using assms(2) by (simp add: lobby_def map_of_SomeD)
  moreover have "\<forall>x \<in> set (h_lobbies g). set (member_ids (snd x)) \<subseteq> T \<and> lb_host (snd x) \<in> T"
    using assms(1) by (simp add: good_def)
  ultimately show ?thesis by force
qed

lemma good_clientD:
  assumes "good R T A n g" "(p, c) \<in> set (h_clients g)"
  shows "(cl_account c \<noteq> None) = A p \<and> (cl_pending_mod c \<noteq> None \<longrightarrow> p \<in> T)"
proof -
  have "\<forall>x \<in> set (h_clients g).
      (cl_account (snd x) \<noteq> None) = A (fst x) \<and> (cl_pending_mod (snd x) \<noteq> None \<longrightarrow> fst x \<in> T)"
    using assms(1) by (simp add: good_def)
  from bspec [OF this assms(2)] show ?thesis by simp
qed

lemma good_send:
  "good R T A n g \<Longrightarrow> p \<in> T \<or> public m \<Longrightarrow> wire m \<Longrightarrow> good R T A n (send_to p m g)"
  by (auto simp: good_def send_to_def fine_def)

lemma good_send_all:
  "good R T A n g \<Longrightarrow> set ps \<subseteq> T \<or> public m \<Longrightarrow> wire m \<Longrightarrow> good R T A n (send_all ps m g)"
  unfolding send_all_def by (induction ps arbitrary: g) (auto intro!: good_send)

lemma good_refuse: "good R T A n g \<Longrightarrow> good R T A n (refuse p c g)"
  by (simp add: refuse_def good_send)

lemma good_emit: "good R T A n g \<Longrightarrow> good R T A n (emit_lobby_update e lid g)"
  by (auto simp: emit_lobby_update_def split: option.split intro!: good_send_all dest: good_lobbyD)

lemma good_chat_system: "good R T A n g \<Longrightarrow> good R T A n (chat_system lid t g)"
  by (auto simp: chat_system_def wire_JObj split: option.split intro!: good_send_all dest: good_lobbyD)

lemma good_upd_client:
  assumes "good R T A n g" "\<And>c. cl_account (f c) = cl_account c"
    "\<And>c. cl_pending_mod (f c) \<noteq> None \<Longrightarrow> cl_pending_mod c \<noteq> None \<or> p \<in> T"
  shows "good R T A n (upd_client p f g)"
proof -
  have "\<forall>x \<in> set (modify p f (h_clients g)).
      (cl_account (snd x) \<noteq> None) = A (fst x) \<and> (cl_pending_mod (snd x) \<noteq> None \<longrightarrow> fst x \<in> T)"
    by (rule ball_modify) (use assms in \<open>auto simp: good_def\<close>)
  then show ?thesis using assms(1) by (simp add: good_def upd_client_def)
qed

lemma good_upd_lobby_fun:
  assumes "good R T A n g"
    "\<And>l. set (member_ids l) \<subseteq> T \<Longrightarrow> lb_host l \<in> T \<Longrightarrow> set (member_ids (f l)) \<subseteq> T \<and> lb_host (f l) \<in> T"
  shows "good R T A n (upd_lobby lid f g)"
proof -
  have "\<forall>x \<in> set (modify lid f (h_lobbies g)). set (member_ids (snd x)) \<subseteq> T \<and> lb_host (snd x) \<in> T"
    by (rule ball_modify) (use assms in \<open>auto simp: good_def\<close>)
  then show ?thesis using assms(1) by (simp add: good_def upd_lobby_def)
qed

lemma good_upd_lobby:
  "good R T A n g \<Longrightarrow> set (member_ids l') \<subseteq> T \<Longrightarrow> lb_host l' \<in> T \<Longrightarrow> good R T A n (upd_lobby lid (\<lambda>_. l') g)"
  by (rule good_upd_lobby_fun) auto

lemma good_insert_lobby:
  assumes "good R T A n g" "set (member_ids l) \<subseteq> T" "lb_host l \<in> T"
  shows "good R T A n (g\<lparr> h_next_session := k, h_lobbies := AList.update lid l (h_lobbies g) \<rparr>)"
proof -
  have "\<forall>x \<in> set (AList.update lid l (h_lobbies g)). set (member_ids (snd x)) \<subseteq> T \<and> lb_host (snd x) \<in> T"
    by (rule ball_update) (use assms in \<open>auto simp: good_def\<close>)
  then show ?thesis using assms(1) by (simp add: good_def)
qed

lemma good_fields:
  "good R T A n (g\<lparr> h_next_session := k \<rparr>) = good R T A n g"
  "good R T A n (g\<lparr> h_chat_ring := ring \<rparr>) = good R T A n g"
  "good R T A n (g\<lparr> h_next_chat_id := i \<rparr>) = good R T A n g"
  by (simp_all add: good_def)

lemma leave_op_members: "set (member_ids (leave_op p l)) \<subseteq> set (member_ids l)" "lb_host (leave_op p l) = lb_host l"
proof -
  have "set (member_ids (leave_op p l)) =
      set (map sl_player (everyone (l\<lparr> lb_slots := map (vacate p) (lb_slots l), lb_spectators := map (vacate p) (lb_spectators l),
        lb_guest_endpoint := [] \<rparr>)))"
    by (simp add: leave_op_def member_ids_def everyone_clear_ice)
  then show "set (member_ids (leave_op p l)) \<subseteq> set (member_ids l)"
    by (auto simp: member_ids_def everyone_def somes_vacate)
  show "lb_host (leave_op p l) = lb_host l" by (simp add: leave_op_def clear_ice_paths_def map_everyone_def)
qed

lemma start_commit_members:
  "set (member_ids (start_commit fresh sid l)) = set (member_ids l)" "lb_host (start_commit fresh sid l) = lb_host l"
  using start_commit_same_roster [of l fresh sid] roster_eqD(1) [of "start_commit fresh sid l" l]
  by (simp_all add: same_roster_def same_shape_def)

lemma rename_op_members:
  "set (member_ids (rename_op p n l)) = set (member_ids l)" "lb_host (rename_op p n l) = lb_host l"
  using rename_shape [of l p n] by (simp_all add: member_ids_def rename_members same_shape_def)

lemma good_rename: "good R T A n g \<Longrightarrow> good R T A n (rename_client p name g)"
  by (auto simp: rename_client_def intro!: good_upd_client split: option.split)

lemma good_unseat: "good R T A n g \<Longrightarrow> good R T A n (unseat_client p g)"
  by (auto simp: unseat_client_def intro!: good_upd_client)

lemma good_set_game: "good R T A n g \<Longrightarrow> good R T A n (set_game p game g)"
  by (auto simp: set_game_def intro!: good_upd_client split: option.split)

lemma good_remember: "good R T A n g \<Longrightarrow> good R T A n (fst (remember_chat a b c d f h g))"
  by (simp add: remember_chat_def Let_def) (simp add: good_def)

lemma good_within_rate: "good R T A n g \<Longrightarrow> good R T A n (fst (within_rate t p g))"
  by (auto simp: within_rate_def intro!: good_upd_client split: option.split prod.split)

lemma good_room_edit:
  assumes "roster_op op" "good R T A n g" "hub_ok g" "\<And>lid h. good R T A n h \<Longrightarrow> good R T A n (k lid h)"
  shows "good R T A n (room_edit p op k g)"
proof (cases "room_of g p")
  case (Inr x)
  obtain lid l where x: "x = (lid, l)" by force
  have l: "lobby g lid = Some l" using room_ofD Inr x by blast
  note lok = hub_okD(2) [OF assms(3) l]
  show ?thesis
  proof (cases "op l")
    case (Inr l')
    have "set (member_ids l') = set (member_ids l)" by (rule roster_op.keeps_members [OF assms(1) lok Inr])
    moreover have "lb_host l' = lb_host l" using roster_op.keeps_identity [OF assms(1) lok Inr] by (elim conjE)
    ultimately have "good R T A n (upd_lobby lid (\<lambda>_. l') g)"
      using good_lobbyD [OF assms(2) l] by (intro good_upd_lobby [OF assms(2)]) simp_all
    then show ?thesis using assms(4) \<open>room_of g p = Inr x\<close> Inr x by (simp add: room_edit_def)
  qed (use assms(2) Inr x in \<open>simp add: room_edit_def good_refuse\<close>)
qed (use assms(2) in \<open>simp add: room_edit_def good_refuse\<close>)

lemma good_start_lobby:
  assumes "good R T A n g" "start_lobby e lid raw init ice g = Inr g'"
  shows "good R T A n g'"
proof -
  let ?fresh = "sanitize_match_caps (e_json_len e) raw" and ?n = "h_next_session g"
  obtain l where l: "lobby g lid = Some l"
    using assms(2) by (auto simp: start_lobby_def Let_def split: option.splits)
  let ?l' = "start_commit ?fresh ?n l" and ?g = "g\<lparr> h_next_session := saturating_inc ?n \<rparr>"
  let ?g1 = "upd_lobby lid (\<lambda>_. ?l') ?g"
  have "good R T A n ?g1"
    using good_lobbyD [OF assms(1) l] assms(1)
    by (intro good_upd_lobby) (simp_all add: start_commit_members good_fields)
  moreover obtain sp tr where "g' = send_all (member_ids ?l') (launch_json (e_now e) ?g1 ?l' sp tr) ?g1"
    using assms(2) l by (auto simp: start_lobby_def Let_def split: if_splits sum.splits)
  ultimately show ?thesis
    using good_lobbyD [OF assms(1) l] by (auto intro!: good_send_all simp: start_commit_members)
qed

subsection \<open>The operations of the hub\<close>

text \<open>Trust: T holds everyone who has an account, and everyone when no login is required.\<close>

locale audience =
  fixes R :: bool and T :: "string set" and A :: "string \<Rightarrow> bool"
  assumes trust: "R \<longrightarrow> A p \<Longrightarrow> p \<in> T"
begin

lemma good_broadcast: "good R T A n g \<Longrightarrow> good R T A n (broadcast_list e g)"
proof -
  assume g: "good R T A n g"
  have "good R T A n (foldl (\<lambda>h (p, c). if h_require_login g \<and> cl_account c = None then h
      else send_to p (lobby_list_json_filtered e g (scope_filter (game_scope_for g p)) None) h) h ps)"
    if "set ps \<subseteq> set (h_clients g)" "good R T A n h" for ps h
    using that
  proof (induction ps arbitrary: h)
    case (Cons x ps)
    obtain p c where x: "x = (p, c)" by force
    have c: "(cl_account c \<noteq> None) = A p" using good_clientD [OF g, of p c] Cons.prems(1) x by simp
    have "p \<in> T" if "\<not> (R \<and> cl_account c = None)" using trust [of p] that c by auto
    moreover have "h_require_login g = R" using g by (simp add: good_def)
    ultimately have "good R T A n (if h_require_login g \<and> cl_account c = None then h
      else send_to p (lobby_list_json_filtered e g (scope_filter (game_scope_for g p)) None) h)"
      using Cons.prems(2) by (auto intro!: good_send)
    then show ?case using Cons by (simp add: x)
  qed simp
  then show ?thesis using g unfolding broadcast_list_def by blast
qed

lemma good_delete_lobby: "good R T A n g \<Longrightarrow> good R T A n (g\<lparr> h_lobbies := AList.delete lid (h_lobbies g) \<rparr>)"
proof -
  assume g: "good R T A n g"
  have "set (AList.delete lid m) \<subseteq> set m" for m :: "(string, Lobby) hashmap" by (induction m) auto
  then have "\<forall>x \<in> set (AList.delete lid (h_lobbies g)). Q x" if "\<forall>x \<in> set (h_lobbies g). Q x" for Q
    using that by blast
  note keep = this
  have "\<forall>x \<in> set (AList.delete lid (h_lobbies g)). set (member_ids (snd x)) \<subseteq> T \<and> lb_host (snd x) \<in> T"
    by (rule keep) (use g in \<open>simp add: good_def\<close>)
  then show ?thesis using g by (simp add: good_def)
qed

lemma good_destroy:
  assumes "good R T A n g"
  shows "good R T A n (destroy_lobby e lid g)"
proof (cases "lobby g lid")
  case (Some l)
  have "good R T A n (foldl (\<lambda>h p. unseat_client p h) h ps)" if "good R T A n h" for h ps
    using that by (induction ps arbitrary: h) (simp_all add: good_unseat)
  then show ?thesis
    using assms good_lobbyD [OF assms Some]
    by (auto simp: destroy_lobby_def Some Let_def wire_JObj intro!: good_broadcast good_send_all good_delete_lobby)
qed (use assms in \<open>simp add: destroy_lobby_def\<close>)

lemma good_client_leave:
  assumes "good R T A n g"
  shows "good R T A n (client_leave e p g)"
proof -
  have "good R T A n (upd_lobby lid (leave_op p) g1)" if "good R T A n g1" for lid g1
    using that leave_op_members(1) [of p] by (intro good_upd_lobby_fun) (auto simp: leave_op_members(2))
  then show ?thesis
    using assms
    by (auto simp: client_leave_def Let_def split: option.split
        intro!: good_unseat good_destroy good_broadcast good_emit good_chat_system)
qed

end

context audience
begin

lemma good_room_edits:
  assumes "good R T A n g" "hub_ok g" "p \<in> T"
  shows "good R T A n (handle_move e p msg g)" "good R T A n (handle_seat_move e p msg g)"
    "good R T A n (handle_set_match_caps e p msg g)" "good R T A n (handle_set_host_endpoint e p ip msg g)"
    "good R T A n (handle_path_report e p msg g)" "good R T A n (handle_set_ready e p msg g)"
proof -
  show "good R T A n (handle_move e p msg g)"
    using assms by (auto simp: handle_move_def split: option.split
        intro!: good_room_edit move_roster_op good_refuse good_emit)
  show "good R T A n (handle_seat_move e p msg g)"
    using assms by (auto simp: handle_seat_move_def split: option.split
        intro!: good_room_edit seat_move.roster_op_axioms good_refuse good_emit)
  show "good R T A n (handle_set_match_caps e p msg g)"
    using assms by (auto simp: handle_set_match_caps_def split: option.split
        intro!: good_room_edit caps.roster_op_axioms good_refuse good_emit)
  show "good R T A n (handle_set_host_endpoint e p ip msg g)"
    using assms by (auto simp: handle_set_host_endpoint_def wire_JObj split: option.split
        intro!: good_room_edit endpoint.roster_op_axioms good_refuse good_emit good_broadcast good_send)
  show "good R T A n (handle_path_report e p msg g)"
    using assms by (auto simp: handle_path_report_def wire_JObj split: option.split
        intro!: good_room_edit path.roster_op_axioms good_refuse good_send)
  show "good R T A n (handle_set_ready e p msg g)"
    using assms by (auto simp: handle_set_ready_def intro!: good_room_edit ready.roster_op_axioms good_emit)
qed

lemma good_seat_swap_request:
  assumes "good R T A n g" "p \<in> T"
  shows "good R T A n (handle_seat_swap_request p msg g)"
proof -
  have "sl_player occ \<in> T" if "room_of g p = Inr (lid, l)" "occupant l target = Some occ" for lid l target occ
  proof -
    have "occ \<in> set (everyone l)"
      using that(2) by (auto simp: occupant_def intro: seat_in_everyone split: option.splits)
    then show ?thesis
      using good_lobbyD [OF assms(1)] room_ofD [OF that(1)] by (auto simp: member_ids_def)
  qed
  then show ?thesis
    using assms
    by (auto simp: handle_seat_swap_request_def wire_JObj split: option.split sum.split
        intro!: good_refuse good_send)
qed

lemma good_seat_swap_answer:
  assumes "good R T A n g" "hub_ok g"
  shows "good R T A n (handle_seat_swap_answer e p msg g)"
proof -
  have "good R T A n (upd_lobby lid (\<lambda>_. l') (send_to q (swap_result b) g))"
    if "room_of g p = Inr (lid, l)" "answer_op p q accept l = Inr l'" for lid l l' q accept b
  proof -
    have l: "lobby g lid = Some l" using room_ofD [OF that(1)] by blast
    note lok = hub_okD(2) [OF assms(2) l]
    have "set (member_ids l') = set (member_ids l)" "lb_host l' = lb_host l"
      using answer.keeps_members [OF lok that(2)] answer.keeps_identity [OF lok that(2)] by simp_all
    then show ?thesis
      using good_lobbyD [OF assms(1) l] by (intro good_upd_lobby good_send assms(1)) simp_all
  qed
  moreover have "send_to q m (upd_lobby lid f g) = upd_lobby lid f (send_to q m g)" for q m lid f
    by (simp add: send_to_def upd_lobby_def client_def)
  ultimately show ?thesis
    using assms(1)
    by (auto simp: handle_seat_swap_answer_def Let_def split: sum.split intro!: good_send good_emit)
qed

lemma good_handle_start:
  assumes "good R T A n g" "p \<in> T"
  shows "good R T A n (handle_start e p msg g)"
  using assms good_start_lobby [OF assms(1)]
  by (auto simp: handle_start_def wire_JObj public_JObj split: sum.split prod.split option.split
      intro!: good_refuse good_send)

lemma good_leave_close:
  assumes "good R T A n g" "p \<in> T"
  shows "good R T A n (handle_leave e p g)" "good R T A n (handle_close e p g)"
  using assms
  by (auto simp: handle_leave_def handle_close_def wire_JObj split: sum.split
      intro!: good_send good_client_leave good_destroy)

lemma good_kicked:
  assumes g: "good R T A n g" "hub_ok g" and s: "occupant l k = Some s" "sl_player s \<noteq> lb_host l"
    and room: "room_of g p = Inr (lid, l)" and m: "wire m"
  shows "good R T A n (send_to (sl_player s) m (unseat_client (sl_player s) (upd_lobby lid (kick_op k) g)))"
proof -
  have l: "lobby g lid = Some l" using room_ofD [OF room] by blast
  have seat: "seat l k = Some (Some s)" using s(1) occupant_eq [of l k] by auto
  have T: "sl_player s \<in> T"
    using seat_in_everyone [OF seat] good_lobbyD [OF g(1) l] by (auto simp: member_ids_def)
  have "upd_lobby lid (kick_op k) g = upd_lobby lid (\<lambda>_. kick_op k l) g"
    using modify_same [OF l [unfolded lobby_def]] by (simp add: upd_lobby_def)
  moreover have "good R T A n (upd_lobby lid (\<lambda>_. kick_op k l) g)"
    using kick_op_ok(2) [OF hub_okD(2) [OF g(2) l] seat s(2)] kick_op_roster(2) [OF seat] good_lobbyD [OF g(1) l]
    by (intro good_upd_lobby g(1)) (auto simp: same_shape_def)
  ultimately show ?thesis using m T by (simp add: good_send good_unseat)
qed

lemma good_handle_kick:
  assumes g: "good R T A n g" "hub_ok g" and kick: "handle_kick e p msg g = Inr g'"
  shows "good R T A n g'"
proof -
  obtain k where k: "m_slot msg = Some k" using kick by (auto simp: handle_kick_def split: option.splits)
  show ?thesis
  proof (cases "room_of g p")
    case (Inr x)
    obtain lid l where x: "x = (lid, l)" by force
    let ?note = "JObj [(''op'', JStr ''kicked''), (''ok'', JBool True), (''lobby_id'', JStr lid)]"
    let ?out = "\<lambda>s. broadcast_list e (emit_lobby_update e lid
      (send_to (sl_player s) ?note (unseat_client (sl_player s) (upd_lobby lid (kick_op k) g))))"
    have "good R T A n (?out s)" if "occupant l k = Some s" "sl_player s \<noteq> lb_host l" for s
      using good_kicked [OF g that Inr [unfolded x], of ?note] by (simp add: wire_JObj good_broadcast good_emit)
    moreover have "(\<exists>c. g' = refuse p c g) \<or> (\<exists>s. occupant l k = Some s \<and> sl_player s \<noteq> lb_host l \<and>
        (g' = ?out s \<or> (\<exists>t. g' = chat_system lid t (?out s))))"
      using kick k Inr x by (auto simp: handle_kick_def Let_def split: option.splits if_splits)
    ultimately show ?thesis using g(1) by (auto intro: good_refuse good_chat_system)
  qed (use kick k g in \<open>simp add: handle_kick_def\<close>)
qed

lemma good_handle_create:
  assumes "good R T A n g" "p \<in> T"
  shows "good R T A n (handle_create e p ip msg g)"
proof -
  let ?g1 = "rename_client p (m_display_name msg) g"
  let ?l = "new_lobby e p ip msg ?g1"
  have "good R T A n (?g1\<lparr> h_next_session := k, h_lobbies := AList.update (lb_id ?l) ?l (h_lobbies ?g1) \<rparr>)" for k
    using assms by (intro good_insert_lobby good_rename) (simp_all add: new_lobby_ok(2), simp add: new_lobby_def Let_def)
  then have "good R T A n (upd_client p (\<lambda>c. c\<lparr> cl_lobby := Some (lb_id ?l), cl_game := lb_game ?l \<rparr>)
      (?g1\<lparr> h_next_session := k, h_lobbies := AList.update (lb_id ?l) ?l (h_lobbies ?g1) \<rparr>))" for k
    by (intro good_upd_client) simp_all
  then show ?thesis
    using assms by (simp add: handle_create_def Let_def good_refuse good_broadcast good_send)
qed

lemma good_seated:
  assumes g: "good R T A n g" "hub_ok g" "p \<in> T" and new: "home g p = None"
    and seat: "seat_joiner_locked e lid p ip gb pw offer g = SeatOk k g'"
  shows "good R T A n g'"
proof -
  obtain l where l: "lobby g lid = Some l" and free: "free_seat l = Some k"
    and g': "g' = (let name = unique_display_name (e_uuid e 0) l (client_name p g ''Guest'') (Some p);
          l' = seat_joiner k p name (client_country p g) (own_endpoint gb ip) l
        in upd_client p (\<lambda>c. c\<lparr> cl_lobby := Some lid, cl_display := name,
             cl_game := (if lb_game l \<noteq> [] then lb_game l else cl_game c) \<rparr>) (upd_lobby lid (\<lambda>_. l') g))"
    using seat by (auto simp: seat_joiner_locked_def Let_def split: option.splits if_splits)
  let ?name = "unique_display_name (e_uuid e 0) l (client_name p g ''Guest'') (Some p)"
  let ?l' = "seat_joiner k p ?name (client_country p g) (own_endpoint gb ip) l"
  note lok = hub_okD(2) [OF g(2) l]
  have "p \<notin> set (member_ids l)" using hub_okD(4) [OF g(2) l] new by simp
  moreover have "\<not> name_taken l (Some p) ?name"
    by (rule conjunct1 [OF unique_name_cases]) (use lobby_ok_few [OF lok] in simp)
  ultimately have "set (member_ids ?l') = insert p (set (member_ids l))" by (intro seat_joiner_ok(2) lok free)
  moreover have "lb_host ?l' = lb_host l"
    using seat_joiner_roster(2) [OF free_seat_empty [OF lok free]] by (simp add: same_shape_def)
  ultimately show ?thesis
    using good_lobbyD [OF g(1) l] g(3) by (auto simp: g' Let_def intro!: good_upd_client good_upd_lobby g(1))
qed

lemma good_handle_join:
  assumes g: "good R T A n g" "hub_ok g" "p \<in> T" and join: "handle_join e p ip msg g = Inr g'"
  shows "good R T A n g'"
proof -
  obtain lid where lid: "nonempty (m_lobby msg) = Some lid"
    using join by (auto simp: handle_join_def split: option.splits)
  let ?g1 = "rename_client p (m_display_name msg) g"
  have g1: "good R T A n ?g1" "hub_ok ?g1" by (rule good_rename [OF g(1)]) (rule rename_client_ok [OF g(2)])
  show ?thesis
  proof (cases "home g p = None")
    case True
    then have join: "g' = (case join_outcome e lid p ip msg ?g1 of
        SeatErr code \<Rightarrow> refuse p code ?g1
      | NeedMods mods \<Rightarrow>
          let g2 = upd_client p (\<lambda>c. c\<lparr> cl_pending_mod := Some lid \<rparr>) ?g1;
              host = (case lobby g2 lid of Some l \<Rightarrow> lb_host l | None \<Rightarrow> [])
          in send_to p (JObj [(''op'', JStr ''need_mods''), (''ok'', JBool False), (''code'', JStr ''need_mods''),
               (''lobby_id'', JStr lid), (''host_player_id'', JStr host), (''mods'', JArr mods), (''can_transfer'', JBool True)]) g2
      | SeatOk n g2 \<Rightarrow>
          let g3 = upd_client p (\<lambda>c. c\<lparr> cl_pending_mod := None \<rparr>) g2;
              g4 = (case lobby g3 lid of Some l \<Rightarrow> send_to p (joined_json l n lid) g3 | None \<Rightarrow> g3);
              g5 = broadcast_list e (emit_lobby_update e lid g4)
          in chat_system lid (client_name p g5 [] @
               (if is_spectator_seat n then '' has joined as a spectator.'' else '' has joined.'')) g5)"
      using join lid by (simp add: handle_join_def home_def Let_def)
    show ?thesis
    proof (cases "join_outcome e lid p ip msg ?g1")
      case (SeatErr code)
      then show ?thesis using join g1 by (simp add: good_refuse)
    next
      case (NeedMods mods)
      then show ?thesis
        unfolding join using g1 g(3) by (simp add: Let_def wire_JObj good_send good_upd_client)
    next
      case (SeatOk k g2)
      have "good R T A n g2"
        using SeatOk good_seated [OF g1 g(3)] True
        by (auto simp: join_outcome_def split: option.splits if_splits)
      then have "good R T A n (upd_client p (\<lambda>c. c\<lparr> cl_pending_mod := None \<rparr>) g2)"
        by (rule good_upd_client) simp_all
      then show ?thesis
        unfolding join SeatOk using g(3)
        by (auto simp: Let_def split: option.split intro!: good_chat_system good_broadcast good_emit good_send)
    qed
  qed (use join lid g in \<open>auto simp: handle_join_def home_def good_refuse\<close>)
qed

end

subsection \<open>Talk and identity\<close>

context audience
begin

lemma good_handle_chat:
  assumes "good R T A n g"
  shows "good R T A n (handle_chat e p msg g)"
proof -
  have "good R T A n (send_all (member_ids l) m g1)"
    if "lobby g lid = Some l" "wire m" "remember_chat a b c d lid f g = (g1, mid)" for l m a b c d f g1 mid lid
    using good_lobbyD [OF assms that(1)] good_remember [OF assms, of a b c d lid f] that
    by (auto intro!: good_send_all)
  then show ?thesis
    using assms by (auto simp: handle_chat_def Let_def wire_JObj split: option.split prod.split intro!: good_refuse)
qed

lemma good_handle_server_chat:
  assumes "good R T A n g"
  shows "good R T A n (handle_server_chat e p msg g)"
proof -
  let ?g1 = "set_game p (nonempty (m_game msg)) g"
  have g1: "good R T A n ?g1" by (rule good_set_game [OF assms])
  have g2: "good R T A n (upd_client p (\<lambda>c. c\<lparr> cl_game := (if cl_game c = [] then s else cl_game c) \<rparr>) ?g1)" for s
    by (rule good_upd_client [OF g1]) simp_all
  have "good R T A n (send_all ps m g3)"
    if "remember_chat a b c d lid f (upd_client p (\<lambda>c. c\<lparr> cl_game := (if cl_game c = [] then s else cl_game c) \<rparr>) ?g1) = (g3, mid)"
      "wire m" "public m" for ps m a b c d f g3 mid lid s
    using good_remember [OF g2, of a b c d lid f s] that by (auto intro!: good_send_all)
  then show ?thesis
    using assms g1 g2
    by (auto simp: handle_server_chat_def Let_def wire_JObj public_JObj split: option.split prod.split intro!: good_refuse)
qed

lemma good_set_blocks: "good R T A n g \<Longrightarrow> good R T A n (handle_set_blocks p msg g)"
  unfolding handle_set_blocks_def by (rule good_upd_client) simp_all

lemma good_handle_signal:
  assumes "good R T A n g" "handle_signal e p msg g = Inr g'"
  shows "good R T A n g'"
proof -
  have "good R T A n (send_all (filter Q (filter P (member_ids l))) (signal_json ''signal'' lid p msg) g1)"
    if "lobby g lid = Some l" "within_rate t p g = (g1, ok)" for l lid t g1 ok P Q
    using good_lobbyD [OF assms(1) that(1)] good_within_rate [OF assms(1), of t p] that(2)
    by (auto intro!: good_send_all)
  moreover have "good R T A n g1" if "within_rate t p g = (g1, ok)" for t g1 ok
    using good_within_rate [OF assms(1), of t p] that by simp
  ultimately show ?thesis
    using assms by (auto simp: handle_signal_def Let_def split: option.splits prod.splits if_splits)
qed

lemma good_grants:
  assumes "good R T A n g" "\<forall>x \<in> set gs. fst (fst x) \<in> T"
  shows "good R T A n (g\<lparr> h_probe_grants := gs \<rparr>)"
  using assms by (simp add: good_def)

lemma good_grantD: "good R T A n g \<Longrightarrow> map_of (h_probe_grants g) (q, lid) = Some t \<Longrightarrow> q \<in> T"
  by (drule map_of_SomeD) (force simp: good_def)

lemma good_handle_probe_signal:
  assumes g: "good R T A n g" and p: "p \<in> T"
  shows "good R T A n (handle_probe_signal e p msg g)"
proof -
  have "\<forall>x \<in> set (h_probe_grants g). fst (fst x) \<in> T" if "good R T A n g" for g
    using that by (simp add: good_def)
  then have live: "good R T A n (g1\<lparr> h_probe_grants := filter P (h_probe_grants g1) \<rparr>)"
    if "within_rate t p g = (g1, ok)" for t g1 ok P
    using good_within_rate [OF g, of t p] that by (intro good_grants) auto
  have grant: "good R T A n (g2\<lparr> h_probe_grants := AList.update (p, lid) t (h_probe_grants g2) \<rparr>)"
    if "good R T A n g2" for g2 lid t
    using that p by (intro good_grants ball_update) (simp_all add: good_def)
  have host: "lb_host l \<in> T" if "good R T A n g2" "lobby g2 lid = Some l" for g2 lid l
    using good_lobbyD [OF that] by simp
  have to: "good R T A n (send_to q (signal_json ''probe_signal'' lid p msg) g2)"
    if "good R T A n g2" "map_of (h_probe_grants g2) (q, lid) = Some t" for q lid g2 t
    using that good_grantD by (intro good_send) auto
  have g1: "good R T A n g1" if "within_rate t p g = (g1, ok)" for t g1 ok
    using good_within_rate [OF g, of t p] that by simp
  show ?thesis
  proof (cases "nonempty (m_lobby msg)")
    case (Some lid)
    obtain g1 ok where r: "within_rate (e_now e) p g = (g1, ok)" by force
    define g2 where "g2 = g1\<lparr> h_probe_grants :=
        filter (\<lambda>(k, t). max (e_now e - t) 0 < PROBE_GRANT_TTL) (h_probe_grants g1) \<rparr>"
    have g2: "good R T A n g2" unfolding g2_def by (rule live [OF r])
    have "handle_probe_signal e p msg g =
      (if \<not> PROBE_SIGNAL (unwrap_or (m_type msg) 0) \<or> length (unwrap_or (m_text msg) []) > SIGNAL_TEXT_MAX then g
       else if \<not> ok then g1
       else case lobby g2 lid of
              None \<Rightarrow> g2
            | Some l \<Rightarrow>
                if lb_host l = p
                then if map_of (h_probe_grants g2) (unwrap_or (m_to msg) [], lid) = None then g2
                     else send_to (unwrap_or (m_to msg) []) (signal_json ''probe_signal'' lid p msg) g2
                else if map_of (h_probe_grants g2) (p, lid) = None \<and>
                          length (filter (\<lambda>(b, _). b = p) (keys (h_probe_grants g2))) \<ge> PROBE_GRANTS_PER_CLIENT \<or>
                        \<not> probeable g2 l p then g2
                else send_to (lb_host l) (signal_json ''probe_signal'' lid p msg)
                       (g2\<lparr> h_probe_grants := AList.update (p, lid) (e_now e) (h_probe_grants g2) \<rparr>))"
      unfolding handle_probe_signal_def Some option.case r prod.case g2_def Let_def by (rule refl)
    then show ?thesis
      using g g1 [OF r] g2 to [OF g2] good_send [OF grant [OF g2]] host [OF g2]
      by (auto split: option.split)
  qed (use g in \<open>simp add: handle_probe_signal_def\<close>)
qed

lemma good_pending: "good R T A n g \<Longrightarrow> pending_of q g = Some lid \<Longrightarrow> q \<in> T"
  using good_clientD [of R T A n g q]
  by (auto simp: pending_of_def client_def split: bind_splits dest: map_of_SomeD)

lemma good_mod_transfer:
  assumes g: "good R T A n g" and p: "p \<in> T"
  shows "good R T A n (handle_mod_xfer_start p msg g)" "good R T A n (handle_mod_xfer_cancel p g)"
    "good R T A n (handle_mod_xfer_fail p msg g)" "handle_mod_signal p msg g = Inr g' \<Longrightarrow> good R T A n g'"
proof -
  have host: "lb_host l \<in> T" if "lobby g lid = Some l" for lid l
    using good_lobbyD [OF g that] by simp
  show "good R T A n (handle_mod_xfer_start p msg g)"
    using g host by (auto simp: handle_mod_xfer_start_def Let_def wire_JObj split: option.split intro!: good_refuse good_send)
  show "good R T A n (handle_mod_xfer_cancel p g)"
    unfolding handle_mod_xfer_cancel_def by (rule good_upd_client [OF g]) simp_all
  have "d \<in> T" if "xfer_relay_ok g p q = Inr d" for q d
    using that good_pending [OF g, of q]
    by (auto simp: xfer_relay_ok_def pending_of_def split: option.splits if_splits)
  moreover have "d \<in> T" if "Option.bind (pending_of p g) (\<lambda>lid. map_option lb_host (lobby g lid)) = Some d" for d
    using that host by (auto split: bind_splits)
  ultimately show "good R T A n (handle_mod_xfer_fail p msg g)"
    using g by (auto simp: handle_mod_xfer_fail_def Let_def wire_JObj split: option.split sum.split intro!: good_send)
  show "good R T A n g'" if "handle_mod_signal p msg g = Inr g'"
    using that g host good_pending [OF g]
    by (auto simp: handle_mod_signal_def Let_def split: option.splits if_splits intro!: good_send)
qed

lemma good_handle_list: "good R T A n g \<Longrightarrow> p \<in> T \<Longrightarrow> good R T A n (handle_list e p msg g)"
  by (simp add: handle_list_def Let_def good_send good_set_game)

lemma good_turn: "good R T A n g \<Longrightarrow> p \<in> T \<Longrightarrow> good R T A n (handle_get_turn_credentials e p g)"
  by (auto simp: handle_get_turn_credentials_def wire_JObj split: option.split prod.split intro!: good_send)

end

lemma good_mono: "good R T A n g \<Longrightarrow> T \<subseteq> T' \<Longrightarrow> good R T' A n g"
  unfolding good_def fine_def by blast

lemma ball_modify_distinct:
  assumes "distinct (map fst m)" "\<forall>x \<in> set m. P x"
    and "\<And>x. P x \<Longrightarrow> fst x \<noteq> p \<Longrightarrow> Q x" "\<And>v. P (p, v) \<Longrightarrow> Q (p, f v)"
  shows "\<forall>x \<in> set (modify p f m). Q x"
  using assms(1,2)
proof (induction m)
  case (Cons a m)
  obtain k v where a: "a = (k, v)" by force
  show ?case
  proof (cases "k = p")
    case True
    then have "fst x \<noteq> p" if "x \<in> set m" for x using Cons.prems(1) that by (auto simp: a)
    then show ?thesis using Cons.prems(2) assms(3,4) True by (simp add: a)
  next
    case False
    then show ?thesis using Cons assms(3) by (simp add: a)
  qed
qed simp

lemma good_sign_in:
  assumes "good R T A n g" "hub_ok g"
  shows "good R T (A(p := True)) n (upd_client p (\<lambda>c. c\<lparr> cl_account := Some a \<rparr>) g)"
proof -
  have "distinct (map fst (h_clients g))" using assms(2) by (simp add: hub_ok_def)
  then have "\<forall>x \<in> set (modify p (\<lambda>c. c\<lparr> cl_account := Some a \<rparr>) (h_clients g)).
      (cl_account (snd x) \<noteq> None) = (A(p := True)) (fst x) \<and> (cl_pending_mod (snd x) \<noteq> None \<longrightarrow> fst x \<in> T)"
    by (rule ball_modify_distinct [where P = "\<lambda>x. (cl_account (snd x) \<noteq> None) = A (fst x) \<and> (cl_pending_mod (snd x) \<noteq> None \<longrightarrow> fst x \<in> T)"])
      (use assms(1) in \<open>simp_all add: good_def\<close>)
  then show ?thesis using assms(1) by (simp add: good_def upd_client_def)
qed

lemma good_apply_identity:
  assumes "good R T A n g"
  shows "good R T A n (fst (apply_identity e p name game g))"
proof -
  let ?g1 = "upd_client p (\<lambda>c. c\<lparr> cl_display := unwrap_or name (cl_display c), cl_game := unwrap_or game (cl_game c) \<rparr>) g"
  have g1: "good R T A n ?g1" by (rule good_upd_client [OF assms]) simp_all
  have "good R T A n (upd_lobby lid (\<lambda>_. rename_op p u l) ?g1)" if "room_of ?g1 p = Inr (lid, l)" for lid l u
  proof -
    have "lobby ?g1 lid = Some l" using room_ofD [OF that] by blast
    from good_lobbyD [OF g1 this] show ?thesis by (intro good_upd_lobby g1) (simp_all add: rename_op_members)
  qed
  then have "good R T A n (upd_client p (\<lambda>c. c\<lparr> cl_display := u \<rparr>) (if ch then upd_lobby lid (\<lambda>_. rename_op p u l) ?g1 else ?g1))"
    if "room_of ?g1 p = Inr (lid, l)" for lid l u ch
    using that g1 by (intro good_upd_client) simp_all
  then show ?thesis
    using g1 by (auto simp: apply_identity_def Let_def split: option.split sum.split prod.split)
qed

lemma good_handle_hello:
  assumes g: "good R T A n g" "hub_ok g"
  shows "\<exists>A'. (A' = A \<or> A' = A(p := True)) \<and>
    good R (T \<union> {q. R \<longrightarrow> A' q}) A' n (handle_hello e p msg g)"
proof -
  define r where "r = (case nonempty (m_session msg) of
       None \<Rightarrow> (g, nonempty (m_display_name msg))
     | Some tok \<Rightarrow>
         (case session_account e tok of
            Inr (Some player) \<Rightarrow> (upd_client p (\<lambda>c. c\<lparr> cl_account := Some player \<rparr>) g, Some (pl_handle player))
          | Inr None \<Rightarrow> (g, nonempty (m_display_name msg))
          | Inl _ \<Rightarrow> (refuse p ''session_invalid'' g, nonempty (m_display_name msg))))"
  have "\<exists>A'. (A' = A \<or> A' = A(p := True)) \<and> good R T A' n (fst r)"
  proof (cases "\<exists>tok pl. nonempty (m_session msg) = Some tok \<and> session_account e tok = Inr (Some pl)")
    case True
    then obtain tok pl where t: "nonempty (m_session msg) = Some tok" "session_account e tok = Inr (Some pl)" by blast
    have "good R T (A(p := True)) n (fst r)" unfolding r_def using t good_sign_in [OF g] by simp
    then show ?thesis by blast
  next
    case False
    then have "good R T A n (fst r)"
      unfolding r_def using g(1) by (auto simp: good_refuse split: option.splits sum.splits)
    then show ?thesis by blast
  qed
  then obtain A' where A': "A' = A \<or> A' = A(p := True)" "good R T A' n (fst r)" by blast
  obtain g1 name where r: "r = (g1, name)" by force
  obtain g2 accepted renamed where i: "apply_identity e p name (nonempty (m_game msg)) g1 = (g2, accepted, renamed)"
    by (metis prod.exhaust)
  let ?T = "T \<union> {q. R \<longrightarrow> A' q}"
  have "good R ?T A' n g1" using A'(2) by (intro good_mono [OF _ Un_upper1]) (simp add: r)
  from good_apply_identity [OF this, of e p name "nonempty (m_game msg)"] have g2: "good R ?T A' n g2"
    by (simp add: i)
  have "p \<in> ?T" if "\<not> (h_require_login g2 \<and> \<not> signed_in p g2)"
  proof -
    have "h_require_login g2 = R" using g2 by (simp add: good_def)
    moreover have "A' p" if "signed_in p g2"
      using that good_clientD [OF g2, of p] by (auto simp: signed_in_def client_def split: option.splits dest: map_of_SomeD)
    ultimately show ?thesis using that by blast
  qed
  then have "good R ?T A' n (handle_hello e p msg g)"
    unfolding handle_hello_def r_def [symmetric] r using g2
    by (auto simp: i Let_def wire_JObj split: option.split intro!: good_refuse good_emit good_send)
  then show ?thesis using A'(1) by blast
qed

subsection \<open>The queue keeps its players\<close>

definition queue_players :: "QueueInner \<Rightarrow> string list" where
  "queue_players q = map tk_player (tickets q @ offered_tickets (pending q))"

definition offer_players :: "Pending \<Rightarrow> string set" where
  "offer_players p = {tk_player (pn_a p), tk_player (pn_b p)}"

lemma set_queue_players:
  "set (queue_players q) = tk_player ` set (tickets q) \<union> (\<Union>p \<in> set (pending q). offer_players p)"
  by (auto simp: queue_players_def offered_tickets_def offer_players_def)

lemma queue_pair:
  assumes "pair t cd mint q = (q', offers)"
  shows "set (queue_players q') \<subseteq> set (queue_players q)" "\<forall>p \<in> set offers. offer_players p \<subseteq> set (queue_players q)"
proof -
  note e = pair_effect [OF assms]
  have "set (tickets q) = set (tickets q') \<union> set (offered_tickets offers)"
    using e by (metis mset_append set_append set_mset_mset)
  moreover have "tk_player ` set (offered_tickets offers) = (\<Union>p \<in> set offers. offer_players p)"
    by (auto simp: offered_tickets_def offer_players_def)
  moreover have "set (pending q') = set (pending q) \<union> set offers" using e by auto
  ultimately show "set (queue_players q') \<subseteq> set (queue_players q)"
    "\<forall>p \<in> set offers. offer_players p \<subseteq> set (queue_players q)"
    unfolding set_queue_players by (auto simp: image_Un)
qed

lemma queue_expire:
  assumes "take_expired t secs q = (q', dead)"
  shows "set (queue_players q') \<subseteq> set (queue_players q)" "\<forall>p \<in> set dead. offer_players p \<subseteq> set (queue_players q)"
  using assms by (auto simp: take_expired_def expire_loop_eq set_queue_players)

lemma set_remove_at: "x \<in> set (remove_at i xs) \<Longrightarrow> x \<in> set xs"
  by (rule subsetD [OF set_remove_at_subset])

lemma queue_remove:
  assumes "remove_player p q = (q', out)"
  shows "set (queue_players q') \<subseteq> set (queue_players q) \<and>
    (case out of None \<Rightarrow> True | Some offer \<Rightarrow> offer_players offer \<subseteq> set (queue_players q))"
proof (cases "position (\<lambda>x. side x p \<noteq> None) (pending q)")
  case None
  then show ?thesis using assms by (auto simp: remove_player_def Let_def set_queue_players)
next
  case (Some i)
  then have "i < length (pending q)" by (simp add: position_Some)
  then have "pending q ! i \<in> set (pending q)" by simp
  moreover have "set (queue_players (q\<lparr> tickets := filter P (tickets q), pending := remove_at i (pending q) \<rparr>))
      \<subseteq> set (queue_players q)" for P
    unfolding set_queue_players by (auto dest: set_remove_at)
  moreover have "q' = q\<lparr> tickets := filter (\<lambda>t. tk_player t \<noteq> p) (tickets q), pending := remove_at i (pending q) \<rparr>"
    "out = Some (pending q ! i)"
    using assms Some by (simp_all add: remove_player_def Let_def)
  ultimately show ?thesis by (auto simp: set_queue_players)
qed

lemma record_answer_players [simp]: "offer_players (record_answer p b x) = offer_players x"
  by (simp add: record_answer_def offer_players_def split: option.split bool.split)

lemma queue_answer:
  assumes "answer_for p yes mid q = (q', out)"
  shows "set (queue_players q') \<subseteq> set (queue_players q) \<and>
    (case out of None \<Rightarrow> True | Some offer \<Rightarrow> offer_players offer \<subseteq> set (queue_players q))"
proof (cases "position (\<lambda>x. side x p \<noteq> None) (pending q)")
  case None
  then show ?thesis using assms by (auto simp: answer_for_def)
next
  case (Some i)
  then have "i < length (pending q)" by (simp add: position_Some)
  then have mem: "pending q ! i \<in> set (pending q)" by simp
  let ?r = "record_answer p yes (pending q ! i)"
  have "offer_players x \<subseteq> (\<Union>x \<in> set (pending q). offer_players x)" if "x \<in> set ((pending q)[i := ?r])" for x
  proof -
    have "x = ?r \<or> x \<in> set (pending q)" using that set_update_subset_insert [of "pending q" i ?r] by blast
    then show ?thesis using mem by auto
  qed
  then have upd: "set (queue_players (q\<lparr> pending := (pending q)[i := ?r] \<rparr>)) \<subseteq> set (queue_players q)"
    unfolding set_queue_players by auto
  have rem: "set (queue_players (q\<lparr> pending := remove_at i (pending q) \<rparr>)) \<subseteq> set (queue_players q)"
    unfolding set_queue_players by (auto dest: set_remove_at)
  have "offer_players ?r \<subseteq> set (queue_players q)" using mem by (auto simp: set_queue_players)
  then show ?thesis
    using assms Some upd rem by (auto simp: answer_for_def Let_def split: if_splits)
qed

lemma set_rtt_players: "map tk_player (fst (set_rtt_list p r ts)) = map tk_player ts"
  by (induction ts) (auto split: prod.splits)

lemma queue_rtt: "queue_players (fst (set_rtt p r q)) = queue_players q"
  using set_rtt_players [of p r "tickets q"]
  by (cases "set_rtt_list p r (tickets q)") (simp add: set_rtt_def queue_players_def)

subsection \<open>Automatch\<close>

definition ready :: "bool \<Rightarrow> string set \<Rightarrow> (string \<Rightarrow> bool) \<Rightarrow> nat \<Rightarrow> Server \<Rightarrow> bool" where
  "ready R T A n s \<longleftrightarrow> good R T A n (sv_hub s) \<and> set (queue_players (sv_queue s)) \<subseteq> T \<and> [] \<in> T"

lemma ready_on_hub: "ready R T A n s \<Longrightarrow> good R T A n (f (sv_hub s)) \<Longrightarrow> ready R T A n (on_hub f s)"
  by (simp add: ready_def on_hub_def)

lemma ready_send: "ready R T A n s \<Longrightarrow> p \<in> T \<or> public m \<Longrightarrow> wire m \<Longrightarrow> ready R T A n (send p m s)"
  unfolding send_def by (rule ready_on_hub) (simp_all add: ready_def good_send)

lemma ready_deny: "ready R T A n s \<Longrightarrow> ready R T A n (deny p c s)"
  unfolding deny_def by (rule ready_on_hub) (simp_all add: ready_def good_refuse)

lemma ready_queue:
  "ready R T A n s \<Longrightarrow> set (queue_players q) \<subseteq> T \<Longrightarrow> ready R T A n (s\<lparr> sv_queue := q \<rparr>)"
  by (simp add: ready_def)

lemma ready_records:
  "ready R T A n (s\<lparr> sv_history := h \<rparr>) = ready R T A n s" "ready R T A n (s\<lparr> sv_reports := t \<rparr>) = ready R T A n s"
  by (simp_all add: ready_def)

lemma ready_requeue:
  assumes "ready R T A n s" "tk_player t \<in> T"
  shows "ready R T A n (requeue e t reason s)"
proof -
  have "ready R T A n (s\<lparr> sv_queue := requeue_front (now e) t (sv_queue s) \<rparr>)"
    using assms by (intro ready_queue) (auto simp: ready_def queue_players_def requeue_front_def)
  then show ?thesis using assms unfolding requeue_def by (auto intro!: ready_send)
qed

lemma ready_strike: "ready R T A n s \<Longrightarrow> ready R T A n (strike e t k p s)"
  by (simp add: strike_def ready_records)

lemma ready_settle_declined:
  "ready R T A n s \<Longrightarrow> offer_players p \<subseteq> T \<Longrightarrow> ready R T A n (settle_declined e p loser kind s)"
  by (auto simp: settle_declined_def Let_def offer_players_def wire_JObj
      intro!: ready_requeue ready_send ready_strike)

lemma ready_settle_expired:
  "ready R T A n s \<Longrightarrow> offer_players p \<subseteq> T \<Longrightarrow> ready R T A n (settle_expired e p s)"
  by (auto simp: settle_expired_def Let_def wire_JObj
      intro!: ready_settle_declined ready_send ready_strike) (auto simp: offer_players_def)

lemma ready_offer_pair: "ready R T A n s \<Longrightarrow> offer_players p \<subseteq> T \<Longrightarrow> ready R T A n (offer_pair e p s)"
  by (auto simp: offer_pair_def Let_def offer_players_def ready_records intro!: ready_send)

lemma ready_foldl:
  "ready R T A n s \<Longrightarrow> (\<And>s x. ready R T A n s \<Longrightarrow> x \<in> set xs \<Longrightarrow> ready R T A n (f s x)) \<Longrightarrow> ready R T A n (foldl f s xs)"
  by (induction xs arbitrary: s) auto

lemma ready_run_pairing:
  assumes "ready R T A n s"
  shows "ready R T A n (run_pairing e s)"
proof -
  obtain q offers where p: "pair (now e) (automatch_rematch_cooldown_secs (cfg e)) (s_mint e) (sv_queue s) = (q, offers)"
    by force
  have "set (queue_players (sv_queue s)) \<subseteq> T" using assms by (simp add: ready_def)
  with queue_pair [OF p] have "set (queue_players q) \<subseteq> T" "\<forall>x \<in> set offers. offer_players x \<subseteq> T" by blast+
  then show ?thesis
    unfolding run_pairing_def p prod.case using assms
    by (intro ready_foldl ready_queue ready_offer_pair) auto
qed

lemma ready_automatch_tick:
  assumes "ready R T A n s"
  shows "ready R T A n (automatch_tick e s)"
proof -
  obtain q dead where p: "take_expired (now e) (automatch_accept_secs (cfg e)) (sv_queue s) = (q, dead)" by force
  have "set (queue_players (sv_queue s)) \<subseteq> T" using assms by (simp add: ready_def)
  with queue_expire [OF p] have "set (queue_players q) \<subseteq> T" "\<forall>x \<in> set dead. offer_players x \<subseteq> T" by blast+
  then have "ready R T A n (foldl (\<lambda>s p. settle_expired e p s) (s\<lparr> sv_queue := q \<rparr>) dead)"
    using assms by (intro ready_foldl ready_queue ready_settle_expired) auto
  then have r: "ready R T A n (run_pairing e (foldl (\<lambda>s p. settle_expired e p s) (s\<lparr> sv_queue := q \<rparr>) dead))"
    by (rule ready_run_pairing)
  have "tk_player t \<in> T" if "ready R T A n s'" "t \<in> set (tickets (sv_queue s'))" for s' t
    using that by (auto simp: ready_def queue_players_def)
  then have "ready R T A n (foldl (\<lambda>s (p, w, rtt, pools). send p (status_json w rtt pools) s) s' (status_rows t (sv_queue s')))"
    if "ready R T A n s'" for s' t
    using that by (intro ready_foldl) (auto simp: status_rows_def intro!: ready_send)
  then show ?thesis unfolding automatch_tick_def p prod.case Let_def using r by blast
qed

lemma ready_drop_player:
  assumes "ready R T A n s"
  shows "ready R T A n (drop_player e p s)"
proof -
  obtain q out where r: "remove_player p (sv_queue s) = (q, out)" by force
  have "set (queue_players (sv_queue s)) \<subseteq> T" using assms by (simp add: ready_def)
  with queue_remove [OF r] have "set (queue_players q) \<subseteq> T" "\<And>x. out = Some x \<Longrightarrow> offer_players x \<subseteq> T"
    by auto
  then show ?thesis
    using assms by (auto simp: drop_player_def r split: option.split intro!: ready_queue ready_settle_declined)
qed

lemma match_lobby_members: "set (member_ids (match_lobby e r p t g)) \<subseteq> offer_players p" "lb_host (match_lobby e r p t g) = []"
proof -
  let ?a = "Some (match_slot g (pn_a p))" and ?b = "Some (match_slot g (pn_b p))"
  let ?xs = "(replicate (rs_max_slots r) None)[0 := ?a, 1 := ?b]"
  have "set ?xs \<subseteq> {None, ?a, ?b}"
    using set_update_subset_insert [of "(replicate (rs_max_slots r) None)[0 := ?a]" 1 ?b]
      set_update_subset_insert [of "replicate (rs_max_slots r) None" 0 ?a]
    by (auto simp: set_replicate_conv_if split: if_splits)
  moreover have "set (somes xs) = {x. Some x \<in> set xs}" for xs :: "Slot option list"
    by (induction xs rule: somes.induct) auto
  ultimately have "set (somes ?xs) \<subseteq> {match_slot g (pn_a p), match_slot g (pn_b p)}" by auto
  moreover have "sl_player (match_slot g t) = tk_player t" for t by (simp add: match_slot_def new_slot_def)
  ultimately show "set (member_ids (match_lobby e r p t g)) \<subseteq> offer_players p"
    by (auto simp: match_lobby_def member_ids_def everyone_def offer_players_def)
  show "lb_host (match_lobby e r p t g) = []" by (simp add: match_lobby_def)
qed

lemma good_seat_in_match: "good R T A n g \<Longrightarrow> good R T A n (seat_in_match lid p g)"
  unfolding seat_in_match_def by (rule good_upd_client) simp_all

lemma ready_form_match:
  assumes s: "ready R T A n s" and p: "offer_players p \<subseteq> T"
  shows "ready R T A n (form_match e p s)"
proof -
  define s0 where "s0 = s\<lparr> sv_queue := note_pairing (now e) (tk_account (pn_a p)) (tk_account (pn_b p)) (sv_queue s) \<rparr>"
  have s0: "ready R T A n s0"
    using s unfolding s0_def by (intro ready_queue) (simp_all add: ready_def note_pairing_def queue_players_def)
  have T: "tk_player (pn_a p) \<in> T" "tk_player (pn_b p) \<in> T" using p by (simp_all add: offer_players_def)
  have g: "good R T A n (sv_hub s0)" "[] \<in> T" using s0 by (simp_all add: ready_def)
  have "good R T A n (emit_lobby_update e' (lb_id l) (send_to b (match_joined_json l 1 ah) (send_to a (match_joined_json l 0 ah)
      (seat_in_match (lb_id l) b (seat_in_match (lb_id l) a
        ((sv_hub s0)\<lparr> h_next_session := k, h_lobbies := AList.update (lb_id l) l (h_lobbies (sv_hub s0)) \<rparr>))))))"
    if "l = match_lobby e r p t (sv_hub s0)" "a = tk_player (pn_a p)" "b = tk_player (pn_b p)" for l a b r t k ah e'
    using match_lobby_members [of e r p t "sv_hub s0"] p T g that
    by (intro good_emit good_send good_seat_in_match good_insert_lobby) auto
  then have formed: "ready R T A n (s0\<lparr> sv_hub := emit_lobby_update e' (lb_id l) (send_to b (match_joined_json l 1 ah)
      (send_to a (match_joined_json l 0 ah) (seat_in_match (lb_id l) b (seat_in_match (lb_id l) a
        ((sv_hub s0)\<lparr> h_next_session := k, h_lobbies := AList.update (lb_id l) l (h_lobbies (sv_hub s0)) \<rparr>))))) \<rparr>)"
    if "l = match_lobby e r p t (sv_hub s0)" "a = tk_player (pn_a p)" "b = tk_player (pn_b p)" for l a b r t k ah e'
    using s0 that by (simp add: ready_def)
  show ?thesis
    unfolding form_match_def s0_def [symmetric] Let_def
    using s0 T formed by (auto split: option.split intro!: ready_send ready_requeue)
qed

subsection \<open>Dispatch\<close>

context audience
begin

lemma ready_launch_task:
  assumes s: "ready R T A n s" and p: "offer_players p \<subseteq> T"
  shows "ready R T A n (launch_task e lid p late s)"
proof -
  have started: "ready R T A n (s\<lparr> sv_hub := g, sv_history := h \<rparr>)"
    if "start_lobby (s_hub e) lid None None ice (sv_hub s) = Inr g" for g h ice
    using s good_start_lobby [OF _ that] by (simp add: ready_def)
  have "good R T A n (destroy_lobby (s_hub e) lid (send_all ps (err_json c) (sv_hub s)))" for ps c
    using s by (intro good_destroy good_send_all) (simp_all add: ready_def)
  then have told: "ready R T A n (on_hub (\<lambda>g. destroy_lobby (s_hub e) lid (send_all (ps g) (err_json c) g)) s)" for ps c
    by (rule ready_on_hub [OF s])
  have "ready R T A n (on_hub (destroy_lobby (s_hub e) lid) s)"
    by (rule ready_on_hub [OF s]) (use s in \<open>simp add: ready_def good_destroy\<close>)
  then have "ready R T A n (requeue e (pn_b p) why (requeue e (pn_a p) why (on_hub (destroy_lobby (s_hub e) lid) s)))" for why
    using p by (intro ready_requeue) (simp_all add: offer_players_def)
  then have "ready R T A n (launch_failed e lid [pn_a p, pn_b p] c s)" for c
    using told by (simp add: launch_failed_def)
  then show ?thesis
    using s started
    by (auto simp: launch_task_def try_launch_def Let_def split: launch_result.splits sum.splits if_splits)
qed

lemma ready_disconnect:
  assumes "ready R T A n s"
  shows "ready R T A n (disconnect e p s)"
proof -
  have "good R T A n (remove_client p g)" if "good R T A n g" for g
  proof -
    have "set (AList.delete p m) \<subseteq> set m" for m :: "(string, ClientMeta) hashmap" by (induction m) auto
    then have keep: "\<forall>x \<in> set (AList.delete p (h_clients g)). Q x" if "\<forall>x \<in> set (h_clients g). Q x" for Q
      using that by blast
    have "\<forall>x \<in> set (AList.delete p (h_clients g)).
        (cl_account (snd x) \<noteq> None) = A (fst x) \<and> (cl_pending_mod (snd x) \<noteq> None \<longrightarrow> fst x \<in> T)"
      by (rule keep) (use that in \<open>simp add: good_def\<close>)
    then show ?thesis using that by (simp add: good_def remove_client_def)
  qed
  moreover have "ready R T A n (on_hub (client_leave (s_hub e) p) (drop_player e p s))"
    using ready_drop_player [OF assms] by (intro ready_on_hub good_client_leave) (simp_all add: ready_def)
  ultimately show ?thesis
    unfolding disconnect_def by (simp add: ready_def on_hub_def)
qed

lemma ready_push_list:
  assumes s: "ready R T A n s"
  shows "ready R T A n (push_list e p s)"
proof (cases "client (sv_hub s) p")
  case (Some c)
  have g: "good R T A n (sv_hub s)" using s by (simp add: ready_def)
  have "(cl_account c \<noteq> None) = A p" "h_require_login (sv_hub s) = R"
    using good_clientD [OF g] Some g by (auto simp: client_def good_def dest: map_of_SomeD)
  then have "p \<in> T" if "\<not> (h_require_login (sv_hub s) \<and> cl_account c = None)" using that by (intro trust) auto
  then show ?thesis using s by (auto simp: push_list_def Some intro!: ready_send)
qed (use s in \<open>simp add: push_list_def\<close>)

lemma ready_queue_handlers:
  assumes s: "ready R T A n s" and p: "p \<in> T"
  shows "ready R T A n (handle_automatch_rulesets e p msg s)" "ready R T A n (handle_automatch_queue e p msg s)"
    "ready R T A n (handle_automatch_rtt e p msg s)" "ready R T A n (handle_automatch_cancel e p s)"
    "ready R T A n (handle_chat_report e p msg s)" "ready R T A n (handle_desync_report e p msg s)"
proof -
  show "ready R T A n (handle_automatch_rulesets e p msg s)"
    using s p by (simp add: handle_automatch_rulesets_def ready_send)
  have ticket: "tk_player t = p" if "queue_gate e p c msg s = Inr t" for c t
    using that by (auto simp: queue_gate_def Let_def new_ticket_def split: option.splits sum.splits prod.splits if_splits)
  have pushed: "ready R T A n (s\<lparr> sv_queue := push t (sv_queue s) \<rparr>)" if "tk_player t = p" for t
    using s p that by (intro ready_queue) (auto simp: ready_def queue_players_def push_def)
  have refusal: "wire (refusal_json r)" for r
    by (cases r) (simp_all add: refusal_json_def wire_JObj)
  show "ready R T A n (handle_automatch_queue e p msg s)"
    using s p ticket pushed refusal
    by (auto simp: handle_automatch_queue_def Let_def split: option.split sum.split
        intro!: ready_deny ready_send ready_run_pairing)
  have rtt: "ready R T A n (s'\<lparr> sv_queue := fst (set_rtt p r (sv_queue s')) \<rparr>)" if "ready R T A n s'" for s' r
    using that by (intro ready_queue) (auto simp: ready_def queue_rtt)
  have "ready R T A n (on_hub (upd_client p (\<lambda>c. c\<lparr> cl_probe_rtt := r \<rparr>)) s)" for r
    using s by (intro ready_on_hub good_upd_client) (simp_all add: ready_def)
  then show "ready R T A n (handle_automatch_rtt e p msg s)"
    using p unfolding handle_automatch_rtt_def Let_def by (intro ready_send rtt) (simp_all add: wire_JObj)
  show "ready R T A n (handle_automatch_cancel e p s)"
    using s p unfolding handle_automatch_cancel_def by (intro ready_send ready_drop_player) (simp_all add: wire_JObj)
  show "ready R T A n (handle_chat_report e p msg s)"
    using s p
    by (auto simp: handle_chat_report_def Let_def wire_JObj ready_records split: sum.split prod.split Submitted.split option.split
        intro!: ready_deny ready_send)
  show "ready R T A n (handle_desync_report e p msg s)"
    using s by (auto simp: handle_desync_report_def ready_records split: option.split)
qed

lemma ready_accept:
  assumes s: "ready R T A n s" and p: "p \<in> T"
  shows "ready R T A n (handle_automatch_accept e p msg s)"
proof -
  let ?yes = "unwrap_or (m_accept msg) False"
  define s1 where "s1 = send p (JObj [(''op'', JStr ''automatch_accept_ok''), (''ok'', JBool True), (''accept'', JBool ?yes)]) s"
  have s1: "ready R T A n s1" unfolding s1_def using s p by (intro ready_send) (simp_all add: wire_JObj)
  obtain q out where a: "answer_for p ?yes (m_match msg) (sv_queue s1) = (q, out)" by force
  have "set (queue_players (sv_queue s1)) \<subseteq> T" using s1 by (simp add: ready_def)
  with queue_answer [OF a] have q: "set (queue_players q) \<subseteq> T" "\<And>x. out = Some x \<Longrightarrow> offer_players x \<subseteq> T" by auto
  then have s2: "ready R T A n (s1\<lparr> sv_queue := q \<rparr>)" by (intro ready_queue s1)
  show ?thesis
    unfolding handle_automatch_accept_def s1_def [symmetric] Let_def a prod.case
    using q(2) s2 by (auto split: option.split intro!: ready_form_match ready_settle_declined)
qed

lemma ready_handlers:
  assumes s: "ready R T A n s" and ok: "hub_ok (sv_hub s)" and p: "p \<in> T"
    and f: "(op, f) \<in> set (handlers e p ip msg)" "op \<noteq> ''hello''" "f s = Inr s'"
  shows "ready R T A n s'"
proof -
  have g: "good R T A n (sv_hub s)" using s by (simp add: ready_def)
  have hubs: "ready R T A n (s\<lparr> sv_hub := g' \<rparr>)" if "good R T A n g'" for g'
    using s that by (simp add: ready_def)
  have pong: "good R T A n (send_to p (JObj [(''op'', JStr ''pong'')]) (sv_hub s))"
    using g by (intro good_send) (simp_all add: wire_JObj public_JObj)
  show ?thesis
    using f(1) f(2,3)
    unfolding handlers_def Let_def set_simps
    by (elim insertE; (elim Pair_inject)?; (simp only: hub_result_Inr)?)
      (auto simp: on_hub_def g p pong good_room_edits [OF g ok p] good_seat_swap_request [OF g p]
        good_seat_swap_answer [OF g ok] good_handle_start [OF g p] good_leave_close [OF g p] good_handle_create [OF g p]
        good_handle_chat [OF g] good_handle_server_chat [OF g] good_set_blocks [OF g] good_handle_probe_signal [OF g p]
        good_mod_transfer(1,2,3) [OF g p] good_handle_list [OF g p] good_turn [OF g p]
        ready_queue_handlers [OF s p] ready_accept [OF s p]
        intro!: hubs dest: good_handle_join [OF g ok p] good_handle_kick [OF g ok] good_handle_signal [OF g]
          good_mod_transfer(4) [OF g p])
qed

end

subsection \<open>Events\<close>

text \<open>Who stands signed in (an absent client counts, nothing is sent to it), and the clients to be
  trusted with data.\<close>

definition standing :: "Hub \<Rightarrow> string \<Rightarrow> bool" where
  "standing g p = (case client g p of Some c \<Rightarrow> cl_account c \<noteq> None | None \<Rightarrow> True)"

definition insiders :: "Hub \<Rightarrow> string set" where
  "insiders g = {p. h_require_login g \<longrightarrow> standing g p}"

interpretation signed: audience "h_require_login g" "insiders g" "standing g" for g
  by unfold_locales (simp add: insiders_def)

interpretation everybody: audience R UNIV A for R A
  by unfold_locales simp

lemma ready_mono: "ready R T A n s \<Longrightarrow> T \<subseteq> T' \<Longrightarrow> ready R T' A n s"
  by (auto simp: ready_def intro: good_mono)

text \<open>Messages of a connected client: the gate lets only \<^verbatim>\<open>hello\<close> and \<^verbatim>\<open>ping\<close> through from outside.\<close>

lemma ready_receive:
  assumes s: "ready R T A n s" and ok: "hub_ok (sv_hub s)" and T: "audience R T A"
    and p: "client (sv_hub s) p \<noteq> None"
  shows "\<exists>A'. (\<forall>q. A q \<longrightarrow> A' q) \<and> ready R (T \<union> {q. R \<longrightarrow> A' q}) A' n (receive e p ip raw s)"
proof -
  have same: ?thesis if "ready R T A n (receive e p ip raw s)"
    by (rule exI [of _ A]) (use ready_mono [OF that Un_upper1] in blast)
  have g: "good R T A n (sv_hub s)" using s by (simp add: ready_def)
  show ?thesis
  proof (cases "handle_text e p ip raw s")
    case (Inl c)
    then show ?thesis using s by (intro same) (simp add: receive_def ready_send)
  next
    case (Inr s')
    obtain msg r where m: "sanitize_in_place (e_filter (s_hub e)) raw = (msg, r)" by force
    consider "s' = s" | code where "s' = deny p code s" | "s' = send p (unknown_op_json (m_op msg)) s"
      | f where "\<not> login_gate p msg s" "map_of (handlers e p ip msg) (m_op msg) = Some f" "f s = Inr s'"
      using Inr m unfolding handle_text_def by (auto split: option.splits if_splits)
    then show ?thesis
    proof cases
      case 1
      then show ?thesis using s Inr by (intro same) (simp add: receive_def)
    next
      case 2
      then show ?thesis using s Inr by (intro same) (simp add: receive_def ready_deny)
    next
      case 3
      then show ?thesis using s Inr by (intro same) (simp add: receive_def ready_send)
    next
      case (4 f)
      note f = map_of_SomeD [OF 4(2)]
      show ?thesis
      proof (cases "m_op msg = ''hello''")
        case True
        have "s' = s\<lparr> sv_hub := handle_hello (s_hub e) p msg (sv_hub s) \<rparr>"
          using f 4(3) True by (auto simp: handlers_def Let_def on_hub_def)
        then have r: "receive e p ip raw s = s\<lparr> sv_hub := handle_hello (s_hub e) p msg (sv_hub s) \<rparr>"
          using Inr by (simp add: receive_def)
        obtain A' where A': "A' = A \<or> A' = A(p := True)"
          "good R (T \<union> {q. R \<longrightarrow> A' q}) A' n (handle_hello (s_hub e) p msg (sv_hub s))"
          using good_handle_hello [OF g ok] by blast
        have "ready R (T \<union> {q. R \<longrightarrow> A' q}) A' n (receive e p ip raw s)"
          unfolding r using A'(2) s by (auto simp: ready_def)
        moreover have "\<forall>q. A q \<longrightarrow> A' q" using A'(1) by auto
        ultimately show ?thesis by blast
      next
        case False
        show ?thesis
        proof (cases "m_op msg = ''ping''")
          case True
          have "s' = on_hub (send_to p (JObj [(''op'', JStr ''pong'')])) s"
            using f 4(3) True by (auto simp: handlers_def Let_def)
          then have "ready R T A n s'"
            using s by (simp add: ready_send [unfolded send_def] wire_JObj public_JObj)
          then show ?thesis using Inr by (intro same) (simp add: receive_def)
        next
          case no_ping: False
          obtain c where c: "client (sv_hub s) p = Some c" using p by blast
          have "(cl_account c \<noteq> None) = A p" "h_require_login (sv_hub s) = R"
            using good_clientD [OF g] c g by (auto simp: client_def good_def dest: map_of_SomeD)
          then have "R \<longrightarrow> A p"
            using 4(1) False no_ping c by (auto simp: login_gate_def signed_in_def)
          then have "p \<in> T" by (rule audience.trust [OF T])
          from audience.ready_handlers [OF T s ok this f False 4(3)] show ?thesis
            using Inr by (intro same) (simp add: receive_def)
        qed
      qed
    qed
  qed
qed

definition connects :: "event \<Rightarrow> bool" where
  "connects ev = (case ev of Connect p ip country \<Rightarrow> True | _ \<Rightarrow> False)"

lemma ready_exec:
  assumes s: "ready R T A n s" and ok: "server_ok s" and T: "audience R T A" and al: "allowed e ev s"
    and ev: "\<not> connects ev" "\<And>lid p late. ev = LaunchTask lid p late \<Longrightarrow> offer_players p \<subseteq> T"
  shows "\<exists>A'. (\<forall>q. A q \<longrightarrow> A' q) \<and> ready R (T \<union> {q. R \<longrightarrow> A' q}) A' n (exec e ev s)"
proof -
  have same: ?thesis if "ready R T A n (exec e ev s)"
    by (rule exI [of _ A]) (use ready_mono [OF that Un_upper1] in blast)
  show ?thesis
  proof (cases ev)
    case (Receive p ip msg)
    then show ?thesis
      using ready_receive [OF s _ T, of p e ip msg] ok al by (simp add: allowed_def server_ok_def)
  next
    case (Disconnect p)
    then show ?thesis using audience.ready_disconnect [OF T s] by (intro same) simp
  next
    case (PushList p)
    then show ?thesis using audience.ready_push_list [OF T s] by (intro same) simp
  next
    case Tick
    then show ?thesis using ready_automatch_tick [OF s] by (intro same) simp
  next
    case (LaunchTask lid p late)
    then show ?thesis using audience.ready_launch_task [OF T s ev(2)] by (intro same) simp
  qed (use ev(1) in \<open>simp add: connects_def\<close>)
qed

text \<open>After an event, the same holds of those who then stand signed in.\<close>

lemma good_insiders:
  assumes "good R T A n g" "T \<subseteq> {q. R \<longrightarrow> A q}"
  shows "T \<subseteq> insiders g"
proof
  fix q assume "q \<in> T"
  then have "R \<longrightarrow> A q" using assms(2) by blast
  moreover have "h_require_login g = R" using assms(1) by (simp add: good_def)
  ultimately show "q \<in> insiders g"
    using good_clientD [OF assms(1), of q]
    by (auto simp: insiders_def standing_def client_def split: option.split dest: map_of_SomeD)
qed

lemma good_standing:
  assumes "good R T A n g" "hub_ok g" "T \<subseteq> {q. R \<longrightarrow> A q}"
  shows "good (h_require_login g) (insiders g) (standing g) (length (h_out g)) g"
proof -
  have R: "h_require_login g = R" using assms(1) by (simp add: good_def)
  have client: "client g p = Some c" if "(p, c) \<in> set (h_clients g)" for p c
    using that assms(2) by (simp add: client_def hub_ok_def)
  have "T \<subseteq> insiders g" by (rule good_insiders [OF assms(1,3)])
  from good_mono [OF assms(1) this] have m: "good R (insiders g) A n g" .
  have "\<forall>x \<in> set (h_clients g). (cl_account (snd x) \<noteq> None) = standing g (fst x) \<and>
      (cl_pending_mod (snd x) \<noteq> None \<longrightarrow> fst x \<in> insiders g)"
  proof
    fix x assume x: "x \<in> set (h_clients g)"
    then show "(cl_account (snd x) \<noteq> None) = standing g (fst x) \<and> (cl_pending_mod (snd x) \<noteq> None \<longrightarrow> fst x \<in> insiders g)"
      using client [of "fst x" "snd x"] good_clientD [OF m, of "fst x" "snd x"] by (simp add: standing_def)
  qed
  then show ?thesis using m by (simp add: good_def R)
qed

subsection \<open>The shape of every message\<close>

lemma ready_reachable:
  "reachable s \<Longrightarrow> \<exists>R A. ready R UNIV A 0 s"
proof (induction rule: reachable.induct)
  case (start req)
  have "ready req UNIV (\<lambda>_. True) 0 (empty_server req)"
    by (simp add: ready_def good_def empty_server_def empty_hub_def)
  then show ?case by blast
next
  case (step s e ev)
  then obtain R A where r: "ready R UNIV A 0 s" by blast
  show ?case
  proof (cases ev)
    case (Connect p ip country)
    have "\<forall>x \<in> set (AList.update p (new_client p ip country) (h_clients (sv_hub s))).
        (cl_account (snd x) \<noteq> None) = (A(p := False)) (fst x) \<and> (cl_pending_mod (snd x) \<noteq> None \<longrightarrow> fst x \<in> UNIV)"
    proof -
      have fresh: "AList.update p (new_client p ip country) (h_clients (sv_hub s))
          = h_clients (sv_hub s) @ [(p, new_client p ip country)]"
        using step.hyps(2) by (intro update_fresh) (simp add: Connect allowed_def client_def)
      have "fst x \<noteq> p" if "x \<in> set (h_clients (sv_hub s))" for x
        using step.hyps(2) that by (force simp: Connect allowed_def client_def map_of_eq_None_iff)
      then show ?thesis using r unfolding fresh by (auto simp: ready_def good_def new_client_def)
    qed
    then have "ready R UNIV (A(p := False)) 0 (exec e ev s)"
      using r by (simp add: Connect connect_def on_hub_def ready_def good_def)
    then show ?thesis by blast
  qed (use ready_exec [OF r reachable_ok [OF step.hyps(1)] everybody.audience_axioms step.hyps(2)] in
       \<open>auto simp: connects_def dest: ready_mono [OF _ subset_UNIV]\<close>)
qed

text \<open>
  C20: Every message of the lobby is well typed.  In every reachable state, whatever clients have
  sent and however their messages interleaved with timers and launches, each message the hub has
  sent is a JSON object with a field \<^verbatim>\<open>op\<close>, a string, and one of the operations of the protocol.
  (The greeting and the empty text that answers a ping frame come from the task of the connection
  and are not messages of the hub.)
\<close>

theorem every_message_has_an_op:
  assumes "reachable s"
  shows "list_all (\<lambda>(p, m). case json_op m of Some op \<Rightarrow> op \<in> set server_ops | None \<Rightarrow> False) (h_out (sv_hub s))"
proof -
  obtain R A where "ready R UNIV A 0 s" using ready_reachable [OF assms] by blast
  then show ?thesis by (auto simp: ready_def good_def fine_def wire_def list_all_iff)
qed

subsection \<open>Data goes only to those who signed in\<close>

text \<open>Runs in which a launch belongs to an offer both players accepted, and a new connection's
  identifier, a fresh uuid, occurs nowhere in the state.\<close>

definition agreed_by :: "ServerEnv \<Rightarrow> event \<Rightarrow> Server \<Rightarrow> Pending list" where
  "agreed_by e ev s =
     (case ev of
        Receive p ip msg \<Rightarrow> (case accepted_offer p msg s of Some offer \<Rightarrow> [offer] | None \<Rightarrow> [])
      | _ \<Rightarrow> [])"

definition unused :: "string \<Rightarrow> Server \<Rightarrow> Pending list \<Rightarrow> bool" where
  "unused p s agreed \<longleftrightarrow>
     p \<noteq> [] \<and> p \<notin> set (queue_players (sv_queue s)) \<and> list_all (\<lambda>x. p \<notin> offer_players x) agreed \<and>
     list_all (\<lambda>x. fst (fst x) \<noteq> p) (h_probe_grants (sv_hub s)) \<and>
     list_all (\<lambda>x. p \<notin> set (member_ids (snd x)) \<and> lb_host (snd x) \<noteq> p) (h_lobbies (sv_hub s))"

definition careful :: "event \<Rightarrow> Server \<Rightarrow> Pending list \<Rightarrow> bool" where
  "careful ev s agreed =
     (case ev of
        Connect p ip country \<Rightarrow> unused p s agreed
      | LaunchTask lid p late \<Rightarrow> p \<in> set agreed
      | _ \<Rightarrow> True)"

inductive serves :: "Server \<Rightarrow> Pending list \<Rightarrow> bool" where
  serve_start: "serves (empty_server req) []"
| serve_step: "serves s agreed \<Longrightarrow> allowed e ev s \<Longrightarrow> careful ev s agreed \<Longrightarrow>
    serves (exec e ev s) (agreed @ agreed_by e ev s)"

lemma serves_reachable: "serves s agreed \<Longrightarrow> reachable s"
  by (induction rule: serves.induct) (auto intro: reachable.intros)

lemma good_fine: "good R T A n g \<Longrightarrow> \<forall>x \<in> set (drop n (h_out g)). fine T x"
  by (simp add: good_def)

lemma readyD:
  "ready R T A n s \<Longrightarrow> good R T A n (sv_hub s)" "ready R T A n s \<Longrightarrow> set (queue_players (sv_queue s)) \<subseteq> T"
  "ready R T A n s \<Longrightarrow> [] \<in> T"
  by (simp_all add: ready_def)

definition discreet :: "Server \<Rightarrow> Pending list \<Rightarrow> bool" where
  "discreet s agreed \<longleftrightarrow>
     ready (h_require_login (sv_hub s)) (insiders (sv_hub s)) (standing (sv_hub s)) (length (h_out (sv_hub s))) s \<and>
     (\<forall>x \<in> set agreed. offer_players x \<subseteq> insiders (sv_hub s))"

lemma discreetD:
  "discreet s agreed \<Longrightarrow>
     ready (h_require_login (sv_hub s)) (insiders (sv_hub s)) (standing (sv_hub s)) (length (h_out (sv_hub s))) s"
  "discreet s agreed \<Longrightarrow> x \<in> set agreed \<Longrightarrow> offer_players x \<subseteq> insiders (sv_hub s)"
  by (simp_all add: discreet_def)

lemma standing_connect:
  "standing (sv_hub (connect p ip country s)) q = (q \<noteq> p \<and> standing (sv_hub s) q)"
  by (simp add: standing_def connect_def on_hub_def client_def new_client_def)

lemma discreet_connect:
  assumes "discreet s agreed" "client (sv_hub s) p = None" "unused p s agreed"
  shows "discreet (connect p ip country s) agreed"
proof -
  let ?g = "sv_hub s" and ?s = "connect p ip country s"
  let ?R = "h_require_login ?g" and ?T = "insiders ?g"
  have r: "ready ?R ?T (standing ?g) (length (h_out ?g)) s" using assms(1) by (simp add: discreet_def)
  have g': "sv_hub ?s = ?g\<lparr> h_clients := h_clients ?g @ [(p, new_client p ip country)] \<rparr>"
    using assms(2) update_fresh [of "h_clients ?g" p] by (simp add: connect_def on_hub_def client_def)
  have T': "insiders (sv_hub ?s) = {q. ?R \<longrightarrow> q \<noteq> p \<and> standing ?g q}"
    by (simp add: insiders_def standing_connect) (simp add: connect_def on_hub_def)
  have T: "q \<in> insiders (sv_hub ?s)" if "q \<in> ?T" "q \<noteq> p" for q
    using that unfolding T' by (simp add: insiders_def)
  have others: "fst x \<noteq> p" if "x \<in> set (h_clients ?g)" for x
    using assms(2) that by (force simp: client_def map_of_eq_None_iff)
  have clients: "(cl_account (snd x) \<noteq> None) = standing ?g (fst x) \<and> (cl_pending_mod (snd x) \<noteq> None \<longrightarrow> fst x \<in> ?T)"
    if "x \<in> set (h_clients ?g)" for x using r that by (simp add: ready_def good_def)
  have "\<forall>x \<in> set (h_clients (sv_hub ?s)).
      (cl_account (snd x) \<noteq> None) = standing (sv_hub ?s) (fst x) \<and> (cl_pending_mod (snd x) \<noteq> None \<longrightarrow> fst x \<in> insiders (sv_hub ?s))"
  proof
    fix x assume "x \<in> set (h_clients (sv_hub ?s))"
    then consider "x \<in> set (h_clients ?g)" | "x = (p, new_client p ip country)" by (auto simp: g')
    then show "(cl_account (snd x) \<noteq> None) = standing (sv_hub ?s) (fst x) \<and>
        (cl_pending_mod (snd x) \<noteq> None \<longrightarrow> fst x \<in> insiders (sv_hub ?s))"
    proof cases
      case 1
      then show ?thesis using clients [OF 1] others [OF 1] T [of "fst x"] by (simp add: standing_connect)
    next
      case 2
      then show ?thesis by (simp add: standing_connect new_client_def)
    qed
  qed
  moreover have "\<forall>x \<in> set (h_lobbies (sv_hub ?s)). set (member_ids (snd x)) \<subseteq> insiders (sv_hub ?s) \<and> lb_host (snd x) \<in> insiders (sv_hub ?s)"
  proof
    fix x assume x: "x \<in> set (h_lobbies (sv_hub ?s))"
    then have "set (member_ids (snd x)) \<subseteq> ?T" "lb_host (snd x) \<in> ?T" using r by (simp_all add: g' ready_def good_def)
    moreover have "p \<notin> set (member_ids (snd x))" "lb_host (snd x) \<noteq> p"
      using assms(3) x by (simp_all add: g' unused_def list_all_iff)
    ultimately show "set (member_ids (snd x)) \<subseteq> insiders (sv_hub ?s) \<and> lb_host (snd x) \<in> insiders (sv_hub ?s)"
      using T by blast
  qed
  moreover have "\<forall>x \<in> set (h_probe_grants (sv_hub ?s)). fst (fst x) \<in> insiders (sv_hub ?s)"
    using r assms(3) T by (simp add: g' ready_def good_def unused_def list_all_iff)
  ultimately have "good (h_require_login (sv_hub ?s)) (insiders (sv_hub ?s)) (standing (sv_hub ?s)) (length (h_out (sv_hub ?s))) (sv_hub ?s)"
    by (simp add: good_def)
  moreover have "sv_queue ?s = sv_queue s" by (simp add: connect_def on_hub_def)
  moreover have "set (queue_players (sv_queue s)) \<subseteq> insiders (sv_hub ?s)"
  proof
    fix q assume q: "q \<in> set (queue_players (sv_queue s))"
    then have "q \<in> ?T" using r by (auto simp: ready_def)
    moreover have "q \<noteq> p" using q assms(3) by (auto simp: unused_def)
    ultimately show "q \<in> insiders (sv_hub ?s)" by (rule T)
  qed
  moreover have "[] \<in> insiders (sv_hub ?s)"
  proof (rule T)
    show "[] \<in> ?T" using r by (simp add: ready_def)
    show "[] \<noteq> p" using assms(3) by (auto simp: unused_def)
  qed
  moreover have "\<forall>x \<in> set agreed. offer_players x \<subseteq> insiders (sv_hub ?s)"
  proof (intro ballI subsetI)
    fix x q assume x: "x \<in> set agreed" "q \<in> offer_players x"
    then have "q \<in> ?T" using assms(1) by (auto simp: discreet_def)
    moreover have "q \<noteq> p" using x assms(3) by (auto simp: unused_def list_all_iff)
    ultimately show "q \<in> insiders (sv_hub ?s)" by (rule T)
  qed
  ultimately show ?thesis by (simp add: discreet_def ready_def)
qed

lemma accepted_offer_players:
  assumes "accepted_offer p msg s = Some offer"
  shows "offer_players offer \<subseteq> set (queue_players (sv_queue s))"
proof -
  obtain q out where a: "answer_for p (unwrap_or (m_accept msg) False) (m_match msg) (sv_queue s) = (q, out)" by force
  then have "out = Some offer" using assms by (simp add: accepted_offer_def)
  then show ?thesis using queue_answer [OF a] by simp
qed

lemma discreet_other:
  assumes s: "discreet s agreed" and ok: "server_ok s" "server_ok (exec e ev s)"
    and al: "allowed e ev s" "careful ev s agreed" and ev: "\<not> connects ev"
  shows "discreet (exec e ev s) (agreed @ agreed_by e ev s)"
    "\<forall>x \<in> set (drop (length (h_out (sv_hub s))) (h_out (sv_hub (exec e ev s)))). fine (insiders (sv_hub (exec e ev s))) x"
proof -
  let ?g = "sv_hub s" and ?g' = "sv_hub (exec e ev s)" and ?n = "length (h_out (sv_hub s))"
  let ?R = "h_require_login ?g" and ?T = "insiders ?g" and ?A = "standing ?g"
  have r: "ready ?R ?T ?A ?n s" by (rule discreetD(1) [OF s])
  have launch: "offer_players p \<subseteq> ?T" if "ev = LaunchTask lid p late" for lid p late
    by (rule discreetD(2) [OF s]) (use al(2) that in \<open>simp add: careful_def\<close>)
  from ready_exec [OF r ok(1) signed.audience_axioms al(1) ev launch]
  obtain A' where A': "(\<forall>q. ?A q \<longrightarrow> A' q) \<and> ready ?R (?T \<union> {q. ?R \<longrightarrow> A' q}) A' ?n (exec e ev s)" ..
  let ?T' = "?T \<union> {q. ?R \<longrightarrow> A' q}"
  note r' = conjunct2 [OF A'] and g' = readyD(1) [OF conjunct2 [OF A']]
  have sub: "?T' \<subseteq> {q. ?R \<longrightarrow> A' q}" using conjunct1 [OF A'] by (auto simp: insiders_def)
  have hub: "hub_ok ?g'" using ok(2) by (simp add: server_ok_def)
  have T': "?T' \<subseteq> insiders ?g'" by (rule good_insiders [OF g' sub])
  show "\<forall>x \<in> set (drop ?n (h_out ?g')). fine (insiders ?g') x"
    by (rule good_fine [OF good_mono [OF g' T']])
  have "ready (h_require_login ?g') (insiders ?g') (standing ?g') (length (h_out ?g')) (exec e ev s)"
    unfolding ready_def
    by (intro conjI good_standing [OF g' hub sub] order_trans [OF readyD(2) [OF r'] T'] subsetD [OF T' readyD(3) [OF r']])
  moreover have "offer_players x \<subseteq> insiders ?g'" if "x \<in> set agreed" for x
    by (rule order_trans [OF discreetD(2) [OF s that] order_trans [OF Un_upper1 T']])
  moreover have "offer_players x \<subseteq> insiders ?g'" if x: "x \<in> set (agreed_by e ev s)" for x
  proof -
    have "offer_players x \<subseteq> set (queue_players (sv_queue s))"
      using x by (cases ev) (simp_all add: agreed_by_def accepted_offer_players split: option.splits)
    also have "\<dots> \<subseteq> ?T" by (rule readyD(2) [OF r])
    also have "\<dots> \<subseteq> insiders ?g'" by (rule order_trans [OF Un_upper1 T'])
    finally show ?thesis .
  qed
  ultimately show "discreet (exec e ev s) (agreed @ agreed_by e ev s)"
    unfolding discreet_def by auto
qed

lemma serves_discreet: "serves s agreed \<Longrightarrow> discreet s agreed"
proof (induction rule: serves.induct)
  case (serve_start req)
  show ?case
    by (simp add: discreet_def ready_def good_def empty_server_def empty_hub_def insiders_def standing_def client_def
        queue_players_def offered_tickets_def)
next
  case (serve_step s agreed e ev)
  have ok: "server_ok s" by (rule reachable_ok [OF serves_reachable [OF serve_step.hyps(1)]])
  show ?case
  proof (cases "connects ev")
    case True
    then obtain p ip country where ev: "ev = Connect p ip country" by (auto simp: connects_def split: event.splits)
    have "client (sv_hub s) p = None" "unused p s agreed"
      using serve_step.hyps(2,3) by (simp_all add: ev allowed_def careful_def)
    from discreet_connect [OF serve_step.IH this] show ?thesis by (simp add: ev agreed_by_def)
  next
    case False
    show ?thesis
      by (rule discreet_other(1) [OF serve_step.IH ok exec_ok [OF ok serve_step.hyps(2)] serve_step.hyps(2,3) False])
  qed
qed


theorem every_message_has_an_op_witness:
  "reachable demo_hosting \<and>
   list_all (\<lambda>(p, m). case json_op m of Some op \<Rightarrow> op \<in> set server_ops | None \<Rightarrow> False) (h_out (sv_hub demo_hosting))"
proof -
  have "reachable demo_hosting"
    unfolding demo_hosting_def by (rule reachable.step [OF demo_connected_reachable demo_create_allowed])
  with every_message_has_an_op [OF this] show ?thesis by blast
qed

definition demo_gated :: Server where
  "demo_gated = exec demo_server_env (Connect ''a'' ''1.1.1.1'' []) (empty_server True)"

lemma demo_gated_serves: "serves demo_gated []"
proof -
  have "serves (exec demo_server_env (Connect ''a'' ''1.1.1.1'' []) (empty_server True))
      ([] @ agreed_by demo_server_env (Connect ''a'' ''1.1.1.1'' []) (empty_server True))"
    by (rule serve_step [OF serve_start])
      (simp_all add: allowed_def careful_def unused_def empty_server_def empty_hub_def client_def queue_players_def
        offered_tickets_def)
  then show ?thesis by (simp add: demo_gated_def agreed_by_def)
qed

text \<open>An unsigned \<^verbatim>\<open>hello\<close> at a gated server is answered by a refusal, and by nothing else.\<close>

lemma demo_hello:
  "h_out (sv_hub (exec demo_server_env (Receive ''a'' ''1.1.1.1'' (blank_msg ''hello'')) demo_gated))
     = [(''a'', err_json ''login_required'')]"
  "h_out (sv_hub demo_gated) = []" "h_require_login (sv_hub demo_gated)"
  by (simp_all add: demo_gated_def connect_def on_hub_def empty_server_def empty_hub_def receive_def handle_text_def
      sanitize_in_place_def blank_msg_def sanitize_def login_gate_def handlers_def Let_def handle_hello_def nonempty_def
      apply_identity_def client_name_def client_def upd_client_def signed_in_def new_client_def refuse_def send_to_def)



subsection \<open>What the gate lets through\<close>

lemma send_all_out: "h_out (send_all ps m g) = h_out g @ map (\<lambda>p. (p, m)) (filter (\<lambda>p. client g p \<noteq> None) ps)"
proof (induction ps arbitrary: g)
  case Nil
  show ?case by (simp add: send_all_def)
next
  case (Cons p ps)
  have "send_all (p # ps) m g = send_all ps m (send_to p m g)" by (simp add: send_all_def)
  then show ?case by (simp add: Cons.IH) (simp add: send_to_def client_def)
qed

lemma stranger_hello:
  assumes "client g q = Some c" "cl_account c = None" "cl_lobby c = None" "h_require_login g"
    and "nonempty (m_session msg) = None" "nonempty (m_game msg) = Some game"
  shows "\<exists>c'. client (handle_hello e q msg g) q = Some c' \<and> cl_account c' = None \<and> cl_game c' = game"
    and "p \<noteq> q \<Longrightarrow> client (handle_hello e q msg g) p = client g p"
    and "h_out (handle_hello e q msg g) = h_out g @ [(q, err_json ''login_required'')]"
proof -
  define g1 where "g1 = upd_client q (\<lambda>c. c\<lparr> cl_display := unwrap_or (nonempty (m_display_name msg)) (cl_display c),
    cl_game := unwrap_or (nonempty (m_game msg)) (cl_game c) \<rparr>) g"
  have q: "client g1 q = Some (c\<lparr> cl_display := unwrap_or (nonempty (m_display_name msg)) (cl_display c), cl_game := game \<rparr>)"
    using assms(1,6) by (simp add: g1_def client_upd)
  have "room_of g1 q = Inl ''not_in_lobby''" using assms(3) by (simp add: room_of_def q)
  then have "apply_identity e q (nonempty (m_display_name msg)) (nonempty (m_game msg)) g = (g1, client_name q g1 [], None)"
    by (simp add: apply_identity_def g1_def [symmetric] Let_def split: option.split)
  moreover have "h_require_login g1" "\<not> signed_in q g1"
    using assms(2,4) by (simp_all add: signed_in_def q) (simp add: g1_def upd_client_def)
  ultimately have h: "handle_hello e q msg g = send_to q (err_json ''login_required'') g1"
    using assms(5) by (simp add: handle_hello_def refuse_def)
  show "\<exists>c'. client (handle_hello e q msg g) q = Some c' \<and> cl_account c' = None \<and> cl_game c' = game"
    using assms(2) q by (simp add: h send_to_def client_def)
  show "p \<noteq> q \<Longrightarrow> client (handle_hello e q msg g) p = client g p"
    by (simp add: h send_to_def client_def g1_def upd_client_def)
  show "h_out (handle_hello e q msg g) = h_out g @ [(q, err_json ''login_required'')]"
    using q by (simp add: h send_to_def) (simp add: g1_def upd_client_def)
qed

lemma server_chat_reaches:
  assumes "client g p = Some d" "client g q = Some c" "p \<noteq> q" "cl_game c = game"
    and "chat_text (m_text msg) \<noteq> []" "nonempty (m_game msg) = Some game"
  shows "\<exists>m. (q, m) \<in> set (drop (length (h_out g)) (h_out (handle_server_chat e p msg g))) \<and> json_op m = Some ''server_chat''"
proof -
  have n: "game \<noteq> []" using assms(6) by (auto simp: nonempty_def filter_option_def split: option.splits if_splits)
  define g1 where "g1 = set_game p (Some game) g"
  have p1: "client g1 p = Some (d\<lparr> cl_game := game \<rparr>)" "client g1 q = Some c"
    using assms(1-3) by (simp_all add: g1_def set_game_def client_upd)
  then have sc: "game_scope_for g1 p = game" using n by (simp add: game_scope_for_def)
  define g2 where "g2 = upd_client p (\<lambda>c. c\<lparr> cl_game := (if cl_game c = [] then game else cl_game c) \<rparr>) g1"
  have p2: "client g2 p = Some (d\<lparr> cl_game := game \<rparr>)" "client g2 q = Some c"
    using p1 assms(3) n by (simp_all add: g2_def client_upd)
  obtain g3 mid where r: "remember_chat (account_id (d\<lparr> cl_game := game \<rparr>)) (cl_display d) (mask (e_filter e) (chat_text (m_text msg)))
      ''server'' [] game g2 = (g3, mid)" by force
  define m where "m = JObj
    [(''op'', JStr ''server_chat''), (''game_name'', JStr game), (''mid'', JStr mid), (''from_player_id'', JStr p),
     (''from_account'', JStr (account_id (d\<lparr> cl_game := game \<rparr>))), (''from'', JStr (cl_display d)), (''country'', JStr (cl_country d)),
     (''text'', JStr (mask (e_filter e) (chat_text (m_text msg))))]"
  have h: "handle_server_chat e p msg g = send_all (server_audience g2 game) m g3"
    using assms(5,6) n r
    by (simp add: handle_server_chat_def Let_def g1_def [symmetric] sc g2_def [symmetric] p2 m_def cong: if_cong)
  have "q \<in> set (server_audience g2 game)"
    using p2(2) assms(4) n map_of_SomeD [of "h_clients g2" q c]
    by (auto simp: server_audience_def game_scope_for_def keys_def client_def intro: image_eqI [where x = "(q, c)"])
  moreover have "client g3 q \<noteq> None" "h_out g3 = h_out g"
    using p2(2) r by (auto simp: remember_chat_def Let_def client_def g2_def g1_def set_game_def upd_client_def)
  ultimately have "(q, m) \<in> set (drop (length (h_out g)) (h_out (handle_server_chat e p msg g)))"
    by (simp add: h send_all_out)
  moreover have "json_op m = Some ''server_chat''" by (simp add: m_def)
  ultimately show ?thesis by blast
qed

text \<open>
  C18: The game chat reaches strangers.  A client that has not signed in at a server that demands a
  login, and that names a game in its refused \<^verbatim>\<open>hello\<close>, stays connected and is sent every line of
  that game's chat, with the name, country and account of its author: the refusal
  \<^verbatim>\<open>login_required\<close> comes after the game has been stored, and the audience of the game chat is chosen
  by that game alone.  The comment on \<^verbatim>\<open>require_login\<close> promises that such a connection is sent no
  lobby or player data.
\<close>

theorem the_game_chat_reaches_strangers:
  assumes "h_require_login g" "client g q = Some c" "cl_account c = None" "cl_lobby c = None"
    and "nonempty (m_session hello) = None" "nonempty (m_game hello) = Some game"
    and "client g p = Some d" "p \<noteq> q" "chat_text (m_text line) \<noteq> []" "nonempty (m_game line) = Some game"
  shows "h_out (handle_hello e q hello g) = h_out g @ [(q, err_json ''login_required'')] \<and>
    (\<exists>c'. client (handle_hello e q hello g) q = Some c' \<and> cl_account c' = None) \<and>
    (\<exists>m. (q, m) \<in> set (drop (length (h_out g) + 1) (h_out (handle_server_chat e' p line (handle_hello e q hello g)))) \<and>
      json_op m = Some ''server_chat'')"
proof -
  note s = stranger_hello [OF assms(2-4,1,5,6), where e = e]
  obtain c' where c: "client (handle_hello e q hello g) q = Some c'" "cl_account c' = None" "cl_game c' = game"
    using s(1) by blast
  have "client (handle_hello e q hello g) p = Some d" using s(2) [OF assms(8)] assms(7) by simp
  from server_chat_reaches [OF this c(1) assms(8) c(3) assms(9,10), where e = e'] show ?thesis using s(3) c by simp
qed

definition demo_gated_hub :: Hub where
  "demo_gated_hub = (empty_hub True)\<lparr> h_clients :=
     [(''a'', (new_client ''a'' [] [])\<lparr> cl_account := Some \<lparr> pl_id = 7, pl_discord_id = ''1'', pl_discord_username = ''ann'',
        pl_handle = ''Ann'' \<rparr> \<rparr>), (''b'', new_client ''b'' [] [])] \<rparr>"

lemma hi: "chat_text (Some ''hi'') = ''hi''"
  by (simp add: chat_text_def CHAT_MAX_CHARS_def trim_def trim_chars_def chars_def of_chars_def rust_simps utf8_bytes_def
    is_whitespace_def char_of_def bit_0)

theorem the_game_chat_reaches_strangers_witness:
  "\<exists>m. (''b'', m) \<in> set (h_out (handle_server_chat (s_hub demo_server_env) ''a''
      ((blank_msg ''server_chat'')\<lparr> m_game := Some ''pong'', m_text := Some ''hi'' \<rparr>)
      (handle_hello (s_hub demo_server_env) ''b'' ((blank_msg ''hello'')\<lparr> m_game := Some ''pong'' \<rparr>) demo_gated_hub))) \<and>
    json_op m = Some ''server_chat''"
proof -
  let ?hello = "(blank_msg ''hello'')\<lparr> m_game := Some ''pong'' \<rparr>"
  let ?line = "(blank_msg ''server_chat'')\<lparr> m_game := Some ''pong'', m_text := Some ''hi'' \<rparr>"
  have m: "nonempty (m_session ?hello) = None" "nonempty (m_game ?hello) = Some ''pong''"
    "chat_text (m_text ?line) \<noteq> []" "nonempty (m_game ?line) = Some ''pong''"
    by (simp_all add: blank_msg_def nonempty_def hi)
  have g: "h_require_login demo_gated_hub" "client demo_gated_hub ''b'' = Some (new_client ''b'' [] [])"
    "cl_account (new_client ''b'' [] []) = None" "cl_lobby (new_client ''b'' [] []) = None"
    by (simp_all add: demo_gated_hub_def empty_hub_def client_def new_client_def)
  obtain d where d: "client demo_gated_hub ''a'' = Some d"
    by (simp add: demo_gated_hub_def empty_hub_def client_def)
  from the_game_chat_reaches_strangers [OF g m(1,2) d _ m(3,4), where e = "s_hub demo_server_env" and e' = "s_hub demo_server_env"]
  show ?thesis by (auto dest: in_set_dropD)
qed

end
