(* ===== verification/Presence.thy ===== *)
theory Presence
  imports Sign_In Audience Room_Refinement
begin

text \<open>
  The automatch queue and the connections behind it (\<^verbatim>\<open>src/ws_lobby.rs\<close> with
  \<^verbatim>\<open>src/automatch.rs\<close>): whether the players who wait, or sit in an offer, are connected and signed
  in as the account they queued with.  The operations of the queue are accounted for by what
  they do to the multiset of its places; the hub's operations settle the tickets taken out.
\<close>

subsection \<open>Places\<close>

definition entry :: "Ticket \<Rightarrow> string \<times> string" where
  "entry t = (tk_player t, tk_account t)"

definition places :: "QueueInner \<Rightarrow> (string \<times> string) list" where
  "places q = map entry (tickets q @ offered_tickets (pending q))"

definition offer_entries :: "Pending \<Rightarrow> (string \<times> string) list" where
  "offer_entries o' = [entry (pn_a o'), entry (pn_b o')]"

definition sides :: "Pending option \<Rightarrow> Ticket list" where
  "sides r = (case r of None \<Rightarrow> [] | Some o' \<Rightarrow> [pn_a o', pn_b o'])"

lemma sides_simps [simp]: "sides None = []" "sides (Some o') = [pn_a o', pn_b o']"
  by (simp_all add: sides_def)

lemma entry_frame [simp]: "entry (t\<lparr> tk_queued_at := n \<rparr>) = entry t" "entry (t\<lparr> tk_rtt := r \<rparr>) = entry t"
  by (simp_all add: entry_def)

lemma offered_entries: "map entry (offered_tickets ps) = concat (map offer_entries ps)"
  by (induction ps) (simp_all add: offered_tickets_def offer_entries_def)

lemma places_eq: "places q = map entry (tickets q) @ concat (map offer_entries (pending q))"
  by (simp add: places_def offered_entries)

lemma map_snd_places: "map snd (places q) = queue_accounts q"
  by (simp add: places_eq queue_accounts_def map_concat comp_def offer_entries_def offer_accounts_def [abs_def] entry_def)

lemma places_requeue [simp]: "places (requeue_front n t q) = entry t # places q"
  by (simp add: places_def requeue_front_def)

text \<open>A place stands when its connection is there and signed in as its account.  \<open>present\<close> also
  speaks of the tickets that were taken out and are not settled yet.\<close>

definition stands :: "Hub \<Rightarrow> string \<times> string \<Rightarrow> bool" where
  "stands g x \<longleftrightarrow> (case Sign_In.account g (fst x) of None \<Rightarrow> False | Some pl \<Rightarrow> uuid_text (pl_id pl) = snd x)"

definition present :: "Hub \<Rightarrow> QueueInner \<Rightarrow> Ticket list \<Rightarrow> bool" where
  "present g q loose \<longleftrightarrow>
     distinct (map snd (places q @ map entry loose)) \<and> (\<forall>x \<in> set (places q). stands g x) \<and>
     (\<forall>t \<in> set loose. client g (tk_player t) \<noteq> None \<longrightarrow> stands g (entry t))"

lemma stands_same: "stands g (p, a) \<Longrightarrow> stands g (p, b) \<Longrightarrow> a = b"
  by (auto simp: stands_def split: option.splits)

lemma stands_client: "stands g x \<Longrightarrow> client g (fst x) \<noteq> None"
  by (auto simp: stands_def Sign_In.account_def bind_eq_Some_conv split: option.splits)

lemma present_drop:
  assumes "present g q ts" "mset us \<subseteq># mset ts"
  shows "present g q us"
proof -
  have "mset (map snd (places q @ map entry us)) \<subseteq># mset (map snd (places q @ map entry ts))"
    using assms(2) by (simp add: image_mset_subseteq_mono)
  then have "distinct (map snd (places q @ map entry us))"
    using distinct_submset assms(1) unfolding present_def by blast
  moreover have "set us \<subseteq> set ts" using assms(2) by (metis set_mset_mono set_mset_mset)
  ultimately show ?thesis using assms(1) by (auto simp: present_def)
qed

lemma present_requeue:
  assumes "present g q (t # ts)" "client g (tk_player t) \<noteq> None"
  shows "present g (requeue_front n t q) ts"
  using assms by (auto simp: present_def)

text \<open>Distinct accounts that stand are distinct connections.\<close>

lemma distinct_players:
  "distinct (map snd xs) \<Longrightarrow> \<forall>x \<in> set xs. stands g x \<Longrightarrow> distinct (map fst xs)"
proof (induction xs)
  case (Cons x xs)
  then have "fst x \<noteq> fst y" if "y \<in> set xs" for y
    using that stands_same [of g "fst x" "snd x" "snd y"] by (cases x; cases y) force
  then show ?case using Cons by (auto simp: image_iff)
qed simp

subsection \<open>Operations of the queue take tickets out\<close>

locale taking_op =
  fixes op :: "QueueInner \<Rightarrow> QueueInner \<times> Ticket list"
  assumes conserves: "mset (places (fst (op q))) + mset (map entry (snd (op q))) \<subseteq># mset (places q)"
begin

lemma takes_from: "set (places (fst (op q))) \<union> entry ` set (snd (op q)) \<subseteq> set (places q)"
  using set_mset_mono [OF conserves [of q]] by simp

lemma keeps_present:
  assumes "present g q ts" "op q = (q', out)"
  shows "present g q' (out @ ts)"
proof -
  have c: "mset (places q') + mset (map entry out) \<subseteq># mset (places q)" using conserves [of q] assms(2) by simp
  have "mset (map snd (places q' @ map entry (out @ ts))) =
      image_mset snd (mset (places q') + mset (map entry out) + mset (map entry ts))" by (simp add: multiset.map_comp)
  also have "\<dots> \<subseteq># image_mset snd (mset (places q) + mset (map entry ts))"
    using c by (intro image_mset_subseteq_mono) simp
  also have "\<dots> = mset (map snd (places q @ map entry ts))" by (simp add: multiset.map_comp)
  finally have "distinct (map snd (places q' @ map entry (out @ ts)))"
    using distinct_submset assms(1) unfolding present_def by blast
  then show ?thesis using takes_from [of q] assms by (auto simp: present_def)
qed

end

interpretation noted: taking_op "\<lambda>q. (note_pairing n a b q, [])" for n a b
  by unfold_locales (simp add: note_pairing_def places_def)

lemma set_rtt_list_entries: "map entry (fst (set_rtt_list p r ts)) = map entry ts"
  by (induction ts) (auto split: prod.splits)

interpretation measured: taking_op "\<lambda>q. (fst (set_rtt p r q), [])" for p r
proof
  fix q :: QueueInner
  obtain ts b where "set_rtt_list p r (tickets q) = (ts, b)" by force
  then show "mset (places (fst (fst (set_rtt p r q), []))) + mset (map entry (snd (fst (set_rtt p r q), []))) \<subseteq># mset (places q)"
    using set_rtt_list_entries [of p r "tickets q"] by (simp add: set_rtt_def places_eq flip: mset_map)
qed

interpretation paired: taking_op "\<lambda>q. (fst (pair n cd mint q), [])" for n cd mint
proof
  fix q :: QueueInner
  obtain q' offers where p: "pair n cd mint q = (q', offers)" by force
  have "image_mset entry (mset (tickets q)) = image_mset entry (mset (tickets q')) + mset (concat (map offer_entries offers))"
    using pair_effect [OF p] by (simp add: offered_entries [symmetric])
  then show "mset (places (fst (fst (pair n cd mint q), []))) + mset (map entry (snd (fst (pair n cd mint q), []))) \<subseteq># mset (places q)"
    using pair_effect [OF p] by (simp add: p places_eq)
qed

interpretation lapsed: taking_op "\<lambda>q. case take_expired n secs q of (q', dead) \<Rightarrow> (q', offered_tickets dead)" for n secs
proof
  fix q :: QueueInner
  have "mset (concat (map offer_entries (filter P ps))) + mset (concat (map offer_entries (filter (\<lambda>x. \<not> P x) ps))) =
      mset (concat (map offer_entries ps))" for P ps
    by (induction ps) auto
  from this [of "\<lambda>p. \<not> expired n secs p" "pending q"]
  show "mset (places (fst (case take_expired n secs q of (q', dead) \<Rightarrow> (q', offered_tickets dead)))) +
      mset (map entry (snd (case take_expired n secs q of (q', dead) \<Rightarrow> (q', offered_tickets dead)))) \<subseteq># mset (places q)"
    by (simp add: take_expired_def expire_loop_eq places_eq offered_entries)
qed

lemma take_offer:
  assumes "position (\<lambda>o'. side o' p \<noteq> None) ps = Some i"
  shows "mset (concat (map offer_entries ps)) = mset (offer_entries (ps ! i)) + mset (concat (map offer_entries (remove_at i ps)))"
  using assms position_Some by (intro mset_concat_remove_at) blast

interpretation taken: taking_op "\<lambda>q. case remove_player p q of (q', out) \<Rightarrow> (q', sides out)" for p
proof
  fix q :: QueueInner
  show "mset (places (fst (case remove_player p q of (q', out) \<Rightarrow> (q', sides out)))) +
      mset (map entry (snd (case remove_player p q of (q', out) \<Rightarrow> (q', sides out)))) \<subseteq># mset (places q)"
  proof (cases "position (\<lambda>o'. side o' p \<noteq> None) (pending q)")
    case None
    then show ?thesis by (simp add: remove_player_def places_eq mset_filter_map_sub)
  next
    case (Some i)
    then show ?thesis using take_offer [OF Some]
      by (simp add: remove_player_def places_eq offer_entries_def mset_filter_map_sub)
  qed
qed

lemma entries_record [simp]:
  "offer_entries (record_answer p yes o') = offer_entries o'" "entry (pn_a (record_answer p yes o')) = entry (pn_a o')"
  "entry (pn_b (record_answer p yes o')) = entry (pn_b o')"
  by (simp_all add: record_answer_def offer_entries_def split: option.split bool.split)

interpretation replied: taking_op "\<lambda>q. case answer_for p yes m q of (q', out) \<Rightarrow> (q', sides out)" for p yes m
proof
  fix q :: QueueInner
  show "mset (places (fst (case answer_for p yes m q of (q', out) \<Rightarrow> (q', sides out)))) +
      mset (map entry (snd (case answer_for p yes m q of (q', out) \<Rightarrow> (q', sides out)))) \<subseteq># mset (places q)"
  proof (cases "position (\<lambda>o'. side o' p \<noteq> None) (pending q)")
    case (Some i)
    then have "map offer_entries ((pending q)[i := record_answer p yes (pending q ! i)]) = map offer_entries (pending q)"
      by (metis entries_record(1) list_update_id map_update)
    then show ?thesis using take_offer [OF Some] Some
      by (simp add: answer_for_def Let_def places_eq offer_entries_def)
  qed (simp add: answer_for_def)
qed


subsection \<open>Settling\<close>

abbreviation on_roster :: "Server \<Rightarrow> Ticket list \<Rightarrow> bool" where
  "on_roster s ts \<equiv> present (sv_hub s) (sv_queue s) ts"

lemma client_who: "client g p = None \<longleftrightarrow> map_of (snd (who g)) p = None"
  by (simp add: who_def map_of_accounts client_def)

lemma present_who:
  assumes "present g q ts" "who g' = who g"
  shows "present g' q ts"
  using assms(1) unfolding present_def stands_def client_who who_account [OF assms(2)] assms(2) .

lemma queue_frame [simp]:
  "sv_queue (on_hub f s) = sv_queue s" "sv_queue (send p m s) = sv_queue s" "sv_queue (deny p c s) = sv_queue s"
  "sv_queue (strike e t k o' s) = sv_queue s" "sv_queue (offer_pair e o' s) = sv_queue s"
  by (simp_all add: on_hub_def send_def deny_def strike_def offer_pair_def Let_def)

lemma foldl_queue: "(\<And>s x. sv_queue (f s x) = sv_queue s) \<Longrightarrow> sv_queue (foldl f s xs) = sv_queue s"
  by (induction xs arbitrary: s) simp_all

lemma requeue_present:
  assumes "on_roster s (t # ts)"
  shows "on_roster (requeue e t r s) ts"
proof (cases "here s (tk_player t)")
  case True
  then have "present (sv_hub s) (requeue_front (now e) t (sv_queue s)) ts"
    using present_requeue [OF assms] by (simp add: here_def)
  from present_who [OF this, of "sv_hub (requeue e t r s)"] show ?thesis using True by (simp add: requeue_def)
next
  case False
  then show ?thesis using present_drop [OF assms, of ts] by (simp add: requeue_def)
qed

lemma settle_declined_present:
  assumes "on_roster s (pn_a o' # pn_b o' # ts)"
  shows "on_roster (settle_declined e o' p k s) ts"
proof -
  obtain loser other where lo: "(if tk_player (pn_a o') = p then (pn_a o', pn_b o') else (pn_b o', pn_a o')) = (loser, other)"
    by force
  then have "mset (other # ts) \<subseteq># mset (pn_a o' # pn_b o' # ts)" by (auto split: if_splits)
  note drop = present_drop [OF assms this]
  show ?thesis
    unfolding settle_declined_def lo Let_def prod.case
    by (rule requeue_present, simp, rule present_who [OF drop], simp)
qed

lemma settle_expired_present:
  assumes "on_roster s (pn_a o' # pn_b o' # ts)"
  shows "on_roster (settle_expired e o' s) ts"
proof -
  have "on_roster s ts" using present_drop [OF assms] by simp
  from present_who [OF this] settle_declined_present [OF assms] show ?thesis
    by (simp add: settle_expired_def Let_def)
qed

lemma settle_all_present:
  "on_roster s (offered_tickets ps @ ts) \<Longrightarrow> on_roster (foldl (\<lambda>s o'. settle_expired e o' s) s ps) ts"
proof (induction ps arbitrary: s)
  case (Cons o' ps)
  then have "on_roster s (pn_a o' # pn_b o' # offered_tickets ps @ ts)" by (simp add: offered_tickets_def)
  from settle_expired_present [OF this] Cons.IH show ?case by simp
qed (simp add: offered_tickets_def)

lemma requeue_all_present: "on_roster s (us @ ts) \<Longrightarrow> on_roster (foldl (\<lambda>s t. requeue e t r s) s us) ts"
  by (induction us arbitrary: s) (simp_all add: requeue_present)

lemma run_pairing_present:
  assumes "on_roster s ts"
  shows "on_roster (run_pairing e s) ts"
proof -
  obtain q offers where p: "pair (now e) (automatch_rematch_cooldown_secs (cfg e)) (s_mint e) (sv_queue s) = (q, offers)" by force
  have "present (sv_hub s) q ts"
    using paired.keeps_present [OF assms, of "now e" "automatch_rematch_cooldown_secs (cfg e)" "s_mint e" q "[]"] p by simp
  moreover have "sv_queue (run_pairing e s) = q" by (simp add: run_pairing_def p foldl_queue)
  ultimately show ?thesis by (simp add: present_who [of "sv_hub s"])
qed

lemma form_match_present:
  assumes "on_roster s (pn_a o' # pn_b o' # ts)"
  shows "on_roster (form_match e o' s) ts"
proof -
  define s0 where "s0 = s\<lparr> sv_queue := note_pairing (now e) (tk_account (pn_a o')) (tk_account (pn_b o')) (sv_queue s) \<rparr>"
  have s0: "on_roster s0 (pn_a o' # pn_b o' # ts)"
    using noted.keeps_present [OF assms, of "now e" "tk_account (pn_a o')" "tk_account (pn_b o')" _ "[]"] by (simp add: s0_def)
  have "on_roster s0 (pn_b o' # ts)" "on_roster s0 (pn_a o' # ts)" "on_roster s0 ts"
    by (rule present_drop [OF s0], simp)+
  then have "form_match e o' s = s1 \<Longrightarrow> sv_queue s1 = sv_queue s0 \<Longrightarrow> ?thesis" for s1
    using present_who [of "sv_hub s0" q ts "sv_hub s1" for q] who_form_match [of e o' s] by (simp add: s0_def)
  moreover have "sv_queue (form_match e o' s) = sv_queue s0 \<or> (\<exists>t \<in> {pn_a o', pn_b o'}. form_match e o' s = requeue e t ''peer_left'' s0)"
    by (auto simp: form_match_def s0_def [symmetric] Let_def split: option.split)
  ultimately show ?thesis
    using requeue_present \<open>on_roster s0 (pn_b o' # ts)\<close> \<open>on_roster s0 (pn_a o' # ts)\<close> by auto
qed


subsection \<open>The handlers\<close>

lemma drop_player_present: "on_roster s ts \<Longrightarrow> on_roster (drop_player e p s) ts"
proof -
  assume s: "on_roster s ts"
  obtain q out where r: "remove_player p (sv_queue s) = (q, out)" by force
  have "present (sv_hub s) q (sides out @ ts)"
    using taken.keeps_present [OF s, of p q "sides out"] r by simp
  then show ?thesis
    using settle_declined_present [of "s\<lparr> sv_queue := q \<rparr>"] by (cases out) (simp_all add: drop_player_def r)
qed

lemma queue_gate_Inr:
  assumes "queue_gate e p c msg s = Inr t"
  shows "tk_player t = p" "\<not> is_queued_account (tk_account t) (sv_queue s)"
    "\<exists>pl. cl_account c = Some pl \<and> tk_account t = uuid_text (pl_id pl)"
  using assms by (auto simp: queue_gate_def Let_def new_ticket_def split: option.splits if_splits sum.splits prod.splits)

lemma push_present:
  assumes "present g q ts" "stands g (entry t)" "tk_account t \<notin> set (map snd (places q @ map entry ts))"
  shows "present g (push t q) ts"
  using assms by (auto simp: present_def places_def push_def entry_def image_iff)

lemma automatch_queue_present:
  assumes "on_roster s []"
  shows "on_roster (handle_automatch_queue e p msg s) []"
proof -
  have sent: "on_roster (send p m s) []" for m by (rule present_who [OF assms, folded queue_frame(2) [of p m s]]) simp
  show ?thesis
  proof (cases "s_rulesets e = [] \<or> client (sv_hub s) p = None")
    case True
    then show ?thesis using assms present_who [OF assms, of "sv_hub (deny p ''automatch_off'' s)"]
      by (auto simp: handle_automatch_queue_def)
  next
    case False
    then obtain c where c: "client (sv_hub s) p = Some c" by blast
    show ?thesis
    proof (cases "queue_gate e p c msg s")
      case (Inl r)
      then show ?thesis using False c sent by (simp add: handle_automatch_queue_def)
    next
      case (Inr t)
      note t = queue_gate_Inr [OF Inr]
      have "present (sv_hub s) (push t (sv_queue s)) []"
        using t c assms
        by (intro push_present) (auto simp: stands_def Sign_In.account_def entry_def is_queued_account_iff map_snd_places [symmetric])
      from run_pairing_present [of "send p m (s\<lparr> sv_queue := push t (sv_queue s) \<rparr>)" for m] present_who [OF this]
      show ?thesis using False c Inr by (simp add: handle_automatch_queue_def Let_def)
    qed
  qed
qed

lemma automatch_rtt_present:
  assumes "on_roster s []"
  shows "on_roster (handle_automatch_rtt e p msg s) []"
proof -
  let ?r = "sanitize_rtt (unwrap_or (m_rtt msg) (-1))"
  have "present (sv_hub s) (fst (set_rtt p ?r (sv_queue s))) []"
    using measured.keeps_present [OF assms, of p ?r _ "[]"] by simp
  then show ?thesis by (simp add: handle_automatch_rtt_def Let_def present_who [of "sv_hub s"])
qed

lemma automatch_cancel_present:
  assumes "on_roster s []"
  shows "on_roster (handle_automatch_cancel e p s) []"
  unfolding handle_automatch_cancel_def queue_frame
  by (rule present_who [OF drop_player_present [OF assms]]) simp

lemma automatch_accept_present:
  assumes "on_roster s []"
  shows "on_roster (handle_automatch_accept e p msg s) []"
proof -
  let ?yes = "unwrap_or (m_accept msg) False"
  define s1 where "s1 = send p (JObj [(''op'', JStr ''automatch_accept_ok''), (''ok'', JBool True), (''accept'', JBool ?yes)]) s"
  have s1: "on_roster s1 []" unfolding s1_def queue_frame by (rule present_who [OF assms]) simp
  obtain q out where a: "answer_for p ?yes (m_match msg) (sv_queue s) = (q, out)" by force
  have "present (sv_hub s1) q (sides out)"
    using replied.keeps_present [OF s1, of p ?yes "m_match msg" q "sides out"] a by (simp add: s1_def)
  then show ?thesis
    using form_match_present [of "s1\<lparr> sv_queue := q \<rparr>"] settle_declined_present [of "s1\<lparr> sv_queue := q \<rparr>"]
    by (cases out) (simp_all add: handle_automatch_accept_def s1_def [symmetric] Let_def a)
qed

lemma tick_present:
  assumes "on_roster s []"
  shows "on_roster (automatch_tick e s) []"
proof -
  obtain q dead where t: "take_expired (now e) (automatch_accept_secs (cfg e)) (sv_queue s) = (q, dead)" by force
  let ?s1 = "foldl (\<lambda>s o'. settle_expired e o' s) (s\<lparr> sv_queue := q \<rparr>) dead"
  have "present (sv_hub s) q (offered_tickets dead @ [])"
    using lapsed.keeps_present [OF assms, of "now e" "automatch_accept_secs (cfg e)" q "offered_tickets dead"] t by simp
  then have "on_roster ?s1 []" by (intro settle_all_present) simp
  note paired = run_pairing_present [OF this, of e]
  let ?step = "\<lambda>s (p, w, rtt, pools). send p (status_json w rtt pools) s"
  have "sv_queue (foldl ?step u rows) = sv_queue u" "who (sv_hub (foldl ?step u rows)) = who (sv_hub u)" for u rows
    by (simp_all add: foldl_queue who_foldl_server split: prod.split)
  then show ?thesis
    using present_who [OF paired] by (simp add: automatch_tick_def t Let_def)
qed


subsection \<open>A connection that ends\<close>

lemma side_Some_iff: "side o' p \<noteq> None \<longleftrightarrow> p \<in> fst ` set (offer_entries o')"
  by (auto simp: side_def offer_entries_def entry_def)

lemma remove_player_gone:
  assumes d: "distinct (map fst (places q))" and r: "remove_player p q = (q', out)"
  shows "p \<notin> fst ` set (places q')"
    "out = Some o' \<Longrightarrow> tk_player (if tk_player (pn_a o') = p then pn_b o' else pn_a o') \<noteq> p"
proof -
  have none: "p \<notin> fst ` set (map entry (filter (\<lambda>t. tk_player t \<noteq> p) (tickets q)))" by (auto simp: entry_def)
  have offers: "distinct (map fst (concat (map offer_entries (pending q))))" using d by (simp add: places_eq)
  have "p \<notin> fst ` set (places q') \<and>
      (\<forall>o'. out = Some o' \<longrightarrow> tk_player (if tk_player (pn_a o') = p then pn_b o' else pn_a o') \<noteq> p)"
  proof (cases "position (\<lambda>o'. side o' p \<noteq> None) (pending q)")
    case None
    then have "p \<notin> fst ` set (concat (map offer_entries (pending q)))"
      unfolding position_None side_Some_iff by auto
    then show ?thesis using none None r by (auto simp: remove_player_def places_eq image_iff)
  next
    case (Some i)
    let ?o = "pending q ! i"
    have m: "mset (concat (map offer_entries (pending q))) =
        mset (offer_entries ?o @ concat (map offer_entries (remove_at i (pending q))))" using take_offer [OF Some] by simp
    have "mset (map fst (concat (map offer_entries (pending q)))) =
        mset (map fst (offer_entries ?o @ concat (map offer_entries (remove_at i (pending q)))))"
      unfolding mset_map m ..
    then have dd: "distinct (map fst (offer_entries ?o @ concat (map offer_entries (remove_at i (pending q)))))"
      using offers mset_eq_imp_distinct_iff by blast
    have "p \<in> fst ` set (offer_entries ?o)"
      using position_Some [OF Some] side_Some_iff [of ?o p] by blast
    then have "p \<notin> fst ` set (concat (map offer_entries (remove_at i (pending q))))"
      using dd unfolding map_append distinct_append set_map by blast
    moreover have "tk_player (pn_a ?o) \<noteq> tk_player (pn_b ?o)"
      using dd by (simp add: offer_entries_def entry_def)
    moreover have "places q' = map entry (filter (\<lambda>t. tk_player t \<noteq> p) (tickets q)) @
        concat (map offer_entries (remove_at i (pending q)))" "out = Some ?o"
      using Some r by (auto simp: remove_player_def places_eq)
    ultimately show ?thesis using none by (auto simp: image_Un simp del: set_map set_concat)
  qed
  then show "p \<notin> fst ` set (places q')"
    "out = Some o' \<Longrightarrow> tk_player (if tk_player (pn_a o') = p then pn_b o' else pn_a o') \<noteq> p" by blast+
qed

lemma drop_player_gone:
  assumes "on_roster s []"
  shows "p \<notin> fst ` set (places (sv_queue (drop_player e p s)))"
proof -
  obtain q out where r: "remove_player p (sv_queue s) = (q, out)" by force
  have d: "distinct (map fst (places (sv_queue s)))"
    using assms by (intro distinct_players) (auto simp: present_def)
  note g = remove_player_gone [OF d r]
  show ?thesis
  proof (cases out)
    case None
    then show ?thesis using g(1) by (simp add: drop_player_def r)
  next
    case (Some o')
    then show ?thesis using g(1) g(2) [OF Some]
      by (auto simp: drop_player_def r settle_declined_def requeue_def Let_def entry_def split: if_splits)
  qed
qed

lemma disconnect_present:
  assumes "on_roster s []"
  shows "on_roster (disconnect e p s) []"
proof -
  have q: "sv_queue (disconnect e p s) = sv_queue (drop_player e p s)" by (simp add: disconnect_def)
  have "stands (sv_hub (disconnect e p s)) x" if "x \<in> set (places (sv_queue (drop_player e p s)))" for x
  proof -
    have "stands (sv_hub (drop_player e p s)) x" using drop_player_present [OF assms] that by (simp add: present_def)
    moreover have "fst x \<noteq> p" using drop_player_gone [OF assms] that by auto
    ultimately show ?thesis using who_account [OF who_drop_player [of e p s]] by (simp add: stands_def disconnect_account)
  qed
  then show ?thesis using drop_player_present [OF assms, of e p] by (simp add: present_def q)
qed

lemma connect_present:
  assumes "on_roster s []" "client (sv_hub s) p = None"
  shows "on_roster (connect p ip country s) []"
proof -
  have "stands (sv_hub (connect p ip country s)) x" if "stands (sv_hub s) x" for x
    using that stands_client [OF that] assms(2) by (auto simp: stands_def connect_account)
  then show ?thesis using assms(1) by (simp add: present_def connect_def)
qed


subsection \<open>Messages\<close>

definition queue_ops :: "string list" where
  "queue_ops = [''automatch_queue'', ''automatch_rtt'', ''automatch_cancel'', ''automatch_accept'']"

lemma reports_queue [simp]:
  "sv_queue (handle_chat_report e p msg s) = sv_queue s" "sv_queue (handle_desync_report e p msg s) = sv_queue s"
  "sv_queue (handle_automatch_rulesets e p msg s) = sv_queue s"
  by (simp_all add: handle_chat_report_def handle_desync_report_def handle_automatch_rulesets_def Let_def
      split: sum.split prod.split Submitted.split option.split)

lemma handlers_queue:
  assumes "(op, f) \<in> set (handlers e p ip msg)" "op \<notin> set queue_ops" "f s = Inr s'"
  shows "sv_queue s' = sv_queue s"
  using assms(1) assms(2,3)
  unfolding handlers_def Let_def set_simps queue_ops_def
  by (elim insertE; (elim Pair_inject)?; (simp only: hub_result_Inr)?) auto

lemma queue_handlers_present:
  assumes "(op, f) \<in> set (handlers e p ip msg)" "op \<in> set queue_ops" "f s = Inr s'" "on_roster s []"
  shows "on_roster s' []"
proof -
  have "s' \<in> {handle_automatch_queue e p msg s, handle_automatch_rtt e p msg s, handle_automatch_cancel e p s,
      handle_automatch_accept e p msg s}"
    using assms(1-3) by (auto simp: handlers_def queue_ops_def Let_def)
  with automatch_queue_present [OF assms(4)] automatch_rtt_present [OF assms(4)] automatch_cancel_present [OF assms(4)]
    automatch_accept_present [OF assms(4)]
  show ?thesis by blast
qed

text \<open>A \<^verbatim>\<open>hello\<close> keeps the places standing when it names the account its connection queued with.\<close>

definition same_account :: "Player option \<Rightarrow> string \<Rightarrow> QueueInner \<Rightarrow> bool" where
  "same_account r p q \<longleftrightarrow>
     (case r of None \<Rightarrow> True | Some a \<Rightarrow> list_all (\<lambda>x. fst x = p \<longrightarrow> snd x = uuid_text (pl_id a)) (places q))"

lemma hello_present:
  assumes "present g q []" "same_account (presented h msg) p q"
  shows "present (handle_hello h p msg g) q []"
proof -
  have "stands (handle_hello h p msg g) x" if "x \<in> set (places q)" for x
  proof -
    have "stands g x" using assms(1) that by (simp add: present_def)
    then show ?thesis using assms(2) that
      by (auto simp: stands_def account_hello same_account_def list_all_iff split: option.splits)
  qed
  then show ?thesis using assms(1) by (simp add: present_def)
qed

lemma receive_present:
  assumes s: "on_roster s []" and h: "m_op raw = ''hello'' \<Longrightarrow> same_account (presented (s_hub e) raw) p (sv_queue s)"
  shows "on_roster (receive e p ip raw s) []"
proof (cases "handle_text e p ip raw s")
  case (Inl c)
  then show ?thesis using present_who [OF s] by (simp add: receive_def)
next
  case (Inr s')
  from Inr have "on_roster s' []"
  proof (cases rule: receive_parts)
    case (2 code)
    then show ?thesis using present_who [OF s] by simp
  next
    case (3 op)
    then show ?thesis using present_who [OF s] by simp
  next
    case (4 msg f)
    have m: "m_op msg = m_op raw" "presented (s_hub e) msg = presented (s_hub e) raw"
      using 4(1) by (auto simp: sanitize_in_place_def Let_def presented_def)
    show ?thesis
    proof (cases "m_op msg \<in> set queue_ops")
      case True
      then show ?thesis using queue_handlers_present [OF 4(2) True 4(3) s] by simp
    next
      case False
      note q = handlers_queue [OF 4(2) False 4(3)]
      show ?thesis
      proof (cases "m_op msg = ''hello''")
        case True
        then have "s' = on_hub (handle_hello (s_hub e) p msg) s" using 4(2,3) by (auto simp: handlers_def Let_def)
        then show ?thesis using hello_present [OF s, of "s_hub e" msg p] h True m by simp
      next
        case False
        from present_who [OF s who_handlers [OF 4(2) False 4(3)]] show ?thesis by (simp add: q)
      qed
    qed
  qed (use s in simp)
  then show ?thesis using Inr by (simp add: receive_def)
qed

subsection \<open>Start tasks\<close>

lemma launch_task_present:
  assumes "on_roster s (pn_a o' # pn_b o' # ts)"
  shows "on_roster (launch_task e lid o' late s) ts"
proof -
  have s: "on_roster s ts" using present_drop [OF assms] by simp
  define failed where "failed = on_hub (destroy_lobby (s_hub e) lid) s"
  have "on_roster failed ([pn_a o', pn_b o'] @ ts)"
    unfolding failed_def queue_frame by (rule present_who) (use assms in simp_all)
  note requeued = requeue_all_present [OF this, of e "''host_unreachable''"]
  show ?thesis
  proof (cases "try_launch e lid (pn_match_id o') late s")
    case (Launched s')
    then have "sv_queue s' = sv_queue s" "launch_task e lid o' late s = s'"
      by (auto simp: try_launch_def launch_task_def Let_def split: sum.splits if_splits)
    then show ?thesis using present_who [OF s who_launch_task, of e lid o' late] by simp
  next
    case (Failed_start c)
    then have l: "launch_task e lid o' late s = launch_failed e lid [pn_a o', pn_b o'] c s" by (simp add: launch_task_def)
    show ?thesis
    proof (cases "c = ''relay_unavailable''")
      case True
      then show ?thesis using requeued by (simp add: l launch_failed_def failed_def)
    next
      case False
      then have "sv_queue (launch_task e lid o' late s) = sv_queue s" by (simp add: l launch_failed_def)
      then show ?thesis using present_who [OF s who_launch_task, of e lid o' late] by simp
    qed
  qed (use s in \<open>simp add: launch_task_def\<close>)
qed

lemma agreed_accounts_differ:
  assumes "on_roster s []" "answer_for p yes m (sv_queue s) = (q, Some o')"
  shows "tk_account (pn_a o') \<noteq> tk_account (pn_b o')"
  using replied.keeps_present [OF assms(1), of p yes m q "sides (Some o')"] assms(2)
  by (simp add: present_def entry_def)


subsection \<open>Orderly runs\<close>

text \<open>What the code leaves to its clients: while a connection waits or is on offer it does not sign
  in as another account, and the players of a match that is being started neither queue again nor
  sign in as somebody else before the start task ends.  \<open>agreed\<close> lists the offers settled so far,
  the ones a start task may run for.\<close>

definition steady :: "ServerEnv \<Rightarrow> event \<Rightarrow> Server \<Rightarrow> Pending list \<Rightarrow> bool" where
  "steady e ev s agreed =
     (case ev of
        Receive p ip msg \<Rightarrow> m_op msg = ''hello'' \<longrightarrow> same_account (presented (s_hub e) msg) p (sv_queue s)
      | LaunchTask lid o' late \<Rightarrow> o' \<in> set agreed \<and>
          list_all (\<lambda>t. \<not> is_queued_account (tk_account t) (sv_queue s) \<and> (here s (tk_player t) \<longrightarrow> stands (sv_hub s) (entry t)))
            [pn_a o', pn_b o']
      | _ \<Rightarrow> True)"

inductive orderly :: "Server \<Rightarrow> Pending list \<Rightarrow> bool" where
  orderly_start: "orderly (empty_server req) []"
| orderly_step: "orderly s agreed \<Longrightarrow> allowed e ev s \<Longrightarrow> steady e ev s agreed \<Longrightarrow>
    orderly (exec e ev s) (agreed @ agreed_by e ev s)"

lemma orderly_reachable: "orderly s agreed \<Longrightarrow> reachable s"
  by (induction rule: orderly.induct) (auto intro: reachable.intros)

definition apart :: "Pending \<Rightarrow> bool" where
  "apart o' \<longleftrightarrow> tk_account (pn_a o') \<noteq> tk_account (pn_b o')"

lemma exec_present:
  assumes s: "on_roster s []" and ag: "list_all apart agreed" and al: "allowed e ev s" and st: "steady e ev s agreed"
  shows "on_roster (exec e ev s) []"
proof (cases ev)
  case (Connect p ip country)
  then show ?thesis using connect_present [OF s] al by (simp add: allowed_def)
next
  case (Receive p ip msg)
  then show ?thesis using receive_present [OF s] st by (simp add: steady_def)
next
  case (Disconnect p)
  then show ?thesis using disconnect_present [OF s] by simp
next
  case (PushList p)
  have "who (sv_hub (push_list e p s)) = who (sv_hub s)" "sv_queue (push_list e p s) = sv_queue s"
    by (simp_all add: push_list_def split: option.split)
  then show ?thesis using present_who [OF s] by (simp add: PushList)
next
  case Tick
  then show ?thesis using tick_present [OF s] by simp
next
  case (LaunchTask lid o' late)
  have "apart o'" using st ag by (auto simp: LaunchTask steady_def list_all_iff)
  then have "on_roster s [pn_a o', pn_b o']"
    using s st by (auto simp: LaunchTask steady_def present_def apart_def is_queued_account_iff map_snd_places [symmetric]
        here_def entry_def)
  then show ?thesis using launch_task_present [of s o' "[]"] by (simp add: LaunchTask)
qed

lemma orderly_present: "orderly s agreed \<Longrightarrow> on_roster s [] \<and> list_all apart agreed"
proof (induction rule: orderly.induct)
  case (orderly_start req)
  show ?case by (simp add: empty_server_def present_def places_def offered_tickets_def)
next
  case (orderly_step s agreed e ev)
  have "list_all apart (agreed_by e ev s)"
  proof (cases ev)
    case (Receive p ip msg)
    show ?thesis
    proof (cases "accepted_offer p msg s")
      case (Some o')
      obtain q out where a: "answer_for p (unwrap_or (m_accept msg) False) (m_match msg) (sv_queue s) = (q, out)" by force
      then have "out = Some o'" using Some by (simp add: accepted_offer_def)
      with agreed_accounts_differ [of s] a orderly_step.IH show ?thesis by (simp add: agreed_by_def Receive Some apart_def)
    qed (simp add: agreed_by_def Receive)
  qed (simp_all add: agreed_by_def)
  then show ?case using exec_present orderly_step by auto
qed

text \<open>So the sides of an offer that is settled are two connections that are there, which is the part
  of \<open>match_expected\<close> that orderly runs supply: no match is formed with a player who is gone.\<close>

lemma agreed_players_are_there:
  assumes "orderly s agreed" "accepted_offer p msg s = Some o'"
  shows "here s (tk_player (pn_a o'))" "here s (tk_player (pn_b o'))" "tk_player (pn_a o') \<noteq> tk_player (pn_b o')"
proof -
  let ?yes = "unwrap_or (m_accept msg) False"
  obtain q where a: "answer_for p ?yes (m_match msg) (sv_queue s) = (q, Some o')"
    using assms(2) by (cases "answer_for p ?yes (m_match msg) (sv_queue s)") (simp add: accepted_offer_def)
  have s: "on_roster s []" using orderly_present [OF assms(1)] by blast
  have "{entry (pn_a o'), entry (pn_b o')} \<subseteq> set (places (sv_queue s))"
    using replied.takes_from [of p ?yes "m_match msg" "sv_queue s"] a by simp
  then have st: "stands (sv_hub s) (entry (pn_a o'))" "stands (sv_hub s) (entry (pn_b o'))"
    using s by (auto simp: present_def)
  then show "here s (tk_player (pn_a o'))" "here s (tk_player (pn_b o'))"
    by (auto simp: here_def entry_def dest: stands_client)
  show "tk_player (pn_a o') \<noteq> tk_player (pn_b o')"
    using st stands_same [of "sv_hub s" "tk_player (pn_a o')" "tk_account (pn_a o')" "tk_account (pn_b o')"]
      agreed_accounts_differ [OF s a] by (auto simp: entry_def)
qed



subsection \<open>A player who waits\<close>

definition demo_queue_env :: ServerEnv where
  "demo_queue_env = member_env\<lparr> s_rulesets := strict_rulesets \<rparr>"

definition demo_queue_msg :: InMsg where
  "demo_queue_msg = (blank_msg ''automatch_queue'')\<lparr> m_titles := Some [plain_title] \<rparr>"

definition demo_member :: Server where
  "demo_member = exec member_env (Receive ''a'' ''1.1.1.1'' member_hello) demo_lobby_door"

definition demo_waiting :: Server where
  "demo_waiting = exec demo_queue_env (Receive ''a'' ''1.1.1.1'' demo_queue_msg) demo_member"

lemma of_chars_letters: "of_chars (replicate n 97) = replicate n (CHR ''a'')"
  by (induction n) (simp_all add: of_chars_def utf8_bytes_def char_of_def bit_0)

lemma demo_keys: "\<exists>k. build_keys strict_rulesets [plain_title] = Inr [k]"
proof -
  have t: "trim ''Tetris'' = ''Tetris''" "trim [] = []" "trim ''1'' = ''1''"
    by (simp_all add: trim_def trim_chars_def chars_def is_whitespace_def of_chars_def utf8_bytes_def char_of_def bit_0)
  have "trim (of_chars (replicate 64 97)) = of_chars (replicate 64 97)"
    by (simp add: trim_of_chars scalar_def trim_chars_def is_whitespace_def)
  then have d: "normalize_disc_fp (Some (replicate 64 (CHR ''a''))) \<noteq> []"
    by (simp add: normalize_disc_fp_def of_chars_letters rust_simps is_ascii_hexdigit_def Let_def list_all_iff)
  show ?thesis
    by (simp add: build_keys_def title_key_def plain_title_def strict_rulesets_def resolve_def for_game_def t Let_def d)
qed

lemma demo_lobby_door_state:
  "sv_queue demo_lobby_door = \<lparr> tickets = [], pending = [], recent = [] \<rparr>" "home (sv_hub demo_lobby_door) = (\<lambda>_. None)"
  "sv_history demo_lobby_door = \<lparr> strikes = [], pairings = [], desyncs = [] \<rparr>"
  by (simp_all add: demo_lobby_door_def connect_def on_hub_def empty_server_def empty_hub_def fun_eq_iff home_def client_def new_client_def)

lemma demo_member_eq: "demo_member = on_hub (handle_hello (s_hub member_env) ''a'' member_hello) demo_lobby_door"
  by (simp add: demo_member_def receive_def member_hello_text)

lemma demo_member_state:
  "sv_queue demo_member = \<lparr> tickets = [], pending = [], recent = [] \<rparr>"
  "sv_history demo_member = \<lparr> strikes = [], pairings = [], desyncs = [] \<rparr>"
  using demo_lobby_door_state by (simp_all add: demo_member_eq on_hub_def)

lemma demo_gate:
  assumes "client (sv_hub demo_member) ''a'' = Some c"
  shows "\<exists>t. queue_gate demo_queue_env ''a'' c demo_queue_msg demo_member = Inr t"
proof -
  have "Option.bind (client (sv_hub demo_member) ''a'') cl_account = presented (s_hub member_env) member_hello"
    using member_signs_in(2) unfolding Sign_In.account_def demo_member_def .
  then have c: "cl_account c = presented (s_hub member_env) member_hello" using assms by simp
  have "home (sv_hub demo_member) ''a'' = None" by (simp add: demo_member_eq home_hello demo_lobby_door_state)
  then have l: "cl_lobby c = None" using assms by (simp add: home_def)
  have room: "automatch_queue_max demo_cfg > 0"
    by (simp add: demo_cfg_def read_env_def demo_env_def parse_u64_env_def Let_def)
  obtain k where k: "build_keys strict_rulesets [plain_title] = Inr [k]" using demo_keys by blast
  have m: "asked_titles c demo_queue_msg = [plain_title]" "m_mod_exempt demo_queue_msg = None" "m_mods_enabled demo_queue_msg = None"
    "m_host_endpoint demo_queue_msg = None"
    by (simp_all add: demo_queue_msg_def blank_msg_def asked_titles_def)
  have env: "s_rulesets demo_queue_env = strict_rulesets" "cfg demo_queue_env = demo_cfg"
    by (simp_all add: demo_queue_env_def member_env_def demo_server_env_def demo_hub_env_def cfg_def)
  have no_cooldown: "cooldown demo_queue_env acct demo_member = 0" for acct
    by (simp add: cooldown_def cooldown_secs_def recent_strikes_def demo_member_state)
  show ?thesis
    unfolding queue_gate_def c member_session option.case Let_def
    by (simp add: m l k env no_cooldown room demo_member_state is_queued_account_def waiting_def ticket_endpoint_def nonempty_def)
qed


lemma demo_member_there: "client (sv_hub demo_member) ''a'' \<noteq> None" "signed_in ''a'' (sv_hub demo_member)"
proof -
  have "Sign_In.account (sv_hub demo_member) ''a'' \<noteq> None"
    using member_signs_in(2) member_session unfolding demo_member_def by simp
  then show "client (sv_hub demo_member) ''a'' \<noteq> None" "signed_in ''a'' (sv_hub demo_member)"
    by (auto simp: Sign_In.account_def signed_in_account bind_eq_Some_conv)
qed

lemma demo_waits: "\<exists>t. mset (tickets (sv_queue demo_waiting) @ offered_tickets (pending (sv_queue demo_waiting))) = {# t #}"
proof -
  obtain c where c: "client (sv_hub demo_member) ''a'' = Some c" using demo_member_there by blast
  obtain t where t: "queue_gate demo_queue_env ''a'' c demo_queue_msg demo_member = Inr t" using demo_gate [OF c] by blast
  define s where "s = send ''a'' (queued_json (tk_keys t) (tk_account t) (tk_relay_endpoint t) (tk_ice_relay t)
      (push t (sv_queue demo_member))) (demo_member\<lparr> sv_queue := push t (sv_queue demo_member) \<rparr>)"
  have "s_rulesets demo_queue_env \<noteq> []" by (simp add: demo_queue_env_def strict_rulesets_def)
  then have "handle_automatch_queue demo_queue_env ''a'' demo_queue_msg demo_member = run_pairing demo_queue_env s"
    by (simp add: handle_automatch_queue_def c t s_def Let_def)
  moreover have "handle_text demo_queue_env ''a'' ''1.1.1.1'' demo_queue_msg demo_member =
      Inr (handle_automatch_queue demo_queue_env ''a'' demo_queue_msg demo_member)"
    using demo_member_there(2)
    by (simp add: handle_text_def demo_queue_msg_def sanitize_in_place_def blank_msg_def sanitize_def login_gate_def handlers_def
        Let_def)
  ultimately have w: "demo_waiting = run_pairing demo_queue_env s" by (simp add: demo_waiting_def receive_def)
  obtain q offers where p: "pair (now demo_queue_env) (automatch_rematch_cooldown_secs (cfg demo_queue_env)) (s_mint demo_queue_env)
      (sv_queue s) = (q, offers)" by force
  have "sv_queue demo_waiting = q" by (simp add: w run_pairing_def p foldl_queue)
  moreover have "tickets (sv_queue s) = [t]" "pending (sv_queue s) = []" by (simp_all add: s_def push_def demo_member_state)
  ultimately show ?thesis using pair_effect [OF p] by (intro exI [of _ t]) simp
qed

lemma demo_orderly: "\<exists>agreed. orderly demo_waiting agreed"
proof -
  have "client (sv_hub (empty_server True)) ''a'' = None" by (simp add: empty_server_def empty_hub_def client_def)
  then have "allowed demo_server_env (Connect ''a'' ''1.1.1.1'' []) (empty_server True)"
    "steady demo_server_env (Connect ''a'' ''1.1.1.1'' []) (empty_server True) []"
    by (simp_all add: allowed_def steady_def)
  from orderly_step [OF orderly_start this] obtain a1 where o1: "orderly demo_lobby_door a1"
    unfolding demo_lobby_door_def by blast
  have "client (sv_hub demo_lobby_door) ''a'' \<noteq> None"
    by (simp add: demo_lobby_door_def connect_def on_hub_def client_def update_conv)
  moreover have "places (sv_queue demo_lobby_door) = []" by (simp add: demo_lobby_door_state places_def offered_tickets_def)
  ultimately have "allowed member_env (Receive ''a'' ''1.1.1.1'' member_hello) demo_lobby_door"
    "steady member_env (Receive ''a'' ''1.1.1.1'' member_hello) demo_lobby_door a1"
    by (simp_all add: allowed_def steady_def same_account_def member_hello_def blank_msg_def split: option.split)
  from orderly_step [OF o1 this] obtain a2 where o2: "orderly demo_member a2" unfolding demo_member_def by blast
  have "allowed demo_queue_env (Receive ''a'' ''1.1.1.1'' demo_queue_msg) demo_member"
    "steady demo_queue_env (Receive ''a'' ''1.1.1.1'' demo_queue_msg) demo_member a2"
    using demo_member_there(1) by (simp_all add: allowed_def steady_def demo_queue_msg_def blank_msg_def)
  from orderly_step [OF o2 this] show ?thesis unfolding demo_waiting_def by blast
qed


subsection \<open>A ticket that outlives its socket\<close>

text \<open>Pairing compares accounts, not connections, so both sides of an offer may be one connection
  that queued under two accounts.\<close>

lemma pairing_ignores_connections: "hard_ok n (a\<lparr> tk_player := x \<rparr>) (b\<lparr> tk_player := y \<rparr>) = hard_ok n a b"
  by (simp add: hard_ok_def relay_possible_def measurable_def waited_def rtt_ok_def)

text \<open>
  Then the ticket stays behind.  When a connection that holds both sides of an offer ends, the
  offer is settled as a dodge while the connection is still listed, which puts the other side back
  into the queue: the connection is gone and its ticket waits.
\<close>
theorem a_ticket_can_outlive_its_socket:
  assumes "client (sv_hub s) p \<noteq> None" "pending (sv_queue s) = [o']" "tk_player (pn_a o') = p" "tk_player (pn_b o') = p"
  shows "client (sv_hub (disconnect e p s)) p = None \<and>
    tickets (sv_queue (disconnect e p s)) =
      (pn_b o')\<lparr> tk_queued_at := now e \<rparr> # filter (\<lambda>t. tk_player t \<noteq> p) (tickets (sv_queue s))"
proof
  show "client (sv_hub (disconnect e p s)) p = None"
    by (simp add: disconnect_def on_hub_def remove_client_def client_def delete_conv)
  have "client (sv_hub (strike e (pn_a o') k x (s\<lparr> sv_queue := q \<rparr>))) p \<noteq> None" for k x q
    using assms(1) by (simp add: strike_def)
  then have "here (send y m (strike e (pn_a o') k x (s\<lparr> sv_queue := q \<rparr>))) p" for k x q y m
    by (simp add: here_def send_def on_hub_def client_def send_to_def)
  then show "tickets (sv_queue (disconnect e p s)) =
      (pn_b o')\<lparr> tk_queued_at := now e \<rparr> # filter (\<lambda>t. tk_player t \<noteq> p) (tickets (sv_queue s))"
    using assms(2-4)
    by (simp add: disconnect_def drop_player_def remove_player_def side_def remove_at_def settle_declined_def
        requeue_def requeue_front_def Let_def) blast
qed


subsection \<open>The check goes stale\<close>

text \<open>\<open>requeue\<close> is one step of the model, but the code looks at the list of clients under one lock
  and puts the ticket back under another.  \<open>put_back\<close> is the second half.\<close>

definition put_back :: "ServerEnv \<Rightarrow> Ticket \<Rightarrow> string \<Rightarrow> Server \<Rightarrow> Server" where
  "put_back e t reason s =
     send (tk_player t) (requeue_json reason True) (s\<lparr> sv_queue := requeue_front (now e) t (sv_queue s) \<rparr>)"

lemma requeue_halves: "requeue e t r s = (if here s (tk_player t) then put_back e t r s else s)"
  by (simp add: requeue_def put_back_def)

text \<open>
  A connection that ends between the two halves, the check having passed, leaves its ticket behind:
  it was in no list when the connection was cleaned up, and nobody looks again.  As long as it waits,
  for matches nobody will answer, nobody on that account can queue, whatever they ask for.
\<close>
theorem the_check_goes_stale:
  assumes "here s (tk_player t)" "s' = put_back e' t r (disconnect e (tk_player t) s)"
  shows "requeue e' t r s = put_back e' t r s \<and> client (sv_hub s') (tk_player t) = None \<and>
    t\<lparr> tk_queued_at := now e' \<rparr> \<in> set (tickets (sv_queue s')) \<and>
    (\<forall>q c msg. account_text c = Some (tk_account t) \<longrightarrow> cl_lobby c = None \<longrightarrow>
       queue_gate e'' q c msg s' = Inl (Code ''already_queued''))"
proof (intro conjI allI impI)
  show "requeue e' t r s = put_back e' t r s" using assms(1) by (simp add: requeue_halves)
  have "client (sv_hub (disconnect e (tk_player t) s)) (tk_player t) = None"
    by (simp add: disconnect_def on_hub_def remove_client_def client_def delete_conv)
  then show "client (sv_hub s') (tk_player t) = None"
    by (simp add: assms(2) put_back_def send_def on_hub_def client_def send_to_def)
  show "t\<lparr> tk_queued_at := now e' \<rparr> \<in> set (tickets (sv_queue s'))"
    by (simp add: assms(2) put_back_def requeue_front_def)
  fix q c msg
  assume c: "account_text c = Some (tk_account t)" "cl_lobby c = None"
  then obtain pl where "cl_account c = Some pl" "uuid_text (pl_id pl) = tk_account t" by (auto simp: account_text_def)
  moreover have "is_queued_account (tk_account t) (sv_queue s')"
    by (simp add: assms(2) put_back_def requeue_front_def is_queued_account_def)
  ultimately show "queue_gate e'' q c msg s' = Inl (Code ''already_queued'')" using c(2) by (simp add: queue_gate_def)
qed

end
