(* ===== verification/Tasks.thy ===== *)
theory Tasks
  imports Sign_In
begin

text \<open>
  The two loops the server runs beside its handlers: the task that starts a formed match, which
  retries until a path is proven or its window closes, and the task of one connection, which reads
  frames until the peer leaves or the time to sign in is over.  What the rest of the server does
  between two rounds is a parameter: the state found by each round, and the time it took.
\<close>

subsection \<open>Starting a formed match\<close>

definition SECOND :: ns where "SECOND = 1000000000"
definition AUTOMATCH_PROOF_WAIT :: ns where "AUTOMATCH_PROOF_WAIT = 20 * SECOND"
definition AUTOMATCH_PROOF_WAIT_ICE :: ns where "AUTOMATCH_PROOF_WAIT_ICE = 30 * SECOND"

text \<open>What the task meets in each of its rounds: the environment and the server as the other tasks
  have left them, and the time the round takes beyond its sleep.\<close>

record Rounds =
  rd_env :: "nat \<Rightarrow> ServerEnv"
  rd_server :: "nat \<Rightarrow> Server"
  rd_lag :: "nat \<Rightarrow> nat"

definition attempt :: "Rounds \<Rightarrow> string \<Rightarrow> bool \<Rightarrow> nat \<Rightarrow> string + Hub" where
  "attempt R lid allow_ice k = start_lobby (s_hub (rd_env R k)) lid None None allow_ice (sv_hub (rd_server R k))"

text \<open>The loop of the task: \<open>k\<close> counts the calls of \<^verbatim>\<open>start_lobby\<close> and \<open>t\<close> is the clock when the
  answer of the \<open>k\<close>-th has come; the result names the last call and its answer.\<close>

function launch_loop :: "Rounds \<Rightarrow> string \<Rightarrow> ns \<Rightarrow> nat \<Rightarrow> ns \<Rightarrow> nat \<times> (string + Hub)" where
  "launch_loop R lid deadline k t =
     (case attempt R lid False k of
        Inl code \<Rightarrow>
          if code = ''relay_unavailable''
          then if t < deadline then launch_loop R lid deadline (k + 1) (t + SECOND + int (rd_lag R (k + 1)))
               else (k + 1, attempt R lid True (k + 1))
          else (k, Inl code)
      | Inr g \<Rightarrow> (k, Inr g))"
  by pat_completeness auto

termination
  by (relation "measure (\<lambda>(R, lid, deadline, k, t). nat (deadline - t))") (auto simp: SECOND_def)

declare launch_loop.simps [simp del]

definition proof_wait :: "Pending \<Rightarrow> ns" where
  "proof_wait p = (if is_ice p then AUTOMATCH_PROOF_WAIT_ICE else AUTOMATCH_PROOF_WAIT)"

text \<open>The spawned task: the settle delay, the loop, and what its result leads to.\<close>

definition match_task :: "Rounds \<Rightarrow> string \<Rightarrow> Pending \<Rightarrow> ns \<Rightarrow> Server" where
  "match_task R lid p formed =
     (let begun = formed + int (automatch_start_delay_secs (cfg (rd_env R 0))) * SECOND
      in case launch_loop R lid (begun + proof_wait p) 0 (begun + int (rd_lag R 0)) of
           (n, Inr g) \<Rightarrow> (rd_server R n)\<lparr> sv_hub := g,
             sv_history := mark_launched (unix (rd_env R n)) (pn_match_id p) (sv_history (rd_server R n)) \<rparr>
         | (n, Inl code) \<Rightarrow> launch_failed (rd_env R n) lid [pn_a p, pn_b p] code (rd_server R n))"

lemma launch_loop_cases:
  obtains (launched) g where "attempt R lid False k = Inr g" "launch_loop R lid deadline k t = (k, Inr g)"
  | (refused) c where "attempt R lid False k = Inl c" "c \<noteq> ''relay_unavailable''" "launch_loop R lid deadline k t = (k, Inl c)"
  | (late) "attempt R lid False k = Inl ''relay_unavailable''" "deadline \<le> t"
      "launch_loop R lid deadline k t = (k + 1, attempt R lid True (k + 1))"
  | (again) "attempt R lid False k = Inl ''relay_unavailable''" "t < deadline"
      "launch_loop R lid deadline k t = launch_loop R lid deadline (k + 1) (t + SECOND + int (rd_lag R (k + 1)))"
  by (cases "attempt R lid False k") (auto simp: launch_loop.simps [of R lid deadline k t] not_less split: if_splits, meson linorder_not_less)

text \<open>How many calls a window of \<open>w\<close> nanoseconds allows after the first one.\<close>

definition rounds_in :: "ns \<Rightarrow> nat" where
  "rounds_in w = nat ((max w 0 + SECOND - 1) div SECOND) + 1"

lemma rounds_in_step: "0 < w \<Longrightarrow> w' \<le> w - SECOND \<Longrightarrow> rounds_in w' + 1 \<le> rounds_in w"
proof -
  assume w: "0 < w" "w' \<le> w - SECOND"
  have "max w' 0 + SECOND - 1 + SECOND \<le> w + SECOND - 1 \<or> max w' 0 = 0" using w(2) by (auto simp: max_def)
  moreover have "(max w' 0 + SECOND - 1) div SECOND + 1 = (max w' 0 + SECOND - 1 + SECOND) div SECOND"
    by (simp add: SECOND_def)
  moreover have "1 \<le> (w + SECOND - 1) div SECOND"
    using zdiv_mono1 [of SECOND "w + SECOND - 1" SECOND] w(1) by (simp add: SECOND_def)
  ultimately have "(max w' 0 + SECOND - 1) div SECOND + 1 \<le> (w + SECOND - 1) div SECOND"
    using zdiv_mono1 [of "max w' 0 + SECOND - 1 + SECOND" "w + SECOND - 1" SECOND] by (auto simp: SECOND_def)
  moreover have "0 \<le> (max w' 0 + SECOND - 1) div SECOND" by (simp add: SECOND_def pos_imp_zdiv_nonneg_iff)
  ultimately show ?thesis using w(1) by (simp add: rounds_in_def max_def)
qed

lemma rounds_in_mono: "w' \<le> w \<Longrightarrow> rounds_in w' \<le> rounds_in w"
  by (auto simp: rounds_in_def SECOND_def intro!: nat_mono zdiv_mono1)

lemma rounds_in_waits: "rounds_in AUTOMATCH_PROOF_WAIT = 21" "rounds_in AUTOMATCH_PROOF_WAIT_ICE = 31"
  by (simp_all add: rounds_in_def AUTOMATCH_PROOF_WAIT_def AUTOMATCH_PROOF_WAIT_ICE_def SECOND_def)

lemma rounds_in_proof_wait: "rounds_in (proof_wait p) = (if is_ice p then 31 else 21)"
  by (cases "is_ice p") (simp_all add: proof_wait_def rounds_in_waits)

lemma launch_loop_bound:
  "launch_loop R lid deadline k t = (n, r) \<Longrightarrow> k \<le> n \<and> n \<le> k + rounds_in (deadline - t)"
proof (induction R lid deadline k t rule: launch_loop.induct)
  case (1 R lid deadline k t)
  show ?case
  proof (rule launch_loop_cases [of R lid k deadline t])
    assume a: "attempt R lid False k = Inl ''relay_unavailable''" "t < deadline"
      "launch_loop R lid deadline k t = launch_loop R lid deadline (k + 1) (t + SECOND + int (rd_lag R (k + 1)))"
    have "rounds_in (deadline - (t + SECOND + int (rd_lag R (k + 1)))) + 1 \<le> rounds_in (deadline - t)"
      by (rule rounds_in_step) (use a(2) in auto)
    moreover have "k + 1 \<le> n \<and> n \<le> k + 1 + rounds_in (deadline - (t + SECOND + int (rd_lag R (k + 1))))"
      using 1(1) [OF a(1) refl a(2)] 1(2) a(3) by simp
    ultimately show ?thesis by simp
  qed (use 1(2) in \<open>auto simp: rounds_in_def\<close>)
qed

text \<open>Every call before the last was refused for want of a proven path; the last one was answered
  otherwise, or is the one that allows ICE.\<close>

lemma launch_loop_ends:
  "launch_loop R lid deadline k t = (n, r) \<Longrightarrow>
    (k \<le> j \<and> j < n \<longrightarrow> attempt R lid False j = Inl ''relay_unavailable'') \<and>
    (r = attempt R lid False n \<and> r \<noteq> Inl ''relay_unavailable'' \<or> r = attempt R lid True n \<and> k < n)"
proof (induction R lid deadline k t rule: launch_loop.induct)
  case (1 R lid deadline k t)
  show ?case
  proof (rule launch_loop_cases [of R lid k deadline t])
    assume a: "attempt R lid False k = Inl ''relay_unavailable''" "t < deadline"
      "launch_loop R lid deadline k t = launch_loop R lid deadline (k + 1) (t + SECOND + int (rd_lag R (k + 1)))"
    have "(k + 1 \<le> j \<and> j < n \<longrightarrow> attempt R lid False j = Inl ''relay_unavailable'') \<and>
        (r = attempt R lid False n \<and> r \<noteq> Inl ''relay_unavailable'' \<or> r = attempt R lid True n \<and> k + 1 < n)"
      using 1(1) [OF a(1) refl a(2)] 1(2) a(3) by simp
    then show ?thesis using a(1) by (cases "j = k") auto
  qed (use 1(2) in \<open>auto simp: less_Suc_eq\<close>)
qed

lemma match_task_eq:
  assumes "launch_loop R lid (begun + proof_wait p) 0 (begun + int (rd_lag R 0)) = (n, r)"
    and "begun = formed + int (automatch_start_delay_secs (cfg (rd_env R 0))) * SECOND"
  shows "match_task R lid p formed =
      (case r of
         Inr g \<Rightarrow> (rd_server R n)\<lparr> sv_hub := g,
           sv_history := mark_launched (unix (rd_env R n)) (pn_match_id p) (sv_history (rd_server R n)) \<rparr>
       | Inl code \<Rightarrow> launch_failed (rd_env R n) lid [pn_a p, pn_b p] code (rd_server R n))"
  using assms(1) unfolding match_task_def Let_def assms(2) [symmetric] by (cases r) simp_all

lemma lobby_destroyed: "lobby (destroy_lobby e lid g) lid = None"
proof -
  have "h_lobbies (broadcast_list e h) = h_lobbies h" for h
  proof -
    have "h_lobbies (foldl (\<lambda>h (p, c). if b c then h else send_to p (m p) h) h xs) = h_lobbies h"
      for b :: "ClientMeta \<Rightarrow> bool" and m and xs :: "(string \<times> ClientMeta) list"
      by (induction xs arbitrary: h) (auto simp: send_to_def)
    then show ?thesis by (simp add: broadcast_list_def)
  qed
  then show ?thesis by (cases "lobby g lid") (simp_all add: destroy_lobby_def Let_def lobby_def unseat_all)
qed

lemma requeue_lobbies: "h_lobbies (sv_hub (requeue e t r s)) = h_lobbies (sv_hub s)"
  by (simp add: requeue_def send_def on_hub_def send_to_def)

lemma launch_failed_closes: "lobby (sv_hub (launch_failed e lid ts code s)) lid = None"
proof -
  have "h_lobbies (sv_hub (foldl (\<lambda>s t. requeue e t r s) s ts)) = h_lobbies (sv_hub s)" for s r
    by (induction ts arbitrary: s) (simp_all add: requeue_lobbies)
  then show ?thesis
    using lobby_destroyed by (simp add: launch_failed_def on_hub_def) (simp add: lobby_def)
qed

text \<open>
  C11: The launch of a match settles.  The task that starts a formed match ends, and makes few
  calls to do so: one for each second of its window (20, or 30 for a pair that plays over ICE), one
  when the window is over and one that allows ICE.  Every call but the last was refused because no
  path was proven yet; the last one was answered otherwise, or was the one that allows ICE.
\<close>

theorem the_launch_loop_settles:
  assumes "begun \<le> t" "launch_loop R lid (begun + proof_wait p) 0 t = (n, r)"
  shows "n \<le> (if is_ice p then 31 else 21) \<and>
    (\<forall>j < n. attempt R lid False j = Inl ''relay_unavailable'') \<and>
    (r = attempt R lid False n \<and> r \<noteq> Inl ''relay_unavailable'' \<or> r = attempt R lid True n \<and> 0 < n)"
proof -
  have "n \<le> rounds_in (begun + proof_wait p - t)" using launch_loop_bound [OF assms(2)] by simp
  also have "\<dots> \<le> rounds_in (proof_wait p)" by (rule rounds_in_mono) (use assms(1) in simp)
  finally have "n \<le> (if is_ice p then 31 else 21)" by (simp only: rounds_in_proof_wait)
  moreover have "\<forall>j < n. attempt R lid False j = Inl ''relay_unavailable''"
    using conjunct1 [OF launch_loop_ends [OF assms(2)]] by simp
  moreover note conjunct2 [OF launch_loop_ends [OF assms(2), of 0]]
  ultimately show ?thesis by (intro conjI)
qed

text \<open>
  C12: A formed match starts or ends.  When its task is done, the room of a formed match runs, with
  at least two players, or is gone; it is never left waiting.
\<close>

theorem a_formed_match_starts_or_ends:
  "(case lobby (sv_hub (match_task R lid p formed)) lid of
      None \<Rightarrow> True
    | Some l \<Rightarrow> lb_started l \<and> 2 \<le> player_count l)"
proof -
  define begun where "begun = formed + int (automatch_start_delay_secs (cfg (rd_env R 0))) * SECOND"
  obtain n r where l: "launch_loop R lid (begun + proof_wait p) 0 (begun + int (rd_lag R 0)) = (n, r)" by force
  note task = match_task_eq [OF l begun_def]
  show ?thesis
  proof (cases r)
    case (Inl code)
    then show ?thesis by (simp add: task launch_failed_closes)
  next
    case (Inr g)
    then obtain ice where a: "attempt R lid ice n = Inr g" using launch_loop_ends [OF l, of 0] by metis
    from start_lobby_Inr [OF this [unfolded attempt_def]] obtain l fresh sid where
      "2 \<le> player_count l" "lobby g lid = Some (start_commit fresh sid l)" by metis
    moreover have "player_count (start_commit fresh sid l) = player_count l" for fresh sid l
      by (simp add: start_commit_def unready_players_def map_players_def player_count_eq length_somes filter_map o_def)
    ultimately show ?thesis by (simp add: task Inr) (simp add: start_commit_def unready_players_def map_players_def)
  qed
qed

definition demo_rounds :: Rounds where
  "demo_rounds = \<lparr> rd_env = (\<lambda>_. demo_server_env), rd_server = (\<lambda>_. demo_server demo_hub), rd_lag = (\<lambda>_. 5) \<rparr>"

theorem the_launch_loop_settles_witness:
  "case launch_loop demo_rounds ''L1'' (proof_wait demo_offer) 0 5 of
     (n, r) \<Rightarrow> n \<le> 21 \<and> attempt demo_rounds ''L1'' False 0 = Inl ''relay_unavailable''"
proof -
  obtain n r where l: "launch_loop demo_rounds ''L1'' (0 + proof_wait demo_offer) 0 5 = (n, r)" by force
  have "attempt demo_rounds ''L1'' False 0 = Inl ''relay_unavailable''"
    by (simp add: attempt_def demo_rounds_def demo_server_def demo_server_env_def start_lobby_def demo_hub_def empty_hub_def
        lobby_def demo_lobby_def demo_seat_def player_count_def start_transport_def host_relay_decision_def Let_def)
  moreover have "\<not> is_ice demo_offer" by (simp add: demo_offer_def is_ice_def demo_ticket_def)
  ultimately show ?thesis using the_launch_loop_settles [OF _ l] l by simp
qed

text \<open>The last round of the task is the event \<open>LaunchTask\<close> of the server, and the rounds before it
  are that event too, without effect.\<close>

lemma a_round_is_an_event:
  assumes "attempt R lid False k = Inl ''relay_unavailable''"
  shows "exec (rd_env R k) (LaunchTask lid p False) (rd_server R k) = rd_server R k"
  using assms by (simp add: attempt_def launch_task_def try_launch_def Let_def)

lemma the_last_round_is_an_event:
  assumes "launch_loop R lid (begun + proof_wait p) 0 (begun + int (rd_lag R 0)) = (n, r)"
    and "begun = formed + int (automatch_start_delay_secs (cfg (rd_env R 0))) * SECOND"
    and "0 < n \<Longrightarrow> rd_server R n = rd_server R (n - 1) \<and> rd_env R n = rd_env R (n - 1)"
  shows "\<exists>late. match_task R lid p formed = exec (rd_env R n) (LaunchTask lid p late) (rd_server R n)"
proof -
  note task = match_task_eq [OF assms(1,2)]
  note ends = launch_loop_ends [OF assms(1)]
  consider "r = attempt R lid False n" "r \<noteq> Inl ''relay_unavailable''"
    | "r = attempt R lid True n" "attempt R lid False n = Inl ''relay_unavailable''"
  proof -
    have "attempt R lid False n = Inl ''relay_unavailable''" if "0 < n"
      using conjunct1 [OF ends, of "n - 1"] assms(3) [OF that] that by (simp add: attempt_def)
    then show ?thesis using that conjunct2 [OF ends [of 0]] by blast
  qed
  then show ?thesis
  proof cases
    case 1
    then show ?thesis
      by (intro exI [of _ False]) (auto simp: task attempt_def launch_task_def try_launch_def Let_def split: sum.split)
  next
    case 2
    then show ?thesis
      by (intro exI [of _ True]) (auto simp: task attempt_def launch_task_def try_launch_def Let_def split: sum.split)
  qed
qed

subsection \<open>The task of a connection\<close>

definition LOGIN_GRACE :: ns where "LOGIN_GRACE = 15 * SECOND"

text \<open>What a read of the socket yields.  A text frame is a message, or text that is not one, with
  the \<^verbatim>\<open>op\<close> that can be made out; \<open>Broken\<close> is the end of the stream or an error on it.  (A ping
  also puts an empty text into the client's own channel; the hub's log does not record it.)\<close>

datatype frame = TextFrame InMsg | GarbledFrame string | PingFrame | OtherFrame | CloseFrame | Broken

datatype closing = Still_open | Timed_out ns | Hung_up ns

text \<open>What the \<open>k\<close>-th round of a connection meets: the environment, the events of the other tasks
  that came before its frame is handled, the time its handling takes, and whether the executor lets
  a read that comes late take a frame that is already waiting (\<^verbatim>\<open>timeout_at\<close> asks the socket before
  it looks at the clock, and the socket may say \<^verbatim>\<open>pending\<close> when the task has used up its turn).\<close>

record Conn =
  cn_player :: string
  cn_ip :: string
  cn_env :: "nat \<Rightarrow> ServerEnv"
  cn_others :: "nat \<Rightarrow> (ServerEnv \<times> event) list"
  cn_busy :: "nat \<Rightarrow> nat"
  cn_eager :: "nat \<Rightarrow> bool"

definition run_others :: "(ServerEnv \<times> event) list \<Rightarrow> Server \<Rightarrow> Server" where
  "run_others evs s = foldl (\<lambda>s (e, ev). exec e ev s) s evs"

text \<open>Does a frame that comes at \<open>a\<close> reach a read that starts at \<open>t\<close> and times out at \<open>d\<close>?\<close>

definition in_time :: "ns \<Rightarrow> bool \<Rightarrow> ns \<Rightarrow> ns \<Rightarrow> bool" where
  "in_time d eager t a = (if a \<le> t then eager \<or> t < d else a \<le> d)"

definition handle_frame :: "Conn \<Rightarrow> nat \<Rightarrow> frame \<Rightarrow> Server \<Rightarrow> Server" where
  "handle_frame C k f s =
     (case f of
        TextFrame m \<Rightarrow> receive (cn_env C k) (cn_player C) (cn_ip C) m s
      | GarbledFrame op \<Rightarrow> send (cn_player C) (bad_request_json op) s
      | _ \<Rightarrow> s)"

definition is_text :: "frame \<Rightarrow> bool" where
  "is_text f = (case f of TextFrame m \<Rightarrow> True | GarbledFrame op \<Rightarrow> True | _ \<Rightarrow> False)"

fun conn_loop :: "Conn \<Rightarrow> ns \<Rightarrow> nat \<Rightarrow> ns \<Rightarrow> bool \<Rightarrow> (ns \<times> frame) list \<Rightarrow> Server \<Rightarrow> closing \<times> nat \<times> Server" where
  "conn_loop C d k t inside [] s =
     (if inside then Still_open else Timed_out (max t d), k, run_others (cn_others C k) s)"
| "conn_loop C d k t inside ((a, f) # fs) s =
     (let s1 = run_others (cn_others C k) s
      in if \<not> inside \<and> \<not> in_time d (cn_eager C k) t a then (Timed_out (max t d), k, s1)
         else if f = CloseFrame \<or> f = Broken then (Hung_up (max t a), k, s1)
         else let s2 = handle_frame C k f s1
              in conn_loop C d (k + 1) (max t a + int (cn_busy C k))
                   (inside \<or> is_text f \<and> signed_in (cn_player C) (sv_hub s2)) fs s2)"

definition handle_socket :: "Conn \<Rightarrow> string \<Rightarrow> bool \<Rightarrow> ns \<Rightarrow> (ns \<times> frame) list \<Rightarrow> Server \<Rightarrow> closing \<times> Server" where
  "handle_socket C country welcomed t frames s =
     (let s0 = connect (cn_player C) (cn_ip C) country s
      in if \<not> welcomed then (Hung_up t, on_hub (remove_client (cn_player C)) s0)
         else case conn_loop C (t + LOGIN_GRACE) 0 t (\<not> h_require_login (sv_hub s)) frames s0 of
                (c, k, s1) \<Rightarrow> (c, if c = Still_open then s1 else disconnect (cn_env C k) (cn_player C) s1))"

lemma run_others_keep:
  assumes "list_all (\<lambda>(e, ev). \<not> speaks_for p ev) evs"
  shows "account (sv_hub (run_others evs s)) p = account (sv_hub s) p"
    and "h_require_login (sv_hub (run_others evs s)) = h_require_login (sv_hub s)"
  using assms
proof (induction evs arbitrary: s)
  case (Cons x evs)
  obtain e ev where x: "x = (e, ev)" by force
  case 1
  then show ?case using Cons.IH(1) [of "exec e ev s"] who_exec [of p ev e s] by (simp add: run_others_def x)
  case 2
  then show ?case using Cons.IH(2) [of "exec e ev s"] by (simp add: run_others_def x require_exec)
qed (simp_all add: run_others_def)

text \<open>A connection that stays outside is closed, and in time.\<close>

lemma conn_loop_outside:
  assumes "account (sv_hub s) (cn_player C) = None"
    and "\<And>k. list_all (\<lambda>(e, ev). \<not> speaks_for (cn_player C) ev) (cn_others C k)"
    and "list_all (\<lambda>(a, f). case f of TextFrame m \<Rightarrow> (\<forall>k. presented (s_hub (cn_env C k)) m = None) | _ \<Rightarrow> True) frames"
    and "conn_loop C d k t False frames s = (c, n, s')"
  shows "\<exists>u. (c = Timed_out u \<or> c = Hung_up u) \<and> u \<le> max t d + (\<Sum>j < length frames. int (cn_busy C (k + j)))"
  using assms(1,3,4)
proof (induction frames arbitrary: k t s)
  case Nil
  then show ?case by auto
next
  case (Cons x frames)
  obtain a f where x: "x = (a, f)" by force
  let ?p = "cn_player C" and ?s1 = "run_others (cn_others C k) s"
  let ?busy = "\<lambda>k. \<Sum>j < length frames. int (cn_busy C (k + j))"
  have sum: "(\<Sum>j < length (x # frames). int (cn_busy C (k + j))) = int (cn_busy C k) + ?busy (k + 1)"
    by (simp add: sum.lessThan_Suc_shift del: sum.lessThan_Suc)
  have pos: "0 \<le> ?busy (k + 1)" by (simp add: sum_nonneg)
  have s1: "account (sv_hub ?s1) ?p = None" using run_others_keep(1) [OF assms(2)] Cons.prems(1) by simp
  have s2: "account (sv_hub (handle_frame C k f ?s1)) ?p = None"
  proof (cases f)
    case (TextFrame m)
    then show ?thesis
      using s1 Cons.prems(2) receive_account [of "cn_env C k" ?p "cn_ip C" m ?s1 ?p] by (auto simp: x handle_frame_def)
  next
    case (GarbledFrame op)
    have "account (sv_hub (send ?p (bad_request_json op) ?s1)) = account (sv_hub ?s1)" by (rule who_account) simp
    then show ?thesis using s1 by (simp add: GarbledFrame handle_frame_def)
  qed (use s1 in \<open>simp_all add: handle_frame_def\<close>)
  have "\<exists>u. (c = Timed_out u \<or> c = Hung_up u) \<and> u \<le> max t d + (int (cn_busy C k) + ?busy (k + 1))"
  proof (cases "in_time d (cn_eager C k) t a")
    case False
    then show ?thesis using Cons.prems(3) pos by (auto simp: x Let_def)
  next
    case True
    then have a: "max t a \<le> max t d" by (auto simp: in_time_def split: if_splits)
    show ?thesis
    proof (cases "f = CloseFrame \<or> f = Broken")
      case True
      then show ?thesis using Cons.prems(3) \<open>in_time d (cn_eager C k) t a\<close> a pos by (auto simp: x Let_def)
    next
      case False
      then have "conn_loop C d (k + 1) (max t a + int (cn_busy C k)) False frames (handle_frame C k f ?s1) = (c, n, s')"
        using Cons.prems(3) True s2 by (simp add: x Let_def signed_in_account)
      from Cons.IH [OF s2 _ this] Cons.prems(2) obtain u where
        "c = Timed_out u \<or> c = Hung_up u" "u \<le> max (max t a + int (cn_busy C k)) d + ?busy (k + 1)" by (auto simp: x)
      moreover have "max (max t a + int (cn_busy C k)) d \<le> max t d + int (cn_busy C k)" using a by simp
      ultimately show ?thesis by (intro exI [of _ u]) auto
    qed
  qed
  then show ?case by (simp only: sum)
qed

text \<open>The address a connection is attributed to: the header is its value, when there is one that is
  text.\<close>

definition client_ip_for :: "string option \<Rightarrow> string \<Rightarrow> bool \<Rightarrow> string" where
  "client_ip_for forwarded addr trust_proxy =
     (if trust_proxy
      then (case forwarded of
              None \<Rightarrow> addr
            | Some fwd \<Rightarrow> let first = trim (takeWhile (\<lambda>c. c \<noteq> CHR '','') fwd) in if first \<noteq> [] then first else addr)
      else addr)"

text \<open>Behind a proxy that appends the address it saw, the first entry is whatever the client put into
  the header itself.\<close>

lemma a_forwarded_address_is_believed:
  assumes "CHR '','' \<notin> set claimed" "trim claimed = claimed" "claimed \<noteq> []"
  shows "client_ip_for (Some (claimed @ '', '' @ seen)) addr True = claimed"
proof -
  have "takeWhile (\<lambda>c. c \<noteq> CHR '','') (claimed @ '', '' @ seen) = claimed" using assms(1) by (subst takeWhile_append2) auto
  then show ?thesis using assms(2,3) by (simp add: client_ip_for_def)
qed

lemma an_untrusted_header_is_ignored: "client_ip_for forwarded addr False = addr"
  by (simp add: client_ip_for_def)

definition ws_upgrade :: "(string \<Rightarrow> string) \<Rightarrow> Conn \<Rightarrow> string option \<Rightarrow> string \<Rightarrow> bool \<Rightarrow> ns \<Rightarrow> (ns \<times> frame) list \<Rightarrow> Server \<Rightarrow> closing \<times> Server" where
  "ws_upgrade country C forwarded addr welcomed t frames s =
     (let ip = client_ip_for forwarded addr (trust_proxy_header (cfg (cn_env C 0)))
      in handle_socket (C\<lparr> cn_ip := ip \<rparr>) (country ip) welcomed t frames s)"

text \<open>
  C13: Strangers are dropped.  At a server that demands a login, a connection none of whose messages
  presents a valid session is closed, whatever it sends and whatever else goes on: it has left the
  hub when its task ends, and that is no later than the fifteen seconds of grace and the time spent
  on handling its frames allow.
\<close>

theorem strangers_are_dropped:
  assumes "h_require_login (sv_hub s)"
    and "\<And>k. list_all (\<lambda>(e, ev). \<not> speaks_for (cn_player C) ev) (cn_others C k)"
    and "list_all (\<lambda>(a, f). case f of TextFrame m \<Rightarrow> (\<forall>k. presented (s_hub (cn_env C k)) m = None) | _ \<Rightarrow> True) frames"
  shows "case handle_socket C country welcomed t frames s of
     (c, s') \<Rightarrow> client (sv_hub s') (cn_player C) = None \<and>
       (\<exists>u. (c = Timed_out u \<or> c = Hung_up u) \<and> u \<le> t + 15 * 1000000000 + (\<Sum>j < length frames. int (cn_busy C j)))"
proof (cases welcomed)
  case False
  have "0 \<le> (\<Sum>j < length frames. int (cn_busy C j))" by (simp add: sum_nonneg)
  then show ?thesis
    using False by (simp add: handle_socket_def Let_def on_hub_def remove_client_def client_def delete_conv)
next
  case True
  let ?s0 = "connect (cn_player C) (cn_ip C) country s"
  obtain c k s1 where l: "conn_loop C (t + LOGIN_GRACE) 0 t False frames ?s0 = (c, k, s1)" by (metis prod_cases3)
  have "account (sv_hub ?s0) (cn_player C) = None" by (simp add: connect_account)
  from conn_loop_outside [OF this assms(2,3) l] obtain u where
    u: "c = Timed_out u \<or> c = Hung_up u" "u \<le> max t (t + LOGIN_GRACE) + (\<Sum>j < length frames. int (cn_busy C j))" by auto
  have "client (sv_hub (disconnect e p s)) p = None" for e p s
    by (simp add: disconnect_def on_hub_def remove_client_def client_def delete_conv)
  then show ?thesis using True l u assms(1) by (auto simp: handle_socket_def LOGIN_GRACE_def SECOND_def)
qed

definition demo_stranger :: Conn where
  "demo_stranger = \<lparr> cn_player = ''b'', cn_ip = ''1.1.1.1'', cn_env = (\<lambda>_. demo_server_env),
     cn_others = (\<lambda>_. [(demo_server_env, Tick), (demo_server_env, PushList ''b'')]), cn_busy = (\<lambda>_. 3), cn_eager = (\<lambda>_. False) \<rparr>"

theorem strangers_are_dropped_witness:
  "client (sv_hub (snd (handle_socket demo_stranger [] True 0
     [(7, TextFrame (blank_msg ''hello'')), (8, PingFrame), (9, GarbledFrame [])] (empty_server True)))) ''b'' = None"
proof -
  let ?frames = "[(7, TextFrame (blank_msg ''hello'')), (8, PingFrame), (9, GarbledFrame [])]"
  have req: "h_require_login (sv_hub (empty_server True))" by (simp add: empty_server_def empty_hub_def)
  have others: "list_all (\<lambda>(e, ev). \<not> speaks_for (cn_player demo_stranger) ev) (cn_others demo_stranger k)" for k
    by (simp add: demo_stranger_def speaks_for_def)
  have frames: "list_all (\<lambda>(a, f). case f of TextFrame m \<Rightarrow> (\<forall>k. presented (s_hub (cn_env demo_stranger k)) m = None) | _ \<Rightarrow> True) ?frames"
    by (simp add: presented_def blank_msg_def nonempty_def)
  from strangers_are_dropped [OF req others frames, where country = "[]" and welcomed = True and t = 0] show ?thesis
    by (auto simp: demo_stranger_def split: prod.splits)
qed

end
