(* ===== verification/Outbox.thy ===== *)
theory Outbox
  imports Server_Step "HOL-Library.Sublist"
begin

text \<open>
  How a message reaches its client: the broadcast channel of a connection, of which the client's
  record holds the sender, and the task that takes messages from it and writes them to the
  socket.  What the hub's log \<open>h_out\<close> records for a client is what is put into this channel, in
  that order.  The channel is that of tokio: it retains the last 64 messages, and a receiver that
  has missed some is told so, by an error, when it asks next.
\<close>

subsection \<open>The channel and its task\<close>

definition OUTBOX_CAPACITY :: nat where "OUTBOX_CAPACITY = 64"

text \<open>The messages retained for the receiver, whether it has missed one, whether the task still
  runs, the message it is writing, and what the socket has taken.\<close>

record Outbox =
  ob_queue :: "json list"
  ob_lagged :: bool
  ob_running :: bool
  ob_writing :: "json option"
  ob_wire :: "json list"

definition new_outbox :: Outbox where
  "new_outbox = \<lparr> ob_queue = [], ob_lagged = False, ob_running = True, ob_writing = None, ob_wire = [] \<rparr>"

text \<open>What can happen: a message is put into the channel (in vain when the task is gone), the task
  asks the channel for the next one, the socket takes the message being written, or fails.\<close>

datatype outbox_event = Put json | Ask | Written | Write_failed

fun outbox_step :: "Outbox \<Rightarrow> outbox_event \<Rightarrow> Outbox" where
  "outbox_step ob (Put m) =
     (if \<not> ob_running ob then ob
      else if length (ob_queue ob) < OUTBOX_CAPACITY then ob\<lparr> ob_queue := ob_queue ob @ [m] \<rparr>
      else ob\<lparr> ob_queue := tl (ob_queue ob) @ [m], ob_lagged := True \<rparr>)"
| "outbox_step ob Ask =
     (if \<not> ob_running ob \<or> ob_writing ob \<noteq> None then ob
      else if ob_lagged ob then ob\<lparr> ob_running := False, ob_queue := [] \<rparr>
      else (case ob_queue ob of [] \<Rightarrow> ob | m # q \<Rightarrow> ob\<lparr> ob_queue := q, ob_writing := Some m \<rparr>))"
| "outbox_step ob Written =
     (case ob_writing ob of None \<Rightarrow> ob | Some m \<Rightarrow> ob\<lparr> ob_writing := None, ob_wire := ob_wire ob @ [m] \<rparr>)"
| "outbox_step ob Write_failed =
     (if ob_writing ob = None then ob else ob\<lparr> ob_running := False, ob_queue := [], ob_writing := None \<rparr>)"

definition run_outbox :: "outbox_event list \<Rightarrow> Outbox \<Rightarrow> Outbox" where
  "run_outbox evs ob = foldl outbox_step ob evs"

fun sent :: "outbox_event list \<Rightarrow> json list" where
  "sent [] = []"
| "sent (Put m # evs) = m # sent evs"
| "sent (_ # evs) = sent evs"

lemma sent_append: "sent (a @ b) = sent a @ sent b"
  by (induction a rule: sent.induct) simp_all

lemma run_outbox_snoc: "run_outbox (evs @ [ev]) ob = outbox_step (run_outbox evs ob) ev"
  by (simp add: run_outbox_def)

subsection \<open>A prefix, in order\<close>

definition held :: "Outbox \<Rightarrow> json list" where
  "held ob = ob_wire ob @ (case ob_writing ob of None \<Rightarrow> [] | Some m \<Rightarrow> [m])"

lemma held_waiting [simp]:
  "held (ob\<lparr> ob_queue := q \<rparr>) = held ob" "held (ob\<lparr> ob_lagged := b \<rparr>) = held ob"
  by (simp_all add: held_def)

text \<open>As long as the task runs and has missed nothing, the socket, the task and the channel hold
  all that was sent; otherwise what got through is a prefix of it.\<close>

lemma outbox_inv:
  "(if ob_running (run_outbox evs new_outbox) \<and> \<not> ob_lagged (run_outbox evs new_outbox)
    then held (run_outbox evs new_outbox) @ ob_queue (run_outbox evs new_outbox) = sent evs
    else prefix (held (run_outbox evs new_outbox)) (sent evs)) \<and>
   length (ob_queue (run_outbox evs new_outbox)) \<le> OUTBOX_CAPACITY"
proof (induction evs rule: rev_induct)
  case Nil
  show ?case by (simp add: run_outbox_def new_outbox_def held_def)
next
  case (snoc ev evs)
  let ?ob = "run_outbox evs new_outbox"
  have pre: "prefix (held ?ob) (sent evs)"
    using snoc.IH by (auto split: if_splits intro: prefixI [OF sym])
  show ?case
  proof (cases ev)
    case (Put m)
    then show ?thesis
      using snoc.IH pre
      by (auto simp: run_outbox_snoc sent_append held_def OUTBOX_CAPACITY_def prefix_def split: option.splits)
  next
    case Ask
    then show ?thesis
      using snoc.IH pre
      by (cases "ob_queue ?ob") (auto simp: run_outbox_snoc sent_append held_def prefix_def split: option.splits if_splits)
  next
    case Written
    then show ?thesis
      using snoc.IH pre
      by (auto simp: run_outbox_snoc sent_append held_def prefix_def split: option.splits if_splits)
  next
    case Write_failed
    then show ?thesis
      using snoc.IH pre
      by (auto simp: run_outbox_snoc sent_append held_def prefix_def split: option.splits if_splits)
  qed
qed


subsection \<open>A slow client\<close>

lemma lagged_is_silent:
  assumes "ob_lagged ob"
  shows "ob_lagged (run_outbox evs ob) \<and> (\<exists>rest. held ob = held (run_outbox evs ob) @ rest) \<and> prefix (ob_wire ob) (ob_wire (run_outbox evs ob))"
proof (induction evs rule: rev_induct)
  case Nil
  show ?case using assms by (simp add: run_outbox_def)
next
  case (snoc ev evs)
  then show ?case
    by (cases ev) (auto simp: run_outbox_snoc held_def prefix_def split: option.splits)
qed

lemma puts_lag:
  "ob_running ob \<Longrightarrow> OUTBOX_CAPACITY < length (ob_queue ob) + length ms \<Longrightarrow> length (ob_queue ob) \<le> OUTBOX_CAPACITY \<Longrightarrow>
   ob_lagged (run_outbox (map Put ms) ob) \<and> held (run_outbox (map Put ms) ob) = held ob \<and>
   ob_wire (run_outbox (map Put ms) ob) = ob_wire ob"
proof (induction ms arbitrary: ob)
  case (Cons m ms)
  show ?case
  proof (cases "length (ob_queue ob) < OUTBOX_CAPACITY")
    case True
    then show ?thesis using Cons.IH [of "ob\<lparr> ob_queue := ob_queue ob @ [m] \<rparr>"] Cons.prems
      by (simp add: run_outbox_def)
  next
    case False
    have keep: "ob_lagged (foldl outbox_step ob (map Put ms)) \<and> held (foldl outbox_step ob (map Put ms)) = held ob \<and>
        ob_wire (foldl outbox_step ob (map Put ms)) = ob_wire ob" if "ob_lagged ob" for ob
      using that by (induction ms arbitrary: ob) simp_all
    show ?thesis using False Cons.prems keep [of "ob\<lparr> ob_queue := tl (ob_queue ob) @ [m], ob_lagged := True \<rparr>"]
      by (simp add: run_outbox_def)
  qed
qed simp



end
