(* ===== verification/Metrics.thy ===== *)
theory Metrics
  imports Rust_Text "HOL-Library.Word"
begin

text \<open>
  Usage counters and game labels (src/metrics.rs).  The process-wide statics are one record:
  the label set, the lifetime match starts, the label pairs published on the gauge of running
  matches, and the totals.  What the \<^verbatim>\<open>metrics\<close> crate is told is a log of emissions, newest
  last: an increment of a counter series or the new value of a gauge series, each with its
  labels.  The totals are \<^verbatim>\<open>AtomicU64\<close> and the crate's counters \<^verbatim>\<open>u64\<close>, so both are 64 bit words
  and wrap; a gauge is set from a \<^verbatim>\<open>usize\<close> (its \<^verbatim>\<open>f64\<close> image is exact below 2^53, so the natural
  number is kept).

  The lemmas show that a label is in a normal form, that the label set stays within its bound
  whatever names clients send, that a name keeps its label, that the totals served by \<^verbatim>\<open>/stats\<close>
  are the sums of the increments scraped from \<^verbatim>\<open>/metrics\<close>, and that the gauge of running matches
  always shows the last counts.
\<close>

subsection \<open>Game labels\<close>

definition SURFACE_WS :: string where
  "SURFACE_WS = ''ws''"

definition SURFACE_HTTP :: string where
  "SURFACE_HTTP = ''http''"

definition DEFAULT_GAME_LABEL_LIMIT :: nat where
  "DEFAULT_GAME_LABEL_LIMIT = 64"

definition GAME_LABEL_MAX_LEN :: nat where
  "GAME_LABEL_MAX_LEN = 48"

definition GAME_LABEL_OTHER :: string where
  "GAME_LABEL_OTHER = ''other''"

definition GAME_LABEL_UNKNOWN :: string where
  "GAME_LABEL_UNKNOWN = ''unknown''"

record GameLabels =
  gl_strict :: bool
  gl_limit :: nat
  gl_known :: "(string, string) hashmap"

text \<open>\<^verbatim>\<open>game_labels()\<close>: what the static holds before \<open>init_game_labels\<close>.\<close>

definition default_labels :: GameLabels where
  "default_labels = \<lparr>gl_strict = False, gl_limit = DEFAULT_GAME_LABEL_LIMIT, gl_known = []\<rparr>"

definition label_byte :: "char \<Rightarrow> bool" where
  [rust_simps]: "label_byte c \<longleftrightarrow>
     (let b = of_char c :: nat in 48 \<le> b \<and> b \<le> 57 \<or> 97 \<le> b \<and> b \<le> 122 \<or> b = 46 \<or> b = 45 \<or> b = 95)"

text \<open>The character a name's character becomes: 95 is the underscore.\<close>

definition label_char :: "cp \<Rightarrow> char" where
  [rust_simps]: "label_char ch =
     (if 48 \<le> ch \<and> ch \<le> 57 \<or> 97 \<le> ch \<and> ch \<le> 122 then char_of ch
      else if 65 \<le> ch \<and> ch \<le> 90 then char_of (ch + 32)
      else if ch = 46 \<or> ch = 45 \<or> ch = 95 then char_of ch
      else CHR ''_'')"

fun label_loop :: "cp list \<Rightarrow> string \<Rightarrow> bool \<Rightarrow> string" where
  "label_loop [] out prev_sep = out"
| "label_loop (ch # chs) out prev_sep =
     (if length out \<ge> GAME_LABEL_MAX_LEN then out
      else let c = label_char ch
           in if c = CHR ''_''
              then if prev_sep \<or> out = [] then label_loop chs out prev_sep
                   else label_loop chs (out @ [c]) True
              else label_loop chs (out @ [c]) False)"

definition label_sep :: "char \<Rightarrow> bool" where
  [rust_simps]: "label_sep c \<longleftrightarrow> c = CHR ''_'' \<or> c = CHR ''-'' \<or> c = CHR ''.''"

definition normalize_game :: "string \<Rightarrow> string" where
  "normalize_game raw =
     rev (dropWhile label_sep (rev (label_loop (trim_chars (chars raw)) [] False)))"

definition init_game_labels :: "string list \<Rightarrow> nat \<Rightarrow> GameLabels" where
  "init_game_labels allowlist limit =
     foldl (\<lambda>g raw. let name = normalize_game raw
                    in if name = [] \<or> map_of (gl_known g) name \<noteq> None then g
                       else g\<lparr>gl_known := AList.update name name (gl_known g)\<rparr>)
       \<lparr>gl_strict = allowlist \<noteq> [], gl_limit = max limit 1, gl_known = []\<rparr> allowlist"

text \<open>The code reads under a shared lock, then decides again under the exclusive one; run
  without another thread in between, both decisions are the same.\<close>

definition game_label :: "GameLabels \<Rightarrow> string \<Rightarrow> string \<times> GameLabels" where
  "game_label g raw =
     (let name = normalize_game raw
      in if name = [] then (GAME_LABEL_UNKNOWN, g)
         else case map_of (gl_known g) name of
                Some label \<Rightarrow> (label, g)
              | None \<Rightarrow>
                  if gl_strict g \<or> length (gl_known g) \<ge> gl_limit g then (GAME_LABEL_OTHER, g)
                  else (name, g\<lparr>gl_known := AList.update name name (gl_known g)\<rparr>))"

text \<open>The labels of a sequence of names, and the label set they leave.\<close>

fun label_all :: "GameLabels \<Rightarrow> string list \<Rightarrow> string list \<times> GameLabels" where
  "label_all g [] = ([], g)"
| "label_all g (raw # raws) =
     (let (l, g') = game_label g raw; (ls, g'') = label_all g' raws in (l # ls, g''))"

text \<open>A label in normal form: characters of \<^verbatim>\<open>[a-z0-9._-]\<close>, at most 48 of them, no separator
  at the end.\<close>

definition label_ok :: "string \<Rightarrow> bool" where
  "label_ok l \<longleftrightarrow> list_all label_byte l \<and> length l \<le> GAME_LABEL_MAX_LEN \<and> l \<noteq> [] \<and> \<not> label_sep (List.last l)"

lemma label_char_byte: "label_byte (label_char ch)"
  by (auto simp: label_byte_def label_char_def)

lemma label_loop_shape:
  "list_all label_byte out \<Longrightarrow> length out \<le> GAME_LABEL_MAX_LEN \<Longrightarrow>
   list_all label_byte (label_loop chs out sep) \<and> length (label_loop chs out sep) \<le> GAME_LABEL_MAX_LEN"
  by (induction chs out sep rule: label_loop.induct) (auto simp: Let_def label_char_byte)

lemma normalize_game_ok: "normalize_game raw \<noteq> [] \<Longrightarrow> label_ok (normalize_game raw)"
proof -
  assume ne: "normalize_game raw \<noteq> []"
  define d where "d = dropWhile label_sep (rev (label_loop (trim_chars (chars raw)) [] False))"
  have n: "normalize_game raw = rev d" by (simp add: normalize_game_def d_def)
  have d: "d \<noteq> []" using ne n by simp
  then have h: "\<not> label_sep (List.hd d)" unfolding d_def by (rule hd_dropWhile)
  have "list_all label_byte d"
    using label_loop_shape [of "[]" "trim_chars (chars raw)" False]
    by (auto simp: d_def list_all_iff dest!: set_dropWhileD)
  moreover have "length d \<le> GAME_LABEL_MAX_LEN"
    using label_loop_shape [of "[]" "trim_chars (chars raw)" False]
      length_dropWhile_le [of label_sep "rev (label_loop (trim_chars (chars raw)) [] False)"]
    by (simp add: d_def)
  ultimately show ?thesis using d h by (simp add: label_ok_def n last_rev list_all_iff)
qed

text \<open>The label set: names in normal form that are their own label, as many as fit.\<close>

definition labels_inv :: "nat \<Rightarrow> GameLabels \<Rightarrow> bool" where
  "labels_inv b g \<longleftrightarrow>
     distinct (map fst (gl_known g)) \<and> length (gl_known g) \<le> b \<and>
     (\<forall>(k, v) \<in> set (gl_known g). v = k \<and> label_ok k) \<and> (\<not> gl_strict g \<longrightarrow> gl_limit g \<le> b)"

lemma labels_inv_update:
  "labels_inv b g \<Longrightarrow> label_ok n \<Longrightarrow> map_of (gl_known g) n = None \<Longrightarrow> length (gl_known g) < b \<Longrightarrow>
   labels_inv b (g\<lparr>gl_known := AList.update n n (gl_known g)\<rparr>)"
  by (auto simp: labels_inv_def update_fresh map_of_eq_None_iff)

lemma labels_inv_game_label:
  assumes "labels_inv b g"
  shows "labels_inv b (snd (game_label g raw))"
proof -
  have "labels_inv b (g\<lparr>gl_known := AList.update (normalize_game raw) (normalize_game raw) (gl_known g)\<rparr>)"
    if "normalize_game raw \<noteq> []" "map_of (gl_known g) (normalize_game raw) = None" "\<not> gl_strict g"
      "\<not> gl_limit g \<le> length (gl_known g)"
    using labels_inv_update [OF assms normalize_game_ok [OF that(1)] that(2)] that(3,4) assms
    by (simp add: labels_inv_def)
  then show ?thesis using assms by (auto simp: game_label_def Let_def split: option.split)
qed

text \<open>A learnt label stays, so a name keeps its label for as long as the process runs.\<close>

definition extends :: "GameLabels \<Rightarrow> GameLabels \<Rightarrow> bool" where
  "extends g g' \<longleftrightarrow>
     gl_strict g' = gl_strict g \<and> gl_limit g' = gl_limit g \<and> length (gl_known g) \<le> length (gl_known g') \<and>
     map_of (gl_known g) \<subseteq>\<^sub>m map_of (gl_known g') \<and>
     ((gl_strict g \<or> gl_limit g \<le> length (gl_known g)) \<longrightarrow> gl_known g' = gl_known g)"

lemma extends_refl [simp]: "extends g g"
  by (simp add: extends_def)

lemma extends_trans: "extends g g' \<Longrightarrow> extends g' g'' \<Longrightarrow> extends g g''"
  unfolding extends_def by (auto intro: map_le_trans)

lemma extends_game_label: "extends g (snd (game_label g raw))"
  by (auto simp: game_label_def extends_def Let_def length_update_new map_le_def split: option.split)

lemma label_stays: "extends (snd (game_label g raw)) g' \<Longrightarrow> fst (game_label g' raw) = fst (game_label g raw)"
  by (auto simp: game_label_def extends_def Let_def map_le_def dom_def split: option.splits if_splits)

lemma label_all_Cons [simp]:
  "label_all g (raw # raws) =
     (fst (game_label g raw) # fst (label_all (snd (game_label g raw)) raws),
      snd (label_all (snd (game_label g raw)) raws))"
  by (simp add: case_prod_unfold Let_def)

declare label_all.simps(2) [simp del]

lemma label_all_inv: "labels_inv b g \<Longrightarrow> labels_inv b (snd (label_all g raws))"
  by (induction raws arbitrary: g) (auto intro: labels_inv_game_label)

lemma extends_label_all: "extends g (snd (label_all g raws))"
  by (induction raws arbitrary: g) (auto intro: extends_trans extends_game_label)

lemma game_label_range:
  "labels_inv b g \<Longrightarrow>
   fst (game_label g raw) \<in> {GAME_LABEL_OTHER, GAME_LABEL_UNKNOWN} \<union> fst ` set (gl_known (snd (game_label g raw)))"
  by (force simp: game_label_def Let_def labels_inv_def update_fresh split: option.split dest: map_of_SomeD)

lemma known_extends: "extends g g' \<Longrightarrow> fst ` set (gl_known g) \<subseteq> fst ` set (gl_known g')"
  by (auto simp: extends_def dom_map_of_conv_image_fst [symmetric] map_le_def dom_def)

lemma label_all_range:
  "labels_inv b g \<Longrightarrow>
   set (fst (label_all g raws)) \<subseteq>
     {GAME_LABEL_OTHER, GAME_LABEL_UNKNOWN} \<union> fst ` set (gl_known (snd (label_all g raws)))"
proof (induction raws arbitrary: g)
  case Nil
  then show ?case by simp
next
  case (Cons raw raws)
  let ?g = "snd (game_label g raw)"
  have "fst ` set (gl_known ?g) \<subseteq> fst ` set (gl_known (snd (label_all ?g raws)))"
    by (rule known_extends [OF extends_label_all])
  then show ?case
    using game_label_range [OF Cons.prems, of raw] Cons.IH [OF labels_inv_game_label [OF Cons.prems], of raw]
    by auto
qed

definition seed_label :: "GameLabels \<Rightarrow> string \<Rightarrow> GameLabels" where
  "seed_label g raw =
     (let name = normalize_game raw
      in if name = [] \<or> map_of (gl_known g) name \<noteq> None then g
         else g\<lparr>gl_known := AList.update name name (gl_known g)\<rparr>)"

lemma init_game_labels_seed:
  "init_game_labels allowlist limit =
     foldl seed_label \<lparr>gl_strict = allowlist \<noteq> [], gl_limit = max limit 1, gl_known = []\<rparr> allowlist"
  by (simp add: init_game_labels_def seed_label_def [abs_def])

lemma labels_inv_seed:
  "labels_inv b g \<Longrightarrow> length (gl_known g) + length raws \<le> b \<Longrightarrow> labels_inv b (foldl seed_label g raws)"
proof (induction raws arbitrary: g)
  case Nil
  then show ?case by simp
next
  case (Cons raw raws)
  have "labels_inv b (seed_label g raw)"
    using labels_inv_update [OF Cons.prems(1) normalize_game_ok [of raw]] Cons.prems
    by (auto simp: seed_label_def Let_def)
  moreover have "length (gl_known (seed_label g raw)) \<le> Suc (length (gl_known g))"
    by (auto simp: seed_label_def Let_def length_update_new)
  ultimately show ?case using Cons by simp
qed

lemma labels_inv_init: "labels_inv (max (max limit 1) (length allowlist)) (init_game_labels allowlist limit)"
  unfolding init_game_labels_seed by (rule labels_inv_seed) (auto simp: labels_inv_def)

lemma seed_strict [simp]:
  "gl_strict (foldl seed_label g raws) = gl_strict g" "gl_limit (foldl seed_label g raws) = gl_limit g"
  by (induction raws arbitrary: g) (auto simp: seed_label_def Let_def)

lemma seed_known:
  "fst ` set (gl_known (foldl seed_label g raws)) \<subseteq> fst ` set (gl_known g) \<union> normalize_game ` set raws"
proof (induction raws arbitrary: g)
  case Nil
  then show ?case by simp
next
  case (Cons raw raws)
  have "fst ` set (gl_known (seed_label g raw)) \<subseteq> insert (normalize_game raw) (fst ` set (gl_known g))"
    by (auto simp: seed_label_def Let_def update_fresh)
  moreover have "fst ` set (gl_known (foldl seed_label (seed_label g raw) raws))
      \<subseteq> fst ` set (gl_known (seed_label g raw)) \<union> normalize_game ` set raws" by (rule Cons)
  ultimately show ?case unfolding foldl_Cons list.set image_insert by blast
qed

lemma card_handed_out:
  assumes "labels_inv b g" "set ls \<subseteq> {GAME_LABEL_OTHER, GAME_LABEL_UNKNOWN} \<union> fst ` set (gl_known g)"
  shows "card (set ls) \<le> b + 2"
proof -
  have "card (set ls) \<le> card ({GAME_LABEL_OTHER, GAME_LABEL_UNKNOWN} \<union> fst ` set (gl_known g))"
    by (rule card_mono [OF _ assms(2)]) simp
  also have "\<dots> \<le> card {GAME_LABEL_OTHER, GAME_LABEL_UNKNOWN} + card (fst ` set (gl_known g))"
    by (rule card_Un_le)
  also have "card {GAME_LABEL_OTHER, GAME_LABEL_UNKNOWN} \<le> 2" by (simp add: card_insert_if)
  also have "card (fst ` set (gl_known g)) \<le> length (gl_known g)"
    using card_length [of "map fst (gl_known g)"] by simp
  finally show ?thesis using assms(1) by (simp add: labels_inv_def)
qed

lemma handed_out_ok:
  assumes "labels_inv b g" "set ls \<subseteq> {GAME_LABEL_OTHER, GAME_LABEL_UNKNOWN} \<union> fst ` set (gl_known g)"
  shows "list_all label_ok ls"
  unfolding list_all_iff
proof
  fix l assume "l \<in> set ls"
  then consider "l = GAME_LABEL_OTHER" | "l = GAME_LABEL_UNKNOWN" | "l \<in> fst ` set (gl_known g)"
    using assms(2) by blast
  then show "label_ok l"
  proof cases
    case 1
    show ?thesis unfolding 1 by code_simp
  next
    case 2
    show ?thesis unfolding 2 by code_simp
  next
    case 3
    then show ?thesis using assms(1) by (auto simp: labels_inv_def)
  qed
qed

lemma strict_labels:
  assumes "allowlist \<noteq> []"
  shows "fst ` set (gl_known (snd (label_all (init_game_labels allowlist limit) names)))
    \<subseteq> normalize_game ` set allowlist"
proof -
  have "gl_strict (init_game_labels allowlist limit)" using assms by (simp add: init_game_labels_seed)
  then have "gl_known (snd (label_all (init_game_labels allowlist limit) names))
      = gl_known (init_game_labels allowlist limit)"
    using extends_label_all [of "init_game_labels allowlist limit" names] by (simp add: extends_def)
  then show ?thesis
    using seed_known [of "\<lparr>gl_strict = allowlist \<noteq> [], gl_limit = max limit 1, gl_known = []\<rparr>" allowlist]
    by (simp add: init_game_labels_seed)
qed

lemma labels_stay: "map (\<lambda>raw. fst (game_label (snd (label_all g raws)) raw)) raws = fst (label_all g raws)"
  by (induction raws arbitrary: g) (simp_all add: label_stays extends_label_all)


subsection \<open>The counters\<close>

record MatchTotals =
  mt_starts :: "64 word"
  mt_players :: "64 word"

record Totals =
  t_ws_connects :: "64 word"
  t_ws_disconnects :: "64 word"
  t_ws_lobby_creates :: "64 word"
  t_ws_lobby_joins :: "64 word"
  t_ws_lobby_join_failures :: "64 word"
  t_ws_lobby_starts :: "64 word"
  t_ws_lobby_destroys :: "64 word"
  t_ws_signals :: "64 word"
  t_http_players_created :: "64 word"
  t_http_room_creates :: "64 word"
  t_http_room_joins :: "64 word"
  t_http_room_join_failures :: "64 word"
  t_http_room_starts :: "64 word"
  t_http_turn_credentials :: "64 word"

type_synonym series_labels = "(string \<times> string) list"

datatype Emission =
    Increment string series_labels "64 word"
  | SetGauge string series_labels nat

record Metrics =
  m_labels :: GameLabels
  m_starts :: "(string \<times> string, MatchTotals) hashmap"
  m_active :: "(string \<times> string) list"
  m_totals :: Totals
  m_emitted :: "Emission list"

definition no_totals :: Totals where
  "no_totals = \<lparr>t_ws_connects = 0, t_ws_disconnects = 0, t_ws_lobby_creates = 0, t_ws_lobby_joins = 0,
     t_ws_lobby_join_failures = 0, t_ws_lobby_starts = 0, t_ws_lobby_destroys = 0, t_ws_signals = 0,
     t_http_players_created = 0, t_http_room_creates = 0, t_http_room_joins = 0,
     t_http_room_join_failures = 0, t_http_room_starts = 0, t_http_turn_credentials = 0\<rparr>"

definition totals :: "Metrics \<Rightarrow> Totals" where
  [simp]: "totals M = m_totals M"

definition fresh_metrics :: Metrics where
  "fresh_metrics = \<lparr>m_labels = default_labels, m_starts = [], m_active = [], m_totals = no_totals, m_emitted = []\<rparr>"

definition emit :: "Emission list \<Rightarrow> Metrics \<Rightarrow> Metrics" where
  "emit es M = M\<lparr>m_emitted := m_emitted M @ es\<rparr>"

definition bump_total :: "(Totals \<Rightarrow> Totals) \<Rightarrow> Metrics \<Rightarrow> Metrics" where
  "bump_total f M = M\<lparr>m_totals := f (m_totals M)\<rparr>"

lemma emit_sel [simp]:
  "m_labels (emit es M) = m_labels M" "m_starts (emit es M) = m_starts M" "m_active (emit es M) = m_active M"
  "m_totals (emit es M) = m_totals M" "m_emitted (emit es M) = m_emitted M @ es"
  by (simp_all add: emit_def)

lemma bump_total_sel [simp]:
  "m_labels (bump_total f M) = m_labels M" "m_starts (bump_total f M) = m_starts M"
  "m_active (bump_total f M) = m_active M" "m_totals (bump_total f M) = f (m_totals M)"
  "m_emitted (bump_total f M) = m_emitted M"
  by (simp_all add: bump_total_def)

definition ws_connected :: "Metrics \<Rightarrow> Metrics" where
  "ws_connected M = emit [Increment ''recomp_ws_connects_total'' [] 1]
     (bump_total (t_ws_connects_update (\<lambda>n. n + 1)) M)"

definition ws_disconnected :: "Metrics \<Rightarrow> Metrics" where
  "ws_disconnected M = emit [Increment ''recomp_ws_disconnects_total'' [] 1]
     (bump_total (t_ws_disconnects_update (\<lambda>n. n + 1)) M)"

definition ws_lobby_created :: "Metrics \<Rightarrow> Metrics" where
  "ws_lobby_created M = emit [Increment ''recomp_ws_lobby_creates_total'' [] 1]
     (bump_total (t_ws_lobby_creates_update (\<lambda>n. n + 1)) M)"

definition automatch_queued :: "Metrics \<Rightarrow> Metrics" where
  "automatch_queued = emit [Increment ''recomp_automatch_queued_total'' [] 1]"

definition automatch_paired :: "Metrics \<Rightarrow> Metrics" where
  "automatch_paired = emit [Increment ''recomp_automatch_pairs_total'' [] 1]"

definition automatch_dodge :: "Metrics \<Rightarrow> Metrics" where
  "automatch_dodge = emit [Increment ''recomp_automatch_dodges_total'' [] 1]"

definition ws_lobby_join_ok :: "Metrics \<Rightarrow> Metrics" where
  "ws_lobby_join_ok M = emit [Increment ''recomp_ws_lobby_joins_total'' [(''result'', ''ok'')] 1]
     (bump_total (t_ws_lobby_joins_update (\<lambda>n. n + 1)) M)"

definition ws_lobby_join_fail :: "string \<Rightarrow> Metrics \<Rightarrow> Metrics" where
  "ws_lobby_join_fail code M = emit [Increment ''recomp_ws_lobby_joins_total'' [(''result'', code)] 1]
     (bump_total (t_ws_lobby_join_failures_update (\<lambda>n. n + 1)) M)"

definition ws_lobby_destroyed :: "Metrics \<Rightarrow> Metrics" where
  "ws_lobby_destroyed M = emit [Increment ''recomp_ws_lobby_destroys_total'' [] 1]
     (bump_total (t_ws_lobby_destroys_update (\<lambda>n. n + 1)) M)"

definition ws_signal_relayed :: "Metrics \<Rightarrow> Metrics" where
  "ws_signal_relayed M = emit [Increment ''recomp_ws_signals_total'' [] 1]
     (bump_total (t_ws_signals_update (\<lambda>n. n + 1)) M)"

definition ws_signal_dropped :: "string \<Rightarrow> Metrics \<Rightarrow> Metrics" where
  "ws_signal_dropped reason = emit [Increment ''recomp_ws_signals_dropped_total'' [(''reason'', reason)] 1]"

definition http_player_created :: "Metrics \<Rightarrow> Metrics" where
  "http_player_created M = emit [Increment ''recomp_http_players_created_total'' [] 1]
     (bump_total (t_http_players_created_update (\<lambda>n. n + 1)) M)"

definition http_room_created :: "Metrics \<Rightarrow> Metrics" where
  "http_room_created M = emit [Increment ''recomp_http_room_creates_total'' [] 1]
     (bump_total (t_http_room_creates_update (\<lambda>n. n + 1)) M)"

definition http_room_join_ok :: "Metrics \<Rightarrow> Metrics" where
  "http_room_join_ok M = emit [Increment ''recomp_http_room_joins_total'' [(''result'', ''ok'')] 1]
     (bump_total (t_http_room_joins_update (\<lambda>n. n + 1)) M)"

definition http_room_join_fail :: "string \<Rightarrow> Metrics \<Rightarrow> Metrics" where
  "http_room_join_fail code M = emit [Increment ''recomp_http_room_joins_total'' [(''result'', code)] 1]
     (bump_total (t_http_room_join_failures_update (\<lambda>n. n + 1)) M)"

definition http_turn_credentials_issued :: "Metrics \<Rightarrow> Metrics" where
  "http_turn_credentials_issued M = emit [Increment ''recomp_http_turn_credentials_total'' [] 1]
     (bump_total (t_http_turn_credentials_update (\<lambda>n. n + 1)) M)"

subsection \<open>Match starts and running matches by game\<close>

definition add_start :: "(string \<times> string) \<Rightarrow> 64 word \<Rightarrow> (string \<times> string, MatchTotals) hashmap
    \<Rightarrow> (string \<times> string, MatchTotals) hashmap" where
  "add_start k n m =
     (let e = unwrap_or (map_of m k) \<lparr>mt_starts = 0, mt_players = 0\<rparr>
      in AList.update k \<lparr>mt_starts = mt_starts e + 1, mt_players = mt_players e + n\<rparr> m)"

definition match_started :: "string \<Rightarrow> string \<Rightarrow> nat \<Rightarrow> Metrics \<Rightarrow> Metrics" where
  "match_started surface game n M =
     (let (label, g) = game_label (m_labels M) game;
          players = of_nat n;
          ls = [(''surface'', surface), (''game'', label)];
          es = Increment ''recomp_match_starts_total'' ls 1 #
               (if players > 0 then [Increment ''recomp_match_players_total'' ls players] else [])
      in emit es (M\<lparr>m_labels := g, m_starts := add_start (surface, label) players (m_starts M)\<rparr>))"

definition ws_lobby_started :: "string \<Rightarrow> nat \<Rightarrow> Metrics \<Rightarrow> Metrics" where
  "ws_lobby_started game n M = match_started SURFACE_WS game n
     (emit [Increment ''recomp_ws_lobby_starts_total'' [] 1]
       (bump_total (t_ws_lobby_starts_update (\<lambda>n. n + 1)) M))"

definition http_room_started :: "string \<Rightarrow> nat \<Rightarrow> Metrics \<Rightarrow> Metrics" where
  "http_room_started game n M = match_started SURFACE_HTTP game n
     (emit [Increment ''recomp_http_room_starts_total'' [] 1]
       (bump_total (t_http_room_starts_update (\<lambda>n. n + 1)) M))"

definition match_starts_by_game :: "string \<Rightarrow> Metrics \<Rightarrow> (string, MatchTotals) hashmap" where
  "match_starts_by_game surface M =
     map (\<lambda>((s, game), t). (game, t)) (filter (\<lambda>((s, game), t). s = surface) (m_starts M))"

text \<open>\<^verbatim>\<open>set_matches_by_game\<close>: fold the names onto labels, zero the published labels that are gone,
  publish the others.\<close>

fun fold_counts :: "(string, nat) hashmap \<Rightarrow> (string, nat) hashmap \<Rightarrow> GameLabels \<Rightarrow> (string, nat) hashmap \<times> GameLabels" where
  "fold_counts [] folded g = (folded, g)"
| "fold_counts ((game, n) # counts) folded g =
     (let (label, g') = game_label g game
      in fold_counts counts (AList.update label (unwrap_or (map_of folded label) 0 + n) folded) g')"

definition active_labels :: "string \<Rightarrow> string \<Rightarrow> series_labels" where
  "active_labels surface game = [(''surface'', surface), (''game'', game)]"

definition set_matches_by_game :: "string \<Rightarrow> (string, nat) hashmap \<Rightarrow> Metrics \<Rightarrow> Metrics" where
  "set_matches_by_game surface counts M =
     (let (folded, g) = fold_counts counts [] (m_labels M);
          gone = filter (\<lambda>(s, game). s = surface \<and> map_of folded game = None) (m_active M);
          es = map (\<lambda>(s, game). SetGauge ''recomp_matches_active'' (active_labels s game) 0) gone @
               map (\<lambda>(game, n). SetGauge ''recomp_matches_active'' (active_labels surface game) n) folded
      in emit es (M\<lparr>m_labels := g,
           m_active := filter (\<lambda>(s, _). s \<noteq> surface) (m_active M) @ map (\<lambda>(game, _). (surface, game)) folded\<rparr>))"

definition set_gauges :: "nat \<Rightarrow> nat \<Rightarrow> nat \<Rightarrow> nat \<Rightarrow> nat \<Rightarrow> Metrics \<Rightarrow> Metrics" where
  "set_gauges ws_clients ws_lobbies ws_matches http_rooms http_rooms_running = emit
     [SetGauge ''recomp_ws_clients'' [] ws_clients, SetGauge ''recomp_ws_lobbies'' [] ws_lobbies,
      SetGauge ''recomp_ws_matches'' [] ws_matches, SetGauge ''recomp_http_rooms'' [] http_rooms,
      SetGauge ''recomp_http_rooms_running'' [] http_rooms_running]"

definition init_metrics :: "string list \<Rightarrow> nat \<Rightarrow> Metrics \<Rightarrow> Metrics" where
  "init_metrics allowlist limit M = M\<lparr>m_labels := init_game_labels allowlist limit\<rparr>"

subsection \<open>The totals of \<open>/stats\<close> are the sums of the increments\<close>

text \<open>One call into the module, in the order the program makes them.\<close>

datatype MetricOp =
    WsConnected | WsDisconnected | WsLobbyCreated | WsLobbyJoinOk | WsLobbyJoinFail string
  | WsLobbyStarted string nat | WsLobbyDestroyed | WsSignalRelayed | WsSignalDropped string
  | AutomatchQueued | AutomatchPaired | AutomatchDodge
  | HttpPlayerCreated | HttpRoomCreated | HttpRoomJoinOk | HttpRoomJoinFail string
  | HttpRoomStarted string nat | HttpTurnCredentialsIssued
  | SetMatches string "(string, nat) hashmap" | SetGauges nat nat nat nat nat
  | InitLabels "string list" nat

fun metric_step :: "MetricOp \<Rightarrow> Metrics \<Rightarrow> Metrics" where
  "metric_step WsConnected = ws_connected"
| "metric_step WsDisconnected = ws_disconnected"
| "metric_step WsLobbyCreated = ws_lobby_created"
| "metric_step WsLobbyJoinOk = ws_lobby_join_ok"
| "metric_step (WsLobbyJoinFail c) = ws_lobby_join_fail c"
| "metric_step (WsLobbyStarted g n) = ws_lobby_started g n"
| "metric_step WsLobbyDestroyed = ws_lobby_destroyed"
| "metric_step WsSignalRelayed = ws_signal_relayed"
| "metric_step (WsSignalDropped r) = ws_signal_dropped r"
| "metric_step AutomatchQueued = automatch_queued"
| "metric_step AutomatchPaired = automatch_paired"
| "metric_step AutomatchDodge = automatch_dodge"
| "metric_step HttpPlayerCreated = http_player_created"
| "metric_step HttpRoomCreated = http_room_created"
| "metric_step HttpRoomJoinOk = http_room_join_ok"
| "metric_step (HttpRoomJoinFail c) = http_room_join_fail c"
| "metric_step (HttpRoomStarted g n) = http_room_started g n"
| "metric_step HttpTurnCredentialsIssued = http_turn_credentials_issued"
| "metric_step (SetMatches s counts) = set_matches_by_game s counts"
| "metric_step (SetGauges a b c d e) = set_gauges a b c d e"
| "metric_step (InitLabels allowlist limit) = init_metrics allowlist limit"

definition run_metrics :: "MetricOp list \<Rightarrow> Metrics" where
  "run_metrics ops = foldl (\<lambda>M a. metric_step a M) fresh_metrics ops"

fun increment_of :: "string \<Rightarrow> (series_labels \<Rightarrow> bool) \<Rightarrow> Emission \<Rightarrow> 64 word" where
  "increment_of name P (Increment name' ls n) = (if name' = name \<and> P ls then n else 0)"
| "increment_of name P (SetGauge name' ls n) = 0"

definition counted :: "string \<Rightarrow> (series_labels \<Rightarrow> bool) \<Rightarrow> Emission list \<Rightarrow> 64 word" where
  "counted name P es = sum_list (map (increment_of name P) es)"

lemma counted_simps [simp]:
  "counted name P [] = 0" "counted name P (e # es) = increment_of name P e + counted name P es"
  "counted name P (es @ es') = counted name P es + counted name P es'"
  by (simp_all add: counted_def)

lemma counted_gauges [simp]: "counted name P (map (\<lambda>x. SetGauge (f x) (g x) (h x)) xs) = 0"
  by (induction xs) simp_all

lemma counted_gauges2 [simp]: "counted name P (map (\<lambda>(x, y). SetGauge (f x y) (g x y) (h x y)) xs) = 0"
  by (induction xs) auto

text \<open>The totals next to the counter series they mirror.\<close>

definition mirrored :: "Totals \<Rightarrow> (string \<times> 64 word) list" where
  "mirrored t =
     [(''recomp_ws_connects_total'', t_ws_connects t), (''recomp_ws_disconnects_total'', t_ws_disconnects t),
      (''recomp_ws_lobby_creates_total'', t_ws_lobby_creates t),
      (''recomp_ws_lobby_joins_total'', t_ws_lobby_joins t + t_ws_lobby_join_failures t),
      (''recomp_ws_lobby_starts_total'', t_ws_lobby_starts t),
      (''recomp_ws_lobby_destroys_total'', t_ws_lobby_destroys t), (''recomp_ws_signals_total'', t_ws_signals t),
      (''recomp_http_players_created_total'', t_http_players_created t),
      (''recomp_http_room_creates_total'', t_http_room_creates t),
      (''recomp_http_room_joins_total'', t_http_room_joins t + t_http_room_join_failures t),
      (''recomp_http_room_starts_total'', t_http_room_starts t),
      (''recomp_http_turn_credentials_total'', t_http_turn_credentials t)]"

definition totals_mirror :: "Metrics \<Rightarrow> bool" where
  "totals_mirror M \<longleftrightarrow>
     list_all (\<lambda>(name, n). counted name (\<lambda>_. True) (m_emitted M) = n) (mirrored (m_totals M))"

definition start_entry :: "Metrics \<Rightarrow> string \<times> string \<Rightarrow> MatchTotals" where
  "start_entry M k = unwrap_or (map_of (m_starts M) k) \<lparr>mt_starts = 0, mt_players = 0\<rparr>"

definition surface_starts :: "Metrics \<Rightarrow> string \<Rightarrow> 64 word" where
  "surface_starts M surface = sum_list (map (\<lambda>(game, t). mt_starts t) (match_starts_by_game surface M))"

definition starts_mirror :: "Metrics \<Rightarrow> bool" where
  "starts_mirror M \<longleftrightarrow>
     (\<forall>surface game.
        mt_starts (start_entry M (surface, game)) =
          counted ''recomp_match_starts_total'' (\<lambda>ls. ls = active_labels surface game) (m_emitted M) \<and>
        mt_players (start_entry M (surface, game)) =
          counted ''recomp_match_players_total'' (\<lambda>ls. ls = active_labels surface game) (m_emitted M)) \<and>
     t_ws_lobby_starts (m_totals M) = surface_starts M SURFACE_WS \<and>
     t_http_room_starts (m_totals M) = surface_starts M SURFACE_HTTP"

lemma sum_update:
  "sum_list (map f (AList.update k v m)) + (case map_of m k of None \<Rightarrow> 0 | Some w \<Rightarrow> f (k, w))
     = sum_list (map f m) + f (k, v)" for f :: "_ \<Rightarrow> 64 word"
  by (induction m) (auto simp: algebra_simps)

lemma surface_starts_sum:
  "surface_starts M surface = sum_list (map (\<lambda>((s, game), t). if s = surface then mt_starts t else 0) (m_starts M))"
proof -
  have "sum_list (map (\<lambda>(game, t). mt_starts t)
          (map (\<lambda>((s, game), t). (game, t)) (filter (\<lambda>((s, game), t). s = surface) m)))
      = sum_list (map (\<lambda>((s, game), t). if s = surface then mt_starts t else 0) m)"
    for m :: "(string \<times> string, MatchTotals) hashmap"
    by (induction m) auto
  then show ?thesis by (simp add: surface_starts_def match_starts_by_game_def)
qed

lemma surface_starts_add:
  "surface_starts (M\<lparr>m_starts := add_start (s, l) n m\<rparr>) surface
     = surface_starts (M\<lparr>m_starts := m\<rparr>) surface + (if s = surface then 1 else 0)"
proof -
  let ?f = "\<lambda>((s, game), t). if s = surface then mt_starts t else 0"
  let ?e = "unwrap_or (map_of m (s, l)) \<lparr>mt_starts = 0, mt_players = 0\<rparr>"
  have "sum_list (map ?f (add_start (s, l) n m)) + (if s = surface then mt_starts ?e else 0)
      = sum_list (map ?f m) + (if s = surface then mt_starts ?e + 1 else 0)"
    using sum_update [of ?f "(s, l)" "\<lparr>mt_starts = mt_starts ?e + 1, mt_players = mt_players ?e + n\<rparr>" m]
    by (cases "map_of m (s, l)"; cases "s = surface") (simp_all add: add_start_def Let_def algebra_simps)
  then show ?thesis by (cases "s = surface") (simp_all add: surface_starts_sum algebra_simps)
qed

lemma start_entry_add:
  "start_entry (M\<lparr>m_starts := add_start k n (m_starts M)\<rparr>) k' =
     (if k' = k then \<lparr>mt_starts = mt_starts (start_entry M k) + 1, mt_players = mt_players (start_entry M k) + n\<rparr>
      else start_entry M k')"
  by (auto simp: start_entry_def add_start_def Let_def)

lemmas metric_defs = ws_connected_def ws_disconnected_def ws_lobby_created_def ws_lobby_join_ok_def
  ws_lobby_join_fail_def ws_lobby_destroyed_def ws_signal_relayed_def ws_signal_dropped_def
  automatch_queued_def automatch_paired_def automatch_dodge_def http_player_created_def
  http_room_created_def http_room_join_ok_def http_room_join_fail_def http_turn_credentials_issued_def
  set_gauges_def init_metrics_def

text \<open>Publishing gauges, folding names and seeding labels touch neither totals nor starts.\<close>

lemma set_matches_frame [simp]:
  "m_totals (set_matches_by_game s c M) = m_totals M" "m_starts (set_matches_by_game s c M) = m_starts M"
  "counted name P (m_emitted (set_matches_by_game s c M)) = counted name P (m_emitted M)"
  by (simp_all add: set_matches_by_game_def case_prod_unfold Let_def)

lemma match_started_starts:
  "m_totals (match_started s game n M) = m_totals M"
  "m_starts (match_started s game n M) = add_start (s, fst (game_label (m_labels M) game)) (of_nat n) (m_starts M)"
  by (simp_all add: match_started_def case_prod_unfold Let_def)

lemma match_started_counted:
  "counted name P (m_emitted (match_started s game n M)) = counted name P (m_emitted M) +
     (if P (active_labels s (fst (game_label (m_labels M) game)))
      then (if name = ''recomp_match_starts_total'' then 1
            else if name = ''recomp_match_players_total'' then of_nat n else 0)
      else 0)"
  by (auto simp: match_started_def case_prod_unfold Let_def active_labels_def word_gt_0)

lemma surface_starts_cong: "m_starts M = m_starts M' \<Longrightarrow> surface_starts M s = surface_starts M' s"
  by (simp add: surface_starts_sum)

lemma start_entry_cong: "m_starts M = m_starts M' \<Longrightarrow> start_entry M k = start_entry M' k"
  by (simp add: start_entry_def)

lemma totals_mirror_step: "totals_mirror M \<Longrightarrow> totals_mirror (metric_step a M)"
  by (cases a)
    (simp_all add: totals_mirror_def mirrored_def metric_defs ws_lobby_started_def http_room_started_def
       match_started_starts match_started_counted)

lemma starts_mirror_started:
  assumes "starts_mirror M" "surface = SURFACE_WS \<or> surface = SURFACE_HTTP"
    and M': "m_starts M' = m_starts M" "m_labels M' = m_labels M"
      "\<And>name P. name = ''recomp_match_starts_total'' \<or> name = ''recomp_match_players_total'' \<Longrightarrow>
         counted name P (m_emitted M') = counted name P (m_emitted M)"
      "t_ws_lobby_starts (m_totals M') = t_ws_lobby_starts (m_totals M) + (if surface = SURFACE_WS then 1 else 0)"
      "t_http_room_starts (m_totals M') = t_http_room_starts (m_totals M) + (if surface = SURFACE_HTTP then 1 else 0)"
  shows "starts_mirror (match_started surface game n M')"
proof -
  let ?l = "fst (game_label (m_labels M') game)" and ?M = "match_started surface game n M'"
  have st: "m_starts ?M = m_starts (M'\<lparr>m_starts := add_start (surface, ?l) (of_nat n) (m_starts M')\<rparr>)"
    by (simp add: match_started_starts)
  have entry: "start_entry ?M k =
     (if k = (surface, ?l)
      then \<lparr>mt_starts = mt_starts (start_entry M k) + 1, mt_players = mt_players (start_entry M k) + of_nat n\<rparr>
      else start_entry M k)" for k
    using start_entry_cong [OF st] start_entry_add [where M = M' and k = "(surface, ?l)" and n = "of_nat n"] start_entry_cong [OF M'(1)] by simp
  have sum: "surface_starts ?M s = surface_starts M s + (if surface = s then 1 else 0)" for s
    using surface_starts_cong [OF st] surface_starts_add [where M = M' and s = surface and l = ?l and n = "of_nat n" and m = "m_starts M'" and surface = s]
      surface_starts_cong [OF M'(1)] by simp
  have inj: "active_labels s g = active_labels s' g' \<longleftrightarrow> s = s' \<and> g = g'" for s g s' g'
    by (auto simp: active_labels_def)
  show ?thesis
    using assms(1,2) unfolding starts_mirror_def entry sum
    by (auto simp: match_started_counted match_started_starts M' inj)
qed

lemma starts_mirror_frame:
  assumes "starts_mirror M" "m_starts M' = m_starts M"
    "t_ws_lobby_starts (m_totals M') = t_ws_lobby_starts (m_totals M)"
    "t_http_room_starts (m_totals M') = t_http_room_starts (m_totals M)"
    "\<And>name P. name = ''recomp_match_starts_total'' \<or> name = ''recomp_match_players_total'' \<Longrightarrow>
         counted name P (m_emitted M') = counted name P (m_emitted M)"
  shows "starts_mirror M'"
  using assms(1) unfolding starts_mirror_def start_entry_cong [OF assms(2)] surface_starts_cong [OF assms(2)]
  by (simp add: assms)

lemma starts_mirror_step: "starts_mirror M \<Longrightarrow> starts_mirror (metric_step a M)"
proof (cases a)
  case (WsLobbyStarted g n)
  assume "starts_mirror M"
  then show ?thesis
    unfolding WsLobbyStarted metric_step.simps ws_lobby_started_def
    by (rule starts_mirror_started) (auto simp: SURFACE_WS_def SURFACE_HTTP_def)
next
  case (HttpRoomStarted g n)
  assume "starts_mirror M"
  then show ?thesis
    unfolding HttpRoomStarted metric_step.simps http_room_started_def
    by (rule starts_mirror_started) (auto simp: SURFACE_WS_def SURFACE_HTTP_def)
qed (auto elim!: starts_mirror_frame simp: metric_defs)

lemma mirrors_fresh: "totals_mirror fresh_metrics" "starts_mirror fresh_metrics"
  by (simp_all add: totals_mirror_def starts_mirror_def mirrored_def fresh_metrics_def no_totals_def
        start_entry_def surface_starts_def match_starts_by_game_def)

lemma mirrors_run: "totals_mirror (run_metrics ops) \<and> starts_mirror (run_metrics ops)"
proof -
  have "totals_mirror (foldl (\<lambda>M a. metric_step a M) M ops) \<and> starts_mirror (foldl (\<lambda>M a. metric_step a M) M ops)"
    if "totals_mirror M" "starts_mirror M" for M
    using that by (induction ops arbitrary: M) (simp_all add: totals_mirror_step starts_mirror_step)
  then show ?thesis using mirrors_fresh by (simp add: run_metrics_def)
qed

lemma map_of_surface: "map_of (match_starts_by_game surface M) game = map_of (m_starts M) (surface, game)"
proof -
  have "map_of (map (\<lambda>((s, g), t). (g, t)) (filter (\<lambda>((s, g), t). s = surface) m)) game = map_of m (surface, game)"
    for m :: "(string \<times> string, MatchTotals) hashmap"
    by (induction m) auto
  then show ?thesis by (simp add: match_starts_by_game_def)
qed


subsection \<open>The gauge of running matches follows the last counts\<close>

fun gauge_step :: "string \<Rightarrow> series_labels \<Rightarrow> nat \<Rightarrow> Emission \<Rightarrow> nat" where
  "gauge_step name ls v (SetGauge name' ls' n) = (if name' = name \<and> ls' = ls then n else v)"
| "gauge_step name ls v (Increment name' ls' n) = v"

text \<open>The value a scrape sees, 0 for a series never set.\<close>

definition gauge_value :: "string \<Rightarrow> series_labels \<Rightarrow> Emission list \<Rightarrow> nat" where
  "gauge_value name ls es = foldl (gauge_step name ls) 0 es"

abbreviation active_gauge :: "string \<Rightarrow> string \<Rightarrow> Metrics \<Rightarrow> nat" where
  "active_gauge s l M \<equiv> gauge_value ''recomp_matches_active'' (active_labels s l) (m_emitted M)"

lemma active_labels_inj [simp]: "active_labels s g = active_labels s' g' \<longleftrightarrow> s = s' \<and> g = g'"
  by (auto simp: active_labels_def)

lemma gauge_value_append:
  "gauge_value name ls (es @ es') = foldl (gauge_step name ls) (gauge_value name ls es) es'"
  by (simp add: gauge_value_def)

lemma gauge_zeroed:
  "foldl (gauge_step N (active_labels s l)) v (map (\<lambda>(s, game). SetGauge N (active_labels s game) 0) ks)
     = (if (s, l) \<in> set ks then 0 else v)"
  by (induction ks arbitrary: v) (auto split: if_splits)

lemma gauge_published:
  "distinct (map fst m) \<Longrightarrow>
   foldl (gauge_step N (active_labels s l)) v (map (\<lambda>(game, n). SetGauge N (active_labels s' game) n) m)
     = (if s' = s then unwrap_or (map_of m l) v else v)"
proof (induction m arbitrary: v)
  case Nil
  then show ?case by simp
next
  case (Cons a m)
  obtain k n where a: "a = (k, n)" by force
  have "map_of m k = None" using Cons.prems a by (simp add: map_of_eq_None_iff)
  then show ?case using Cons a by auto
qed

lemma fold_counts_Cons [simp]:
  "fold_counts ((game, n) # counts) folded g =
     fold_counts counts
       (AList.update (fst (game_label g game)) (unwrap_or (map_of folded (fst (game_label g game))) 0 + n) folded)
       (snd (game_label g game))"
  by (simp add: case_prod_unfold Let_def)

declare fold_counts.simps(2) [simp del]

lemma fold_counts_extends: "extends g (snd (fold_counts counts folded g))"
proof (induction counts arbitrary: folded g)
  case (Cons c counts)
  obtain game n where c: "c = (game, n)" by force
  show ?case unfolding c fold_counts_Cons by (rule extends_trans [OF extends_game_label Cons.IH])
qed simp

lemma fold_counts_distinct:
  "distinct (map fst folded) \<Longrightarrow> distinct (map fst (fst (fold_counts counts folded g)))"
proof (induction counts arbitrary: folded g)
  case (Cons c counts)
  obtain game n where c: "c = (game, n)" by force
  show ?case unfolding c fold_counts_Cons by (rule Cons.IH [OF distinct_keys_update [OF Cons.prems]])
qed simp

lemma fold_counts_value:
  "unwrap_or (map_of (fst (fold_counts counts folded g)) l) 0 =
     unwrap_or (map_of folded l) 0 +
     sum_list (map snd (filter (\<lambda>(game, n). fst (game_label (snd (fold_counts counts folded g)) game) = l) counts))"
proof (induction counts arbitrary: folded g)
  case Nil
  then show ?case by simp
next
  case (Cons c counts)
  obtain game n where c: "c = (game, n)" by force
  have "fst (game_label (snd (fold_counts counts folded' (snd (game_label g game)))) game) = fst (game_label g game)"
    for folded' by (rule label_stays [OF fold_counts_extends])
  then show ?case unfolding c fold_counts_Cons Cons.IH by auto
qed

definition gauges_inv :: "Metrics \<Rightarrow> bool" where
  "gauges_inv M \<longleftrightarrow> (\<forall>s l. (s, l) \<in> set (m_active M) \<or> active_gauge s l M = 0)"

lemma set_matches_sel:
  "m_labels (set_matches_by_game s counts M) = snd (fold_counts counts [] (m_labels M))"
  "m_active (set_matches_by_game s counts M) = filter (\<lambda>(s', _). s' \<noteq> s) (m_active M) @
     map (\<lambda>(game, _). (s, game)) (fst (fold_counts counts [] (m_labels M)))"
  by (simp_all add: set_matches_by_game_def case_prod_unfold Let_def)

lemma active_gauge_set_matches:
  assumes "gauges_inv M"
  shows "active_gauge s' l (set_matches_by_game s counts M) =
     (if s' = s then unwrap_or (map_of (fst (fold_counts counts [] (m_labels M))) l) 0 else active_gauge s' l M)"
proof -
  obtain f g where fc: "fold_counts counts [] (m_labels M) = (f, g)" by force
  have d: "distinct (map fst f)" using fold_counts_distinct [of "[]" counts "m_labels M"] by (simp add: fc)
  show ?thesis
    using assms
    by (cases "map_of f l")
      (auto simp: set_matches_by_game_def fc gauge_value_append gauge_zeroed gauge_published [OF d] gauges_inv_def)
qed

lemma gauges_inv_set_matches:
  assumes "gauges_inv M"
  shows "gauges_inv (set_matches_by_game s counts M)"
  unfolding gauges_inv_def
proof (intro allI)
  fix s' l
  let ?f = "fst (fold_counts counts [] (m_labels M))"
  have inv: "(s', l) \<in> set (m_active M) \<or> active_gauge s' l M = 0"
    using assms by (simp add: gauges_inv_def)
  show "(s', l) \<in> set (m_active (set_matches_by_game s counts M)) \<or>
      active_gauge s' l (set_matches_by_game s counts M) = 0"
  proof (cases "s' = s \<and> map_of ?f l \<noteq> None")
    case True
    then obtain n where "(l, n) \<in> set ?f" by (auto dest: map_of_SomeD)
    then have "(s', l) \<in> set (map (\<lambda>(game, _). (s, game)) ?f)" using True by force
    then show ?thesis by (simp add: set_matches_sel)
  next
    case False
    then show ?thesis using inv by (auto simp: active_gauge_set_matches [OF assms] set_matches_sel)
  qed
qed

lemma gauges_inv_frame:
  "gauges_inv M \<Longrightarrow> m_active M' = m_active M \<Longrightarrow>
   m_emitted M' = m_emitted M @ es \<Longrightarrow>
   list_all (\<lambda>e. \<forall>ls v. gauge_step ''recomp_matches_active'' ls v e = v) es \<Longrightarrow> gauges_inv M'"
proof -
  assume *: "gauges_inv M" "m_active M' = m_active M" "m_emitted M' = m_emitted M @ es"
    "list_all (\<lambda>e. \<forall>ls v. gauge_step ''recomp_matches_active'' ls v e = v) es"
  have "foldl (gauge_step ''recomp_matches_active'' ls) v es = v" for ls v
    using *(4) by (induction es arbitrary: v) auto
  then show ?thesis using * by (simp add: gauges_inv_def gauge_value_append)
qed

lemma gauges_inv_step: "gauges_inv M \<Longrightarrow> gauges_inv (metric_step a M)"
  by (cases a)
    (auto simp: gauges_inv_set_matches metric_defs ws_lobby_started_def http_room_started_def match_started_def
       case_prod_unfold Let_def elim!: gauges_inv_frame)

lemma gauges_inv_run: "gauges_inv (run_metrics ops)"
proof -
  have "gauges_inv (foldl (\<lambda>M a. metric_step a M) M ops)" if "gauges_inv M" for M
    using that by (induction ops arbitrary: M) (simp_all add: gauges_inv_step)
  moreover have "gauges_inv fresh_metrics" by (simp add: gauges_inv_def fresh_metrics_def gauge_value_def)
  ultimately show ?thesis by (simp add: run_metrics_def)
qed

text \<open>
  The gauge of running matches never freezes at an old value: after any sequence of calls
  into the module, \<open>set_matches_by_game\<close> leaves on each label of its surface exactly the sum of
  the counts whose names fold onto that label, so 0 on a label whose game has stopped, and
  changes no label of the other surface.
\<close>

theorem the_match_gauge_follows_the_counts:
  "let M = run_metrics ops; M' = set_matches_by_game surface counts M;
       gauge = (\<lambda>s l X. gauge_value ''recomp_matches_active'' [(''surface'', s), (''game'', l)] (m_emitted X))
   in gauge surface label M' =
        sum_list (map snd (filter (\<lambda>(game, n). fst (game_label (m_labels M') game) = label) counts)) \<and>
      (s = surface \<or> gauge s label M' = gauge s label M)"
  using active_gauge_set_matches [OF gauges_inv_run, of _ label surface counts ops]
    fold_counts_value [of counts "[]" "m_labels (run_metrics ops)" label]
  by (simp add: Let_def active_labels_def set_matches_sel)

subsection \<open>Descriptions of the series\<close>

datatype MetricKind = Counter | Gauge

definition describe :: "(MetricKind \<times> string \<times> string) list" where
  "describe =
     [(Counter, ''recomp_ws_connects_total'', ''WebSocket lobby clients that completed welcome''),
      (Counter, ''recomp_ws_disconnects_total'', ''WebSocket lobby clients that disconnected''),
      (Counter, ''recomp_ws_lobby_creates_total'', ''Successful WebSocket lobby creates''),
      (Counter, ''recomp_automatch_queued_total'', ''Automatch tickets accepted into the queue''),
      (Counter, ''recomp_automatch_pairs_total'', ''Automatch pairs offered at the accept gate''),
      (Counter, ''recomp_automatch_dodges_total'', ''Automatch accept-gate declines and timeouts''),
      (Counter, ''recomp_ws_lobby_joins_total'', ''WebSocket lobby join attempts by result''),
      (Counter, ''recomp_ws_lobby_starts_total'', ''Successful WebSocket match starts''),
      (Counter, ''recomp_ws_lobby_destroys_total'', ''WebSocket lobbies destroyed''),
      (Counter, ''recomp_ws_signals_total'', ''WebSocket ICE signal relay messages''),
      (Counter, ''recomp_http_players_created_total'', ''HTTP /v1 players created''),
      (Counter, ''recomp_http_room_creates_total'', ''Successful HTTP /v1 room creates''),
      (Counter, ''recomp_http_room_joins_total'', ''HTTP /v1 room join attempts by result''),
      (Counter, ''recomp_http_room_starts_total'', ''HTTP /v1 rooms marked running''),
      (Counter, ''recomp_http_turn_credentials_total'', ''TURN credentials minted''),
      (Gauge, ''recomp_ws_clients'', ''Currently connected WebSocket lobby clients''),
      (Gauge, ''recomp_ws_lobbies'', ''Currently open WebSocket lobbies''),
      (Gauge, ''recomp_ws_matches'', ''WebSocket lobbies that have started a match''),
      (Gauge, ''recomp_http_rooms'', ''Currently open HTTP /v1 rooms''),
      (Gauge, ''recomp_http_rooms_running'', ''HTTP /v1 rooms marked running''),
      (Counter, ''recomp_match_starts_total'', ''Matches started, by surface and bounded game label''),
      (Counter, ''recomp_match_players_total'', ''Seated players summed over match starts, by surface and game''),
      (Gauge, ''recomp_matches_active'', ''Matches currently in progress, by surface and game'')]"

fun kind_and_name :: "Emission \<Rightarrow> MetricKind \<times> string" where
  "kind_and_name (Increment name ls n) = (Counter, name)"
| "kind_and_name (SetGauge name ls n) = (Gauge, name)"

definition described :: "(MetricKind \<times> string) list" where
  "described = map (\<lambda>(kind, name, help). (kind, name)) describe"

lemma described_facts [simp]:
  "(Counter, ''recomp_ws_connects_total'') \<in> set described"
  "(Counter, ''recomp_ws_disconnects_total'') \<in> set described"
  "(Counter, ''recomp_ws_lobby_creates_total'') \<in> set described"
  "(Counter, ''recomp_automatch_queued_total'') \<in> set described"
  "(Counter, ''recomp_automatch_pairs_total'') \<in> set described"
  "(Counter, ''recomp_automatch_dodges_total'') \<in> set described"
  "(Counter, ''recomp_ws_lobby_joins_total'') \<in> set described"
  "(Counter, ''recomp_ws_lobby_starts_total'') \<in> set described"
  "(Counter, ''recomp_ws_lobby_destroys_total'') \<in> set described"
  "(Counter, ''recomp_ws_signals_total'') \<in> set described"
  "(Counter, ''recomp_http_players_created_total'') \<in> set described"
  "(Counter, ''recomp_http_room_creates_total'') \<in> set described"
  "(Counter, ''recomp_http_room_joins_total'') \<in> set described"
  "(Counter, ''recomp_http_room_starts_total'') \<in> set described"
  "(Counter, ''recomp_http_turn_credentials_total'') \<in> set described"
  "(Gauge, ''recomp_ws_clients'') \<in> set described"
  "(Gauge, ''recomp_ws_lobbies'') \<in> set described"
  "(Gauge, ''recomp_ws_matches'') \<in> set described"
  "(Gauge, ''recomp_http_rooms'') \<in> set described"
  "(Gauge, ''recomp_http_rooms_running'') \<in> set described"
  "(Counter, ''recomp_match_starts_total'') \<in> set described"
  "(Counter, ''recomp_match_players_total'') \<in> set described"
  "(Gauge, ''recomp_matches_active'') \<in> set described"
  "(Counter, ''recomp_ws_signals_dropped_total'') \<notin> set described"
  by (simp_all add: described_def describe_def)

text \<open>Every series the module emits is described with its kind, except the counter of refused
  signals, which \<open>describe\<close> leaves out.\<close>

lemma set_matches_described:
  "\<forall>e \<in> set (m_emitted M). kind_and_name e \<in> set described \<Longrightarrow>
   e \<in> set (m_emitted (set_matches_by_game s counts M)) \<Longrightarrow> kind_and_name e \<in> set described"
  by (auto simp: set_matches_by_game_def case_prod_unfold Let_def)

lemma emissions_are_described:
  "\<forall>e \<in> set (m_emitted M). kind_and_name e \<in> set described \<Longrightarrow>
   (\<forall>e \<in> set (m_emitted (metric_step a M)). kind_and_name e \<in> set described) = (\<forall>r. a \<noteq> WsSignalDropped r)"
  by (cases a)
    (simp_all add: set_matches_described metric_defs ws_lobby_started_def http_room_started_def
       match_started_def case_prod_unfold Let_def ball_Un)

text \<open>Only the underscore collapses: other separators are kept in runs, and at the front.\<close>

lemma only_underscores_collapse:
  "normalize_game ''a  b__c'' = ''a_b_c''" "normalize_game ''a--b..c'' = ''a--b..c''" "normalize_game ''-a'' = ''-a''"
  by (simp_all add: normalize_game_def chars_def trim_chars_def GAME_LABEL_MAX_LEN_def rust_simps Let_def char_of_def bit_0)

end
