(* ===== verification/Service.thy ===== *)
theory Service
  imports Http_Login Server_Step Metrics
begin

text \<open>
  The process as a whole (src/main.rs): the shared state of the lobby server, the HTTP interface
  and the usage counters, what they are at start, the background tasks (the janitor of the HTTP
  rooms, the automatch driver, the retention sweep), and the pages that report on the service:
  \<^verbatim>\<open>/health\<close>, \<^verbatim>\<open>/stats\<close>, the rows of \<^verbatim>\<open>/stats/ui\<close> and the gauges of \<^verbatim>\<open>/metrics\<close>.

  The handlers of the HTTP interface report to the counters where the code does
  (\<open>request_metrics\<close>); the calls from inside the lobby handlers are not threaded through the
  hub, they are events of their own that may come at any time.
\<close>

record App =
  ap_server :: Server
  ap_web :: Web
  ap_metrics :: Metrics

subsection \<open>Counts by game\<close>

definition client_count :: "Hub \<Rightarrow> nat" where
  "client_count g = length (h_clients g)"

definition lobby_counts_by_game :: "Hub \<Rightarrow> (string, nat) hashmap" where
  "lobby_counts_by_game g = foldl (\<lambda>out l. count_game (lb_game l) out) [] (vals (h_lobbies g))"

definition match_counts_by_game :: "Hub \<Rightarrow> (string, nat) hashmap" where
  "match_counts_by_game g =
     foldl (\<lambda>out l. count_game (lb_game l) out) [] (filter lb_started (vals (h_lobbies g)))"

definition room_count :: "registry \<Rightarrow> nat" where
  "room_count g = length g"

lemma sum_count_game: "sum_list (map snd (count_game k m)) = Suc (sum_list (map snd m))"
proof -
  have "sum_list (map snd (AList.update k (unwrap_or (map_of m k) 0 + 1) m)) = Suc (sum_list (map snd m))"
    by (induction m) auto
  then show ?thesis by (simp add: count_game_def)
qed

lemma map_of_count_game:
  "unwrap_or (map_of (count_game k m) x) 0 = unwrap_or (map_of m x) 0 + (if x = k then 1 else 0)"
  by (simp add: count_game_def)

lemma sum_counts:
  "sum_list (map snd (foldl (\<lambda>out r. count_game (f r) out) out rs)) = sum_list (map snd out) + length rs"
  by (induction rs arbitrary: out) (simp_all add: sum_count_game)

lemma counts_value:
  "unwrap_or (map_of (foldl (\<lambda>out r. count_game (f r) out) out rs) x) 0 =
     unwrap_or (map_of out x) 0 + length (filter (\<lambda>r. f r = x) rs)"
  by (induction rs arbitrary: out) (auto simp: map_of_count_game)

lemma counts_distinct:
  "distinct (map fst out) \<Longrightarrow> distinct (map fst (foldl (\<lambda>out r. count_game (f r) out) out rs))"
  by (induction rs arbitrary: out) (auto simp: count_game_def intro: distinct_keys_update)

subsection \<open>The statistics\<close>

record LiveCounts =
  lc_ws_clients :: nat
  lc_ws_lobbies :: nat
  lc_ws_matches :: nat
  lc_ws_lobbies_by_game :: "(string, nat) hashmap"
  lc_ws_matches_by_game :: "(string, nat) hashmap"
  lc_http_rooms :: nat
  lc_http_rooms_running :: nat
  lc_http_rooms_by_game :: "(string, nat) hashmap"
  lc_http_rooms_running_by_game :: "(string, nat) hashmap"

definition live_counts :: "App \<Rightarrow> LiveCounts" where
  "live_counts a =
     (let g = sv_hub (ap_server a); rooms = wb_rooms (ap_web a)
      in \<lparr>lc_ws_clients = client_count g, lc_ws_lobbies = lobby_count g, lc_ws_matches = match_count g,
          lc_ws_lobbies_by_game = lobby_counts_by_game g, lc_ws_matches_by_game = match_counts_by_game g,
          lc_http_rooms = room_count rooms, lc_http_rooms_running = running_count rooms,
          lc_http_rooms_by_game = counts_by_game rooms,
          lc_http_rooms_running_by_game = running_counts_by_game rooms\<rparr>)"

definition refresh_gauges :: "App \<Rightarrow> App \<times> LiveCounts" where
  "refresh_gauges a =
     (let n = live_counts a;
          m1 = set_gauges (lc_ws_clients n) (lc_ws_lobbies n) (lc_ws_matches n) (lc_http_rooms n)
                 (lc_http_rooms_running n) (ap_metrics a);
          m2 = set_matches_by_game SURFACE_WS (lc_ws_matches_by_game n) m1;
          m3 = set_matches_by_game SURFACE_HTTP (lc_http_rooms_running_by_game n) m2
      in (a\<lparr>ap_metrics := m3\<rparr>, n))"

record StatsSnapshot =
  ss_live :: LiveCounts
  ss_ws_lobbies_waiting :: nat
  ss_ws_match_starts_by_game :: "(string, MatchTotals) hashmap"
  ss_http_match_starts_by_game :: "(string, MatchTotals) hashmap"
  ss_totals :: Totals

text \<open>\<^verbatim>\<open>saturating_sub\<close> is subtraction of naturals.\<close>

definition stats_handler :: "App \<Rightarrow> App \<times> StatsSnapshot" where
  "stats_handler a =
     (let (a', live) = refresh_gauges a
      in (a', \<lparr>ss_live = live, ss_ws_lobbies_waiting = lc_ws_lobbies live - lc_ws_matches live,
               ss_ws_match_starts_by_game = match_starts_by_game SURFACE_WS (ap_metrics a'),
               ss_http_match_starts_by_game = match_starts_by_game SURFACE_HTTP (ap_metrics a'),
               ss_totals = totals (ap_metrics a')\<rparr>))"

record HealthResponse =
  hr_status :: string
  hr_require_auth :: bool
  hr_jwt_configured :: bool
  hr_database_configured :: bool
  hr_turn_configured :: bool

definition health :: "Config \<Rightarrow> environment \<Rightarrow> HealthResponse" where
  "health c vars = \<lparr>hr_status = ''ok'', hr_require_auth = cfg_require_auth c,
     hr_jwt_configured = (jwt_secret_current c \<noteq> None), hr_database_configured = True,
     hr_turn_configured = (turn_from_env vars \<noteq> None)\<rparr>"

text \<open>One row that the script of \<^verbatim>\<open>/stats/ui\<close> puts into the table of live games.\<close>

definition stats_row :: "string \<Rightarrow> string \<times> nat \<Rightarrow> string" where
  "stats_row surface r = ''<tr><td>'' @ surface @ ''</td><td>'' @ fst r @ ''</td><td>'' @ show_nat (snd r) @ ''</td></tr>''"

definition stats_rows :: "string \<Rightarrow> (string, nat) hashmap \<Rightarrow> string" where
  "stats_rows surface m = concat (map (stats_row surface) m)"

definition games_table :: "StatsSnapshot \<Rightarrow> string" where
  "games_table s =
     (let n = ss_live s;
          g = stats_rows ''ws'' (lc_ws_lobbies_by_game n) @ stats_rows ''ws-match'' (lc_ws_matches_by_game n) @
              stats_rows ''http'' (lc_http_rooms_by_game n) @ stats_rows ''http-running'' (lc_http_rooms_running_by_game n)
      in if g = [] then ''<tr><td colspan=\"3\">none</td></tr>'' else g)"

subsection \<open>Start and background tasks\<close>

text \<open>What the database holds when the process starts; all other state begins empty.\<close>

record Database =
  db_players :: players
  db_secrets :: secrets
  db_history :: History
  db_reports :: "report_row list"

definition start_app :: "Config \<Rightarrow> Database \<Rightarrow> App" where
  "start_app c db =
     \<lparr>ap_server = (empty_server (cfg_discord_required c))\<lparr>sv_history := db_history db, sv_reports := db_reports db\<rparr>,
      ap_web = \<lparr>wb_rooms = [], wb_signals = [], wb_players = db_players db, wb_secrets = db_secrets db, wb_challenges = [],
        wb_logins = []\<rparr>,
      ap_metrics = init_metrics (game_allowlist c) (metrics_game_label_limit c) fresh_metrics\<rparr>"

text \<open>The word list in force: a cell that the start fills once, from the built-in list and the operator's
  own when that can be read; whoever asks before finds the built-in list.\<close>

definition init_filter :: "string \<Rightarrow> bool \<Rightarrow> string option \<Rightarrow> ChatFilter option \<Rightarrow> ChatFilter option" where
  "init_filter builtin en extra cell =
     (let text = builtin @ (case extra of Some t \<Rightarrow> [char_of (10::nat)] @ t | None \<Rightarrow> [])
      in case cell of None \<Rightarrow> Some (parse text en) | Some f \<Rightarrow> Some f)"

definition filter_in_force :: "string \<Rightarrow> ChatFilter option \<Rightarrow> ChatFilter" where
  "filter_in_force builtin cell = (case cell of Some f \<Rightarrow> f | None \<Rightarrow> parse builtin True)"

definition apply_filter :: "string \<Rightarrow> ChatFilter option \<Rightarrow> string \<Rightarrow> string" where
  "apply_filter builtin cell text = mask (filter_in_force builtin cell) text"

definition filter_enabled :: "string \<Rightarrow> ChatFilter option \<Rightarrow> bool" where
  "filter_enabled builtin cell = enabled (filter_in_force builtin cell)"

lemma split_on_join: "split_on d (a @ d # b) = split_on d a @ split_on d b"
proof (induction a)
  case (Cons c a)
  have "split_on d a \<noteq> []" by (induction a) (simp_all split: list.split)
  then obtain p ps where "split_on d a = p # ps" by (cases "split_on d a") auto
  then show ?case using Cons by simp
qed simp

lemma split_on_nonempty: "split_on d s \<noteq> []"
  by (induction s) (simp_all split: list.split)

lemma parse_words:
  "words (parse text en) = List.map_filter parse_line (split_on (char_of (10::nat)) text)"
proof -
  have "List.map_filter parse_line (butlast ps) = List.map_filter parse_line ps" if "ps \<noteq> []" "last ps = []" for ps
  proof -
    have "List.map_filter parse_line ps = List.map_filter parse_line (butlast ps @ [[]])"
      using append_butlast_last_id [OF that(1)] that(2) by simp
    also have "\<dots> = List.map_filter parse_line (butlast ps)"
      by (simp add: List.map_filter_def parse_line_def trim_end_cr_def)
    finally show ?thesis by simp
  qed
  then show ?thesis by (simp add: parse_def text_lines_def Let_def split_on_nonempty)
qed

text \<open>The operator's list adds to the built-in one and takes nothing from it, and a second start of
  the filter changes nothing.\<close>

lemma extra_words_add:
  "\<exists>f. init_filter builtin en (Some extra) None = Some f \<and>
     words f = words (parse builtin en) @ words (parse extra en) \<and> enabled f = en \<and>
     init_filter builtin' en' extra' (Some f) = Some f"
  by (simp add: init_filter_def parse_words split_on_join List.map_filter_def) (simp add: parse_def)

definition automatch_on :: "Rulesets \<Rightarrow> bool" where
  "automatch_on rs \<longleftrightarrow> rs \<noteq> []"

definition janitor :: "instant \<Rightarrow> Config \<Rightarrow> App \<Rightarrow> App" where
  "janitor t c a =
     a\<lparr>ap_web := (ap_web a)\<lparr>wb_rooms :=
          purge_stale t (int (heartbeat_timeout_secs c)) (int (room_idle_secs c)) (wb_rooms (ap_web a))\<rparr>\<rparr>"

definition sweep :: "int \<Rightarrow> Config \<Rightarrow> App \<Rightarrow> App" where
  "sweep t c a =
     a\<lparr>ap_server := (ap_server a)\<lparr>sv_history :=
          fst (prune t (automatch_retention_days c) (automatch_rematch_cooldown_secs c) (sv_history (ap_server a)))\<rparr>\<rparr>"

text \<open>What a request reports to the counters: room creation, joins with their result, starts and
  relay credentials.\<close>

definition request_metrics :: "WebEnv \<Rightarrow> Headers \<Rightarrow> room_request \<Rightarrow> Web \<Rightarrow> MetricOp list" where
  "request_metrics e h req w =
     (case req of
        CreateRoom body \<Rightarrow> (case snd (create_room e h body w) of Inr _ \<Rightarrow> [HttpRoomCreated] | Inl _ \<Rightarrow> [])
      | JoinRoom rid game ver code \<Rightarrow>
          (case require_auth e h w of
             Inl _ \<Rightarrow> []
           | Inr p \<Rightarrow> (case snd (join (we_now e) rid p game ver code (wb_rooms w)) of
                         Inr _ \<Rightarrow> [HttpRoomJoinOk] | Inl err \<Rightarrow> [HttpRoomJoinFail (room_error_code err)]))
      | StartRoom rid \<Rightarrow>
          (case require_auth e h w of
             Inl _ \<Rightarrow> []
           | Inr p \<Rightarrow> (case snd (mark_running (we_now e) rid p (wb_rooms w)) of
                         Inr r \<Rightarrow> [HttpRoomStarted (game_id r) (length (Rooms.members r))] | Inl _ \<Rightarrow> []))
      | TurnCreds \<Rightarrow> (case snd (turn_creds e h w) of Inr _ \<Rightarrow> [HttpTurnCredentialsIssued] | Inl _ \<Rightarrow> [])
      | _ \<Rightarrow> [])"

definition on_metrics :: "MetricOp list \<Rightarrow> App \<Rightarrow> App" where
  "on_metrics ops a = a\<lparr>ap_metrics := foldl (\<lambda>M op. metric_step op M) (ap_metrics a) ops\<rparr>"

definition on_request :: "WebEnv \<Rightarrow> Headers \<Rightarrow> room_request \<Rightarrow> App \<Rightarrow> App" where
  "on_request e h req a =
     on_metrics (request_metrics e h req (ap_web a)) (a\<lparr>ap_web := serve e h req (ap_web a)\<rparr>)"

definition on_create_player :: "WebEnv \<Rightarrow> App \<Rightarrow> App" where
  "on_create_player e a =
     (case create_player_http e (ap_web a) of
        (w, Inr _) \<Rightarrow> on_metrics [HttpPlayerCreated] (a\<lparr>ap_web := w\<rparr>)
      | (w, Inl _) \<Rightarrow> a\<lparr>ap_web := w\<rparr>)"

definition event_metrics :: "event \<Rightarrow> MetricOp list" where
  "event_metrics ev = (case ev of Connect p ip country \<Rightarrow> [WsConnected] | Disconnect p \<Rightarrow> [WsDisconnected] | _ \<Rightarrow> [])"

definition on_event :: "ServerEnv \<Rightarrow> event \<Rightarrow> App \<Rightarrow> App" where
  "on_event e ev a = on_metrics (event_metrics ev) (a\<lparr>ap_server := exec e ev (ap_server a)\<rparr>)"

text \<open>States of the process: lobby events, requests, players, the background tasks, calls into
  the counters and scrapes, in any order.\<close>

inductive running :: "Config \<Rightarrow> Database \<Rightarrow> App \<Rightarrow> bool" for c db where
  run_start: "running c db (start_app c db)"
| run_event: "running c db a \<Longrightarrow> allowed e ev (ap_server a) \<Longrightarrow> running c db (on_event e ev a)"
| run_request: "running c db a \<Longrightarrow> map_of (wb_rooms (ap_web a)) (we_id e) = None \<Longrightarrow>
    running c db (on_request e h req a)"
| run_player: "running c db a \<Longrightarrow> running c db (on_create_player e a)"
| run_janitor: "running c db a \<Longrightarrow> running c db (janitor t c a)"
| run_sweep: "running c db a \<Longrightarrow> running c db (sweep t c a)"
| run_metric: "running c db a \<Longrightarrow> running c db (on_metrics ops a)"
| run_scrape: "running c db a \<Longrightarrow> running c db (fst (refresh_gauges a))"

text \<open>The counters of a running process are those of a sequence of calls.\<close>

lemma run_metrics_append: "foldl (\<lambda>M op. metric_step op M) (run_metrics ops) ops' = run_metrics (ops @ ops')"
  by (simp add: run_metrics_def)

lemma on_metrics_sel [simp]:
  "ap_server (on_metrics ops a) = ap_server a" "ap_web (on_metrics ops a) = ap_web a"
  "ap_metrics (on_metrics ops a) = foldl (\<lambda>M op. metric_step op M) (ap_metrics a) ops"
  by (simp_all add: on_metrics_def)

lemma refresh_gauges_ops:
  "ap_metrics (fst (refresh_gauges a)) =
     foldl (\<lambda>M op. metric_step op M) (ap_metrics a)
       [SetGauges (lc_ws_clients (live_counts a)) (lc_ws_lobbies (live_counts a)) (lc_ws_matches (live_counts a))
          (lc_http_rooms (live_counts a)) (lc_http_rooms_running (live_counts a)),
        SetMatches SURFACE_WS (lc_ws_matches_by_game (live_counts a)),
        SetMatches SURFACE_HTTP (lc_http_rooms_running_by_game (live_counts a))]"
  "ap_server (fst (refresh_gauges a)) = ap_server a" "ap_web (fst (refresh_gauges a)) = ap_web a"
  "snd (refresh_gauges a) = live_counts a"
  by (simp_all add: refresh_gauges_def Let_def)

definition app_ok :: "App \<Rightarrow> bool" where
  "app_ok a \<longleftrightarrow> server_ok (ap_server a) \<and> registry_inv (wb_rooms (ap_web a)) \<and> (\<exists>ops. ap_metrics a = run_metrics ops)"

lemma app_ok_metrics: "app_ok a \<Longrightarrow> app_ok (on_metrics ops a)"
  by (auto simp: app_ok_def run_metrics_append)

lemma app_ok_start: "app_ok (start_app c db)"
proof -
  have "init_metrics (game_allowlist c) (metrics_game_label_limit c) fresh_metrics =
      run_metrics [InitLabels (game_allowlist c) (metrics_game_label_limit c)]"
    by (simp add: run_metrics_def)
  moreover have "server_ok (empty_server (cfg_discord_required c))" by (rule reachable_ok [OF reachable.start])
  ultimately show ?thesis by (auto simp: app_ok_def server_ok_def start_app_def registry_inv_def)
qed

lemma app_ok_request:
  assumes "app_ok a" "map_of (wb_rooms (ap_web a)) (we_id e) = None"
  shows "app_ok (on_request e h req a)"
proof -
  have "registry_inv (wb_rooms (serve e h req (ap_web a)))"
  proof (cases "require_auth e h (ap_web a)")
    case (Inl err)
    then show ?thesis using assms(1) by (simp add: serve_refused app_ok_def)
  next
    case (Inr p)
    from serve_rooms [OF Inr assms(2), of req] show ?thesis
      using assms(1) by (auto simp: app_ok_def intro: handler_step_inv player_step_handler)
  qed
  then show ?thesis
    unfolding on_request_def using assms(1) by (intro app_ok_metrics) (simp add: app_ok_def)
qed

lemma app_ok_refresh: "app_ok a \<Longrightarrow> app_ok (fst (refresh_gauges a))"
  unfolding app_ok_def refresh_gauges_ops by (auto simp only: run_metrics_append)

lemma create_player_rooms: "wb_rooms (fst (create_player_http e w)) = wb_rooms w"
  by (simp add: create_player_http_def)

lemma running_ok: "running c db a \<Longrightarrow> app_ok a"
proof (induction rule: running.induct)
  case run_start
  then show ?case by (rule app_ok_start)
next
  case (run_event a e ev)
  then show ?case
    unfolding on_event_def by (intro app_ok_metrics) (simp add: app_ok_def exec_ok)
next
  case (run_request a e h req)
  then show ?case by (simp add: app_ok_request)
next
  case (run_player a e)
  obtain w r where c: "create_player_http e (ap_web a) = (w, r)" by force
  have "app_ok (a\<lparr>ap_web := w\<rparr>)"
    using run_player.IH create_player_rooms [of e "ap_web a"] by (simp add: app_ok_def c)
  then show ?case by (cases r) (simp_all add: on_create_player_def c app_ok_metrics)
next
  case (run_janitor a t)
  then show ?case by (simp add: app_ok_def janitor_def registry_inv_purge)
next
  case (run_sweep a t)
  then show ?case by (simp add: app_ok_def sweep_def)
next
  case (run_metric a ops)
  then show ?case by (simp add: app_ok_metrics)
next
  case (run_scrape a)
  then show ?case by (simp add: app_ok_refresh)
qed

subsection \<open>The statistics add up\<close>

text \<open>Counts and their breakdown by game.\<close>

definition broken_down :: "(string, nat) hashmap \<Rightarrow> nat \<Rightarrow> bool" where
  "broken_down m k \<longleftrightarrow> distinct (map fst m) \<and> sum_list (map snd m) = k"

lemma broken_down_counts: "broken_down (foldl (\<lambda>out r. count_game (f r) out) [] rs) (length rs)"
  using counts_distinct [of "[]"] by (simp add: broken_down_def sum_counts)

lemma length_vals [simp]: "length (vals m) = length m"
  by (simp add: vals_def)

lemma live_broken_down:
  "broken_down (lc_ws_lobbies_by_game (live_counts a)) (lc_ws_lobbies (live_counts a))"
  "broken_down (lc_ws_matches_by_game (live_counts a)) (lc_ws_matches (live_counts a))"
  "broken_down (lc_http_rooms_by_game (live_counts a)) (lc_http_rooms (live_counts a))"
  "broken_down (lc_http_rooms_running_by_game (live_counts a)) (lc_http_rooms_running (live_counts a))"
  using broken_down_counts [of lb_game "vals (h_lobbies (sv_hub (ap_server a)))"]
    broken_down_counts [of lb_game "filter lb_started (vals (h_lobbies (sv_hub (ap_server a))))"]
    broken_down_counts [of game_id "vals (wb_rooms (ap_web a))"]
    broken_down_counts [of game_id "filter (\<lambda>r. status r = Running) (vals (wb_rooms (ap_web a)))"]
  by (simp_all add: live_counts_def Let_def lobby_counts_by_game_def match_counts_by_game_def counts_by_game_def
        running_counts_by_game_def lobby_count_def match_count_def room_count_def running_count_def)

lemma length_filter_conj_le: "length (filter (\<lambda>x. P x \<and> Q x) xs) \<le> length (filter Q xs)"
  by (induction xs) auto

lemma matches_within_lobbies:
  "unwrap_or (map_of (lc_ws_matches_by_game (live_counts a)) game) 0 \<le>
   unwrap_or (map_of (lc_ws_lobbies_by_game (live_counts a)) game) 0"
  by (simp add: live_counts_def Let_def lobby_counts_by_game_def match_counts_by_game_def counts_value
       length_filter_conj_le)

lemma matches_le: "lc_ws_matches (live_counts a) \<le> lc_ws_lobbies (live_counts a)"
  by (simp add: live_counts_def Let_def match_count_def lobby_count_def) (metis length_filter_le length_vals)

text \<open>The plain gauges after a refresh: the later publications are of another series.\<close>

lemma gauge_other_series:
  "name \<noteq> ''recomp_matches_active'' \<Longrightarrow>
   gauge_value name ls (m_emitted (set_matches_by_game s c M)) = gauge_value name ls (m_emitted M)"
proof -
  assume n: "name \<noteq> ''recomp_matches_active''"
  have "foldl (gauge_step name ls) v (map (\<lambda>x. SetGauge ''recomp_matches_active'' (f x) (k x)) xs) = v"
    for v f k and xs :: "(string \<times> string) list"
    using n by (induction xs arbitrary: v) auto
  moreover have "foldl (gauge_step name ls) v (map (\<lambda>x. SetGauge ''recomp_matches_active'' (f x) (k x)) xs) = v"
    for v f k and xs :: "(string \<times> nat) list"
    using n by (induction xs arbitrary: v) auto
  ultimately show ?thesis
    by (simp add: set_matches_by_game_def case_prod_unfold Let_def gauge_value_append)
qed

lemma gauge_set_gauges:
  "gauge_value ''recomp_ws_clients'' [] (m_emitted (set_gauges a b c d e M)) = a"
  "gauge_value ''recomp_ws_lobbies'' [] (m_emitted (set_gauges a b c d e M)) = b"
  "gauge_value ''recomp_ws_matches'' [] (m_emitted (set_gauges a b c d e M)) = c"
  "gauge_value ''recomp_http_rooms'' [] (m_emitted (set_gauges a b c d e M)) = d"
  "gauge_value ''recomp_http_rooms_running'' [] (m_emitted (set_gauges a b c d e M)) = e"
  by (simp_all add: set_gauges_def gauge_value_append)

lemma refreshed_plain_gauges:
  "map (\<lambda>name. gauge_value name [] (m_emitted (ap_metrics (fst (refresh_gauges a)))))
     [''recomp_ws_clients'', ''recomp_ws_lobbies'', ''recomp_ws_matches'', ''recomp_http_rooms'', ''recomp_http_rooms_running'']
   = [lc_ws_clients (live_counts a), lc_ws_lobbies (live_counts a), lc_ws_matches (live_counts a),
      lc_http_rooms (live_counts a), lc_http_rooms_running (live_counts a)]"
  by (simp add: refresh_gauges_def Let_def gauge_other_series gauge_set_gauges)

lemma sum_filter_count_game:
  "sum_list (map snd (filter (\<lambda>(g, n). P g) (count_game k m))) =
     sum_list (map snd (filter (\<lambda>(g, n). P g) m)) + (if P k then 1 else 0)"
proof -
  have "sum_list (map snd (filter (\<lambda>(g, n). P g) (AList.update k (unwrap_or (map_of m k) 0 + 1) m))) =
     sum_list (map snd (filter (\<lambda>(g, n). P g) m)) + (if P k then 1 else 0)"
    by (induction m) auto
  then show ?thesis by (simp add: count_game_def)
qed

lemma sum_filter_counts:
  "sum_list (map snd (filter (\<lambda>(g, n). P g) (foldl (\<lambda>out r. count_game (f r) out) out rs))) =
     sum_list (map snd (filter (\<lambda>(g, n). P g) out)) + length (filter (\<lambda>r. P (f r)) rs)"
  by (induction rs arbitrary: out) (auto simp: sum_filter_count_game)

lemma counted_names_keep_labels:
  "(game, n) \<in> set counts \<Longrightarrow> extends (snd (fold_counts counts folded g)) g' \<Longrightarrow>
   fst (game_label g' game) = fst (game_label (snd (fold_counts counts folded g)) game)"
proof (induction counts arbitrary: folded g)
  case (Cons c counts)
  obtain game' n' where c: "c = (game', n')" by force
  show ?case
  proof (cases "game' = game")
    case True
    let ?g = "snd (game_label g game)" and ?f = "snd (fold_counts (c # counts) folded g)"
    have *: "extends ?g ?f" unfolding c True fold_counts_Cons by (rule fold_counts_extends)
    show ?thesis
      using label_stays [OF *] label_stays [OF extends_trans [OF * Cons.prems(2)]] by simp
  next
    case False
    then show ?thesis using Cons.prems unfolding c fold_counts_Cons by (intro Cons.IH) auto
  qed
qed simp

lemma map_of_mem_filter_cong:
  "(\<And>g n. (g, n) \<in> set m \<Longrightarrow> P g = Q g) \<Longrightarrow> filter (\<lambda>(g, n). P g) m = filter (\<lambda>(g, n). Q g) m"
  by (rule filter_cong) auto

lemma refreshed_match_gauge:
  assumes "app_ok a"
  shows "active_gauge SURFACE_WS l (ap_metrics (fst (refresh_gauges a))) =
    length (filter (\<lambda>r. lb_started r \<and> fst (game_label (m_labels (ap_metrics (fst (refresh_gauges a)))) (lb_game r)) = l)
              (vals (h_lobbies (sv_hub (ap_server a)))))"
proof -
  let ?n = "live_counts a" and ?c = "lc_ws_matches_by_game (live_counts a)"
  obtain ops where "ap_metrics a = run_metrics ops" using assms by (auto simp: app_ok_def)
  define M1 where "M1 = run_metrics (ops @ [SetGauges (lc_ws_clients ?n) (lc_ws_lobbies ?n) (lc_ws_matches ?n)
    (lc_http_rooms ?n) (lc_http_rooms_running ?n)])"
  define M2 where "M2 = set_matches_by_game SURFACE_WS ?c M1"
  define M3 where "M3 = set_matches_by_game SURFACE_HTTP (lc_http_rooms_running_by_game ?n) M2"
  have M3: "ap_metrics (fst (refresh_gauges a)) = M3"
    using \<open>ap_metrics a = run_metrics ops\<close>
    by (simp add: refresh_gauges_def Let_def M3_def M2_def M1_def run_metrics_def)
  have inv: "gauges_inv M1" unfolding M1_def by (rule gauges_inv_run)
  then have inv2: "gauges_inv M2" unfolding M2_def by (rule gauges_inv_set_matches)
  have "active_gauge SURFACE_WS l M3 = active_gauge SURFACE_WS l M2"
    unfolding M3_def by (simp add: active_gauge_set_matches [OF inv2] SURFACE_WS_def SURFACE_HTTP_def)
  also have "\<dots> = sum_list (map snd (filter (\<lambda>(game, n). fst (game_label (m_labels M2) game) = l) ?c))"
    using fold_counts_value [of ?c "[]" "m_labels M1" l]
    by (simp add: M2_def active_gauge_set_matches [OF inv] set_matches_sel)
  also have "filter (\<lambda>(game, n). fst (game_label (m_labels M2) game) = l) ?c =
      filter (\<lambda>(game, n). fst (game_label (m_labels M3) game) = l) ?c"
  proof (rule map_of_mem_filter_cong)
    fix game n assume "(game, n) \<in> set ?c"
    moreover have "extends (m_labels M2) (m_labels M3)"
      unfolding M3_def set_matches_sel by (rule fold_counts_extends)
    ultimately have "fst (game_label (m_labels M3) game) = fst (game_label (m_labels M2) game)"
      unfolding M2_def set_matches_sel by (rule counted_names_keep_labels)
    then show "(fst (game_label (m_labels M2) game) = l) = (fst (game_label (m_labels M3) game) = l)" by simp
  qed
  finally show ?thesis
    unfolding M3 by (simp add: live_counts_def Let_def match_counts_by_game_def sum_filter_counts conj_commute)
qed


definition demo_db :: Database where
  "demo_db = \<lparr>db_players = [], db_secrets = [], db_history = \<lparr> strikes = [], pairings = [], desyncs = [] \<rparr>, db_reports = []\<rparr>"

definition demo_app :: App where
  "demo_app = on_event demo_server_env (Receive ''a'' ''1.1.1.1'' (blank_msg ''create''))
     (on_event demo_server_env (Connect ''a'' ''1.1.1.1'' []) (start_app demo_cfg demo_db))"

lemma demo_app_running: "running demo_cfg demo_db demo_app"
proof -
  have "cfg_discord_required demo_cfg = False" unfolding demo_cfg_def env_fields by code_simp
  then have s: "ap_server (start_app demo_cfg demo_db) = empty_server False" by (simp add: start_app_def demo_db_def empty_server_def)
  have "running demo_cfg demo_db (on_event demo_server_env (Connect ''a'' ''1.1.1.1'' []) (start_app demo_cfg demo_db))"
    by (rule running.run_event [OF running.run_start])
      (simp add: s allowed_def empty_server_def empty_hub_def client_def)
  then show ?thesis
    unfolding demo_app_def
    by (rule running.run_event) (use demo_create_allowed in \<open>simp add: on_event_def s demo_connected_def\<close>)
qed


text \<open>A game name reaches the table of \<^verbatim>\<open>/stats/ui\<close> as it is: markup in it is markup of the page,
  where the Discord pages would have escaped it.\<close>

lemma a_room_title_is_markup:
  "stats_row ''http'' (''<img src=x onerror=f()>'', 1) =
     ''<tr><td>http</td><td><img src=x onerror=f()></td><td>1</td></tr>'' \<and>
   html_escape ''<img src=x onerror=f()>'' = ''&lt;img src=x onerror=f()&gt;''"
  by (simp add: stats_row_def show_nat_def show_base.simps char_of_def bit_0 html_escape_eq entity_def)

text \<open>A janitor pass leaves only rooms with their host, a fresh member and a recent change.\<close>

lemma janitor_leaves_live_rooms:
  assumes "(rid, r) \<in> set (wb_rooms (ap_web (janitor t c a)))"
  shows "t - updated_at r \<le> int (room_idle_secs c) * nanos_per_sec \<and> is_member r (host_player_id r) \<and>
    (\<forall>m \<in> set (Rooms.members r). t - last_heartbeat m \<le> int (heartbeat_timeout_secs c) * nanos_per_sec)"
  using assms by (auto simp: janitor_def purge_stale_def purge_removes_def purge_members_def Let_def)

end
