(* ===== verification/Report_Files.thy ===== *)
theory Report_Files
  imports History Rulesets
begin

text \<open>
  The files of chat reports: \<^verbatim>\<open>write_dump\<close> of \<^verbatim>\<open>moderation.rs\<close> and the whole of \<^verbatim>\<open>record\<close>,
  which writes a report to disk and then to the table.  The file system is the list of the files
  written, with two switches that say whether it lets the server make directories and write; how
  chrono prints the date is a parameter.
\<close>

subsection \<open>The file of a report\<close>

record Stamp =
  st_year :: string
  st_month :: string
  st_rfc3339 :: string

record Disk =
  dk_files :: "(string \<times> string) list"
  dk_mkdir_ok :: bool
  dk_write_ok :: bool

definition newline :: string where "newline = [CHR 0x0A]"

definition rel_path :: "Stamp \<Rightarrow> string \<Rightarrow> string" where
  "rel_path st i = st_year st @ ''/'' @ st_month st @ ''/'' @ i @ ''.txt''"

text \<open>\<^verbatim>\<open>Path::join\<close> with a relative path.\<close>

definition path_join :: "string \<Rightarrow> string \<Rightarrow> string" where
  "path_join dir rel = (if dir = [] \<or> last dir = CHR ''/'' then dir @ rel else dir @ ''/'' @ rel)"

definition dump_head :: "Stamp \<Rightarrow> string \<Rightarrow> ChatReport \<Rightarrow> string" where
  "dump_head st i r =
     ''report:   '' @ i @ newline @ ''filed:    '' @ st_rfc3339 st @ newline @
     ''reporter: '' @ cr_reporter r @ newline @ ''accused:  '' @ cr_accused_name r @ '' ('' @ cr_accused r @ '')'' @ newline @
     ''game:     '' @ cr_game_name r @ '' '' @ cr_game_version r @ newline @ ''platform: '' @ cr_platform r @ newline @
     ''server:   '' @ cr_server r @ newline @ ''scope:    '' @ cr_scope r @ newline @
     ''lobby:    '' @ cr_lobby_id r @ newline @ ''reason:   '' @ normalize_reason (cr_reason r) @ newline @ ''note:     ''"

definition dump_sections :: "ChatReport \<Rightarrow> string" where
  "dump_sections r =
     newline @ newline @ ''--- context (preceding lines, same room) ---'' @ newline @ cr_context r @ newline @ newline @
     ''--- reported ('' @ show_int (cr_message_count r) @ '' message(s)) ---'' @ newline @ cr_transcript r @ newline"

definition dump_body :: "Stamp \<Rightarrow> string \<Rightarrow> ChatReport \<Rightarrow> string" where
  "dump_body st i r = dump_head st i r @ cr_note r @ dump_sections r"

definition write_dump :: "Stamp \<Rightarrow> string \<Rightarrow> string \<Rightarrow> ChatReport \<Rightarrow> Disk \<Rightarrow> Disk \<times> string" where
  "write_dump st dir i r D =
     (if dir = [] then (D, [])
      else let rel = rel_path st i
           in if \<not> dk_mkdir_ok D then (D, [])
              else if \<not> dk_write_ok D then (D, [])
              else (D\<lparr> dk_files := AList.update (path_join dir rel) (dump_body st i r) (dk_files D) \<rparr>, rel))"

text \<open>\<^verbatim>\<open>record\<close>: the limit, then the file, then the row.\<close>

definition record_filed ::
    "string list \<Rightarrow> int \<Rightarrow> Stamp \<Rightarrow> string \<Rightarrow> string \<Rightarrow> ChatReport \<Rightarrow> report_row list \<times> Disk \<Rightarrow>
      (report_row list \<times> Disk) \<times> Submitted" where
  "record_filed accts now st dir i r td =
     (if recent_report_count now (cr_reporter r) (fst td) \<ge> REPORTS_PER_HOUR then (td, RateLimited)
      else let (D, path) = write_dump st dir i r (snd td); (t, out) = record_report accts now path r (fst td)
           in ((t, D), out))"

subsection \<open>What is on disk\<close>

text \<open>The table sees what \<open>record_report\<close> makes of it, whatever becomes of the file.\<close>

lemma record_filed_table:
  "\<exists>path. fst (fst (record_filed accts now st dir i r td)) = fst (record_report accts now path r (fst td)) \<and>
    snd (record_filed accts now st dir i r td) = snd (record_report accts now path r (fst td))"
  by (rule exI [of _ "snd (write_dump st dir i r (snd td))"])
    (auto simp: record_filed_def Let_def record_report_def split: prod.splits if_splits)

text \<open>A report that is filed has its file, unless the disk refuses; its name tells the month and the
  report, and nothing of who is in it.\<close>

lemma a_filed_report_has_its_file:
  assumes "record_filed accts now st dir i r td = ((t, D), SubmittedOk)"
    and "dir \<noteq> []" "dk_mkdir_ok (snd td)" "dk_write_ok (snd td)"
  shows "t = fst td @ [(stored_report r, rel_path st i, now)] \<and>
    map_of (dk_files D) (path_join dir (rel_path st i)) = Some (dump_body st i r)"
  using assms
  by (auto simp: record_filed_def write_dump_def record_report_def Let_def update_conv split: prod.splits if_splits)

text \<open>The file comes first: a report that turns out to be a duplicate adds no row and leaves a file
  that no row names.\<close>

lemma a_duplicate_leaves_a_file:
  assumes "record_filed accts now st dir i r td = ((t, D), Duplicate)"
    and "dir \<noteq> []" "dk_mkdir_ok (snd td)" "dk_write_ok (snd td)"
  shows "t = fst td \<and> map_of (dk_files D) (path_join dir (rel_path st i)) = Some (dump_body st i r)"
  using assms
  by (auto simp: record_filed_def write_dump_def record_report_def Let_def update_conv split: prod.splits if_splits)

text \<open>
  A note can forge a file.  The note of a report is written to its file as the client sent it,
  above the sections the server fills in.  So for any context and transcript one can make up there
  is a note with which the file, of a report that quotes quite other lines, begins with exactly the
  file of a report that quotes those.
\<close>

theorem a_note_can_forge_a_file:
  "\<exists>note rest. dump_body st i (r\<lparr> cr_note := note \<rparr>) =
     dump_body st i (r\<lparr> cr_context := fake_context, cr_transcript := fake_transcript, cr_message_count := n \<rparr>) @ rest"
proof -
  let ?fake = "r\<lparr> cr_context := fake_context, cr_transcript := fake_transcript, cr_message_count := n \<rparr>"
  have "dump_body st i (r\<lparr> cr_note := cr_note r @ dump_sections ?fake \<rparr>) = dump_body st i ?fake @ dump_sections r"
    by (simp add: dump_body_def dump_head_def dump_sections_def)
  then show ?thesis by blast
qed

end
