(* ===== verification/Spec2Isabelle.thy ===== *)
theory Spec2Isabelle
  imports Room_Refinement Http_Login Rooms Chat_Filter Config Signals Rulesets Ip_Country
    Presence Tasks Outbox Service Report_Files
begin

text \<open>
  Verification of recomp-net-server, the lobby and matchmaking server in Rust.

  \<^bold>\<open>The program.\<close>  One process serves two kinds of clients from one shared state
  (\<^verbatim>\<open>AppState\<close> in \<^verbatim>\<open>src/lib.rs\<close>).  Over HTTP (\<^verbatim>\<open>src/routes/mod.rs\<close>) players get an account
  or an anonymous token, open rooms in a registry, exchange connection signals through
  mailboxes and fetch TURN credentials.  Over a websocket (\<^verbatim>\<open>src/ws_lobby.rs\<close>) clients send
  JSON messages to a hub that keeps who is connected, the rooms with their seats and
  spectators, chat, blocks and latency probes, and that hands ranked players to the automatch
  queue (\<^verbatim>\<open>src/automatch.rs\<close>), which pairs them, makes offers and forms rooms of its own.

  \<^bold>\<open>Shared ground.\<close>
  \<^item> Prelude, Fifo, Rust\_Text, Json\_Value, Net\_Addr: options, hash maps as association lists
    in iteration order, a bounded queue as a locale, UTF-8 text with the string functions of
    the standard library, JSON values, and IP addresses.  The collection \<open>rust_simps\<close> holds the
    definitions that evaluation unfolds.

  \<^bold>\<open>The HTTP half.\<close>
  \<^item> Rooms: \<^verbatim>\<open>src/rooms.rs\<close>; every operation of the registry, its requests as a step relation,
    the invariant of reachable registries, slots, bootstraps and the readiness barrier; the
    locale \<open>room_operation\<close> is the contract of the operations on one room.
  \<^item> Signals: \<^verbatim>\<open>src/signal.rs\<close>; the mailboxes are an instance of the bounded queue.
  \<^item> Chat\_Filter, Identity: \<^verbatim>\<open>src/chat_filter.rs\<close>, \<^verbatim>\<open>src/names.rs\<close>, \<^verbatim>\<open>src/identity.rs\<close> and
    \<^verbatim>\<open>src/players.rs\<close>; masking, the name gate, accounts and guests.
  \<^item> Config: \<^verbatim>\<open>src/config.rs\<close> and \<^verbatim>\<open>src/turn_credentials.rs\<close>; what an accepted environment
    guarantees.
  \<^item> Auth: \<^verbatim>\<open>src/auth.rs\<close>, \<^verbatim>\<open>src/secrets.rs\<close>, \<^verbatim>\<open>src/discord_auth.rs\<close>; sessions, device keys,
    nonces and pairing codes, the last two as instances of the locale \<open>one_shot\<close>.
  \<^item> Http\_Api, Http\_Login: the handlers of \<^verbatim>\<open>src/routes/mod.rs\<close> over all of these; a request
    refines a step of its sender (\<open>player_step\<close>), reading signals, and the pages of the login.

  \<^bold>\<open>The websocket half.\<close>
  \<^item> Lobby, Room\_Edits: one room of the hub, its seats and spectators, and each operation on it
    (\<open>move_op\<close>, \<open>seat_joiner\<close>, \<open>kick_op\<close>, ...) with the invariant \<open>lobby_ok\<close>; the locale
    \<open>roster_op\<close> is the contract of the operations that only rearrange who is there.
  \<^item> Hub: the hub's state (\<open>Hub\<close> for \<^verbatim>\<open>HubInner\<close>, with the log \<open>h_out\<close> of what was sent for the
    clients' channels), lists, the chat ring, blocks, the rate limit.
  \<^item> Hub\_Rooms: the handlers that create, join, arrange, start, leave, close and kick, with the
    invariant \<open>hub_ok\<close>.  Hub\_Talk: identity, chat, signals, probes, mod transfer, TURN.
  \<^item> Rulesets, Match\_Queue, History: \<^verbatim>\<open>src/automatch.rs\<close> and \<^verbatim>\<open>src/moderation.rs\<close>; queue types
    and delay floors, the queue with its pairing loop, strikes, cooldowns, retention, reports.
  \<^item> Automatch\_Hub: the automatch handlers, the formed match and its launch, the driver of the
    clock, chat and desync reports.
  \<^item> Server\_Step: dispatch, connections, and the reachable states of the whole server, in which
    rooms and clients agree.  Room\_Refinement: an abstract specification of rooms
    (\<open>room_step\<close>) that every message refines.
  \<^item> Sign\_In: who is signed in; every operation but \<^verbatim>\<open>hello\<close>, connecting and disconnecting keeps
    the roster \<open>who\<close> of connections and accounts.
  \<^item> Audience: what is sent to whom.  Every message has an \<^verbatim>\<open>op\<close> of the protocol (\<open>server_ops\<close>), and
    at a server that demands a login strangers get none of the messages that carry data; the
    locale \<open>audience\<close> proves both for every handler at once, for any set of clients that may be
    told things, and is interpreted twice: for those signed in and for everybody.
  \<^item> Presence: the queue and the connections behind it.  The locale \<open>taking_op\<close> is the contract of
    the operations of \<open>QueueInner\<close> that take tickets out (none is lost or doubled), interpreted for
    all six; in orderly runs (\<open>orderly\<close>) everybody who waits is connected and signed in as the
    account that queued.
  \<^item> Tasks: the loops beside the handlers, the task that launches a formed match with its retries
    (\<open>launch_loop\<close>) and the task of a connection with its login grace (\<open>handle_socket\<close>).
  \<^item> Outbox: the channel of a connection and the task that writes it to the socket.
  \<^item> Ip\_Country: \<^verbatim>\<open>src/ip_country.rs\<close>; the binary search of the built-in country table.

  \<^bold>\<open>The process.\<close>
  \<^item> Metrics: \<^verbatim>\<open>src/metrics.rs\<close>; the bounded labels of games, the counters and gauges, as a state
    with the log of what the Prometheus library is told.
  \<^item> Service: \<^verbatim>\<open>src/main.rs\<close>; lobby server, HTTP interface and counters as one state, what it is
    at start, the janitor and the sweep, \<^verbatim>\<open>/stats\<close>, \<^verbatim>\<open>/health\<close> and the gauges, and the states
    the process reaches (\<open>running\<close>).
  \<^item> Report\_Files: the transcript files of \<^verbatim>\<open>src/moderation.rs\<close>.

  \<^bold>\<open>Conventions.\<close>  A handler is a function from the state to the new state; a \<^verbatim>\<open>Result\<close> is a
  sum with the error on the left.  Integers are \<open>nat\<close> or \<open>int\<close> with the saturation, clamping or
  wrap-around of the source written out, bytes that are combined bitwise are 8-bit words.
  Instants are nanoseconds.  Each lock of the source is taken for short sections of a handler; a handler is
  one step here, and \<open>allowed\<close> in Server\_Step says what is assumed of the order of steps: fresh
  identifiers are fresh, messages come from connected clients, and when a match is formed its
  players are connected and unseated (\<open>match_expected\<close>; the code does not check the latter, and
  Presence derives the former for orderly runs).
  \<open>careful\<close> in Audience adds, for the one theorem about strangers, that ids of connections are not
  used twice and that a launch belongs to an accepted offer; \<open>steady\<close> in Presence adds, for the
  theorem about waiting players, that nobody signs in as another account while waiting and that the
  players of a match being started do not queue again meanwhile.
  Loops over data are recursive functions; the pairing loop and the launch loop have termination
  proofs, the others are structural, so there is no fuel.  The loops of tasks take what the other
  tasks do in between as an argument: the states they find, or the events that come first.
  The rate limit computes with \<^verbatim>\<open>f64\<close>; here it is exact rational arithmetic.

  \<^bold>\<open>Parameters.\<close>  Random draws, clocks, SHA-256, HMAC, the JWT library, uuid parsing, the
  serialised length of JSON, Unicode lower-casing, MaxMind and the answers of Discord are
  arguments, gathered in \<open>HubEnv\<close>, \<open>ServerEnv\<close> and \<open>WebEnv\<close>.  Only the session round trip
  assumes something of one of them, that the JWT library decodes what it encoded.  SQL tables are lists of records with
  the statements of the source as functions; database failures are not modelled.

  \<^bold>\<open>What does not hold.\<close>  Several theorems state behaviour that the source's comments exclude:
  a purge leaves a room starting with a player missing; upper-case letters do not bound a
  filtered word; a blocked joiner can tell; the player left behind by a failed match is
  dropped; blanks hide a title from the check of declared mods; the greeting is escaped twice;
  the game chat reaches clients that have not signed in; a game name is markup in the statistics
  page; an address in \<^verbatim>\<open>X-Forwarded-For\<close> is believed; a note can forge the file of a report; a
  client that falls 64 messages behind goes silent; a connection that waits under two accounts leaves a ticket behind when
  it ends, and so does one that ends between the check and the second half of a requeue.

  \<^bold>\<open>Not modelled.\<close>  The websocket and HTTP transports (framing, routing), command line, tracing and
  migrations, the layout of the statistics page, reading the MaxMind file, the word list and
  the ruleset file, and the tests.
\<close>

end
